(* ===== verification/Prelude.thy ===== *)
theory Prelude
  imports Complex_Main "HOL-Library.AList" "HOL-Library.Log_Nat"
begin

text \<open>
  Shared vocabulary of the development: the Python values the components exchange (double
  precision floats, microsecond timestamps), the result types of fallible operations, and the
  generic lemmas on lists and association lists that carry the component proofs.

  Python strings are modelled as \<^typ>\<open>string\<close>, that is as sequences of code points up to 255.
  Python integers are \<^typ>\<open>int\<close> (or \<^typ>\<open>nat\<close> where the source only counts).
\<close>

section \<open>Collections of facts\<close>

named_theorems table_simps \<open>how the statements of the projector change each table\<close>
named_theorems inv_intros \<open>operations preserve the component invariants\<close>

section \<open>Double precision floats\<close>

text \<open>
  A finite double is a rational number; \<open>fl\<close> rounds an exact rational to the nearest double
  (53 significant bits, ties to even), as every arithmetic operation of CPython's \<open>float\<close> does.
  Overflow and subnormal numbers do not occur at the magnitudes the source computes with.
\<close>

datatype py_float = Finite rat | Infinity bool | NaN

fun is_finite :: "py_float \<Rightarrow> bool" where
  "is_finite (Finite q) = True"
| "is_finite (Infinity neg) = False"
| "is_finite NaN = False"

definition round_half_even :: "rat \<Rightarrow> int" where
  "round_half_even q =
     (let f = \<lfloor>q\<rfloor>; d = q - of_int f
      in if d < 1 / 2 then f else if 1 / 2 < d then f + 1 else if even f then f else f + 1)"

definition pow2 :: "int \<Rightarrow> rat" where
  "pow2 e = (if 0 \<le> e then 2 ^ nat e else 1 / 2 ^ nat (- e))"

definition fl_exponent :: "rat \<Rightarrow> int" where
  "fl_exponent x =
     (let (a, b) = quotient_of x; e = bitlen \<bar>a\<bar> - bitlen b - 53
      in if 2 ^ 53 \<le> \<bar>x\<bar> / pow2 e then e + 1 else e)"

definition fl :: "rat \<Rightarrow> rat" where
  "fl x = (if x = 0 then 0
           else of_int (round_half_even (x / pow2 (fl_exponent x))) * pow2 (fl_exponent x))"

definition py_trunc :: "rat \<Rightarrow> int" where
  "py_trunc q = (if 0 \<le> q then \<lfloor>q\<rfloor> else \<lceil>q\<rceil>)"

lemma round_half_even_of_int [simp]: "round_half_even (of_int n) = n"
  by (simp add: round_half_even_def)

lemma py_trunc_of_int [simp]: "py_trunc (of_int n) = n"
  by (simp add: py_trunc_def)

section \<open>Decimal text\<close>

definition digit_char :: "nat \<Rightarrow> char" where
  "digit_char n = char_of (48 + n)"

text \<open>\<open>str(n)\<close> for an integer, most significant digit first.\<close>

fun nat_str :: "nat \<Rightarrow> string" where
  "nat_str n = (if n < 10 then [digit_char n] else nat_str (n div 10) @ [digit_char (n mod 10)])"

declare nat_str.simps [simp del]

definition int_str :: "int \<Rightarrow> string" where
  "int_str n = (if n < 0 then CHR ''-'' # nat_str (nat (- n)) else nat_str (nat n))"

section \<open>Lists and association lists\<close>

lemma sorted_wrt_snoc:
  "sorted_wrt P (xs @ [x]) \<longleftrightarrow> sorted_wrt P xs \<and> (\<forall>y \<in> set xs. P y x)"
  by (auto simp: sorted_wrt_append)

lemma sorted_wrt_filter_wrt: "sorted_wrt P xs \<Longrightarrow> sorted_wrt P (filter Q xs)"
  by (induction xs) auto

lemma sorted_wrt_le_last:
  "sorted_wrt (<) xs \<Longrightarrow> x \<in> set xs \<Longrightarrow> x \<le> last (xs :: 'a :: linorder list)"
  by (induction xs) (auto simp: less_imp_le)

lemma take_by_last:
  assumes "sorted_wrt (<) (map f ys)" and "take k ys \<noteq> []"
  shows "filter (\<lambda>y. f y \<le> (f (last (take k ys)) :: 'b :: linorder)) ys = take k ys"
  using assms
proof (induction ys arbitrary: k)
  case (Cons y ys)
  show ?case
  proof (cases k)
    case (Suc j)
    show ?thesis
    proof (cases "take j ys = []")
      case True
      with Cons.prems Suc show ?thesis by (auto simp: filter_empty_conv not_le)
    next
      case False
      then have "last (take j ys) \<in> set ys" by (meson in_set_takeD last_in_set)
      with Cons False Suc show ?thesis by (auto simp: less_imp_le)
    qed
  qed (use Cons.prems in simp)
qed simp

lemma filter_between:
  assumes "sorted_wrt (<) (map f ys)" and "a \<le> l" and "l \<le> (b :: 'b :: linorder)"
  shows "filter (\<lambda>y. a < f y \<and> f y \<le> b) ys =
    filter (\<lambda>y. a < f y \<and> f y \<le> l) ys @ filter (\<lambda>y. l < f y \<and> f y \<le> b) ys"
  using assms
proof (induction ys)
  case (Cons y ys)
  show ?case
  proof (cases "f y \<le> l")
    case False
    with Cons.prems have "filter (\<lambda>y. a < f y \<and> f y \<le> l) (y # ys) = []"
      by (fastforce simp: filter_empty_conv)
    with Cons False show ?thesis by auto
  qed (use Cons in auto)
qed simp

lemma map_of_snoc_new:
  "map_of (xs @ [(k, v)]) k' =
     (case map_of xs k' of None \<Rightarrow> (if k' = k then Some v else None) | Some w \<Rightarrow> Some w)"
  by (auto simp: map_add_def split: option.splits)

lemma distinct_fst_snoc:
  "distinct (map fst (xs @ [(k, v)])) \<longleftrightarrow> distinct (map fst xs) \<and> map_of xs k = None"
  by (auto simp: map_of_eq_None_iff)

lemma map_of_update_if:
  "map_of (AList.update k v al) k' = (if k' = k then Some v else map_of al k')"
  by (simp add: update_conv')

lemma alist_update_new: "map_of al k = None \<Longrightarrow> AList.update k v al = al @ [(k, v)]"
  by (induction al) (auto split: if_splits)

end
