(* ===== verification/Incident_Db.thy ===== *)
theory Incident_Db
  imports Prelude "HOL-Library.Word" "HOL-Library.List_Lexorder" "HOL-Library.Char_ord"
begin

text \<open>
  The PostgreSQL side of the incident projector (\<open>src/images/incident-projector/app/db.py\<close>) over
  the schema of \<open>app/migrations/*.sql\<close>: the event records of \<open>schemas/events/v2/events.proto\<close>,
  the tables as association lists keyed by their primary keys, and one definition per SQL
  statement and per function. A function runs in one transaction: when a statement raises, the
  result is \<^term>\<open>Inl e\<close> and the tables are those from before the call.

  Server resource limits (index row size, notification length) are not modelled.
\<close>

section \<open>Events\<close>

record envelope =
  event_id :: string
  schema_version :: string
  env_gateway_id :: string
  env_device_key :: string
  event_time_unix_millis :: int
  ingest_time_unix_millis :: int
  trace_id :: string

record horizon_evidence =
  horizon_seconds :: "32 word"
  hz_value :: py_float
  open_threshold :: py_float
  over_threshold :: bool

record detection_transition =
  t_envelope :: envelope
  t_transition_id :: string
  t_incident_id :: string
  t_revision :: "64 word"
  t_status :: int
  t_threat_family :: int
  t_rule_id :: string
  t_rule_version :: string
  t_severity :: int
  t_horizons :: "horizon_evidence list"
  t_evidence_event_time_unix_millis :: int
  t_detected_at_unix_millis :: int
  t_episode_start_unix_millis :: int
  t_sample_event_ids :: "string list"
  t_feature_version :: string
  t_evidence_ingest_time_unix_millis :: int

record health_event =
  h_envelope :: envelope
  h_component :: string
  h_kind :: int
  h_count :: "64 word"
  h_first_sequence :: "64 word"
  h_last_sequence :: "64 word"
  h_first_event_time_unix_millis :: int
  h_last_event_time_unix_millis :: int
  h_detail :: string

section \<open>Tables\<close>

type_synonym timestamptz = int  \<comment> \<open>microseconds since 1970-01-01 UTC\<close>

record payload =
  p_transition_id :: string
  p_incident_id :: string
  p_revision :: int
  p_status :: string
  p_threat_family :: string
  p_rule_id :: string
  p_rule_version :: string
  p_severity :: string
  p_device_key :: string
  p_gateway_id :: string
  p_horizons :: "horizon_evidence list"
  p_episode_start_ms :: int
  p_evidence_event_time_ms :: int
  p_evidence_ingest_time_ms :: int
  p_detected_at_ms :: int
  p_sample_event_ids :: "string list"
  p_feature_version :: string

record transition_row =
  tr_incident_id :: string
  tr_revision :: int
  tr_status :: string
  tr_payload :: payload
  tr_received_at :: timestamptz

record incident_row =
  i_device_key :: string
  i_gateway_id :: string
  i_threat_family :: string
  i_rule_id :: string
  i_rule_version :: string
  i_status :: string
  i_active :: bool
  i_severity :: string
  i_revision :: int
  i_episode_start :: timestamptz
  i_evidence_event_time :: timestamptz
  i_evidence_ingest_time :: "timestamptz option"
  i_detected_at :: timestamptz
  i_committed_at :: timestamptz
  i_last_transition :: payload

record feed_row =
  f_cursor :: int
  f_incident_id :: string
  f_revision :: int
  f_payload :: payload
  f_committed_at :: timestamptz

record health_row =
  hr_count :: int
  hr_first_sequence :: int
  hr_last_sequence :: int
  hr_first_event_time :: "timestamptz option"
  hr_last_event_time :: "timestamptz option"
  hr_detail :: string
  hr_received_at :: timestamptz

type_synonym health_key = "string \<times> string \<times> string"

record db =
  incident_transitions :: "(string \<times> transition_row) list"
  incidents :: "(string \<times> incident_row) list"
  incident_feed :: "feed_row list"
  feed_seq :: int  \<comment> \<open>last value taken from the cursor's sequence\<close>
  gateway_health :: "(health_key \<times> health_row) list"
  notified :: "(string \<times> string) list"  \<comment> \<open>committed notifications: channel, payload\<close>
  schema_migrations :: "string list"  \<comment> \<open>versions\<close>
  executed_ddl :: "string list"  \<comment> \<open>migration scripts, in the order they ran\<close>

definition empty_db :: db where
  "empty_db = \<lparr>incident_transitions = [], incidents = [], incident_feed = [], feed_seq = 0,
               gateway_health = [], notified = [], schema_migrations = [], executed_ddl = []\<rparr>"

text \<open>
  What a statement can raise. \<open>Operational_error\<close> is a lost or refused connection (the class
  \<open>psycopg.OperationalError\<close>); the others are data errors and propagate.
\<close>

datatype db_error =
    Operational_error
  | Data_error
  | Not_null_violation string
  | Unique_violation
  | Timestamp_out_of_range

section \<open>Constants and helpers\<close>

definition FEED_CHANNEL :: string where "FEED_CHANNEL = ''incident_feed''"
definition HEALTH_CHANNEL :: string where "HEALTH_CHANNEL = ''gateway_health''"

definition FEED_RETENTION :: int where
  "FEED_RETENTION = 7 * 24 * 60 * 60 * 1000000"

definition STATUS :: "int \<Rightarrow> string" where
  "STATUS n = (if n = 1 then ''OPEN'' else if n = 2 then ''UPDATE'' else if n = 3 then ''REOPEN''
     else if n = 4 then ''RESOLVE'' else ''UNSPECIFIED'')"

definition SEVERITY :: "int \<Rightarrow> string" where
  "SEVERITY n = (if n = 1 then ''LOW'' else if n = 2 then ''MEDIUM'' else if n = 3 then ''HIGH''
     else ''UNSPECIFIED'')"

definition FAMILY :: "int \<Rightarrow> string" where
  "FAMILY n = (if n = 1 then ''PORT_SCAN'' else ''UNSPECIFIED'')"

definition HEALTH_KIND :: "int \<Rightarrow> string" where
  "HEALTH_KIND n = (if n = 1 then ''HEARTBEAT'' else if n = 2 then ''SPOOL_LOSS''
     else if n = 3 then ''UNATTRIBUTED'' else if n = 4 then ''LATE_EVENTS''
     else if n = 5 then ''FLOW_TABLE_EVICTION'' else ''UNSPECIFIED'')"

text \<open>
  \<open>datetime.fromtimestamp(x, tz=utc)\<close>: the fractional part is scaled to microseconds and
  rounded half to even; years outside 1..9999 raise.
\<close>

definition fromtimestamp :: "rat \<Rightarrow> db_error + timestamptz" where
  "fromtimestamp x =
     (let i = py_trunc x;
          us = i * 1000000 + round_half_even (fl ((x - of_int i) * 1000000));
          secs = us div 1000000
      in if - 62135596800 \<le> secs \<and> secs \<le> 253402300799 then Inr us
         else Inl Timestamp_out_of_range)"

definition ts :: "int \<Rightarrow> db_error + timestamptz option" where
  "ts millis = (if millis = 0 then Inr None
     else case fromtimestamp (fl (of_int millis / 1000)) of
            Inl e \<Rightarrow> Inl e | Inr d \<Rightarrow> Inr (Some d))"

definition transition_payload :: "detection_transition \<Rightarrow> payload" where
  "transition_payload t =
     \<lparr>p_transition_id = t_transition_id t,
      p_incident_id = t_incident_id t,
      p_revision = uint (t_revision t),
      p_status = STATUS (t_status t),
      p_threat_family = FAMILY (t_threat_family t),
      p_rule_id = t_rule_id t,
      p_rule_version = t_rule_version t,
      p_severity = SEVERITY (t_severity t),
      p_device_key = env_device_key (t_envelope t),
      p_gateway_id = env_gateway_id (t_envelope t),
      p_horizons = t_horizons t,
      p_episode_start_ms = t_episode_start_unix_millis t,
      p_evidence_event_time_ms = t_evidence_event_time_unix_millis t,
      p_evidence_ingest_time_ms = t_evidence_ingest_time_unix_millis t,
      p_detected_at_ms = t_detected_at_unix_millis t,
      p_sample_event_ids = t_sample_event_ids t,
      p_feature_version = t_feature_version t\<rparr>"

text \<open>
  Values PostgreSQL refuses: a NUL character in text, and, in a JSONB document, a NUL escape or
  one of the tokens \<open>NaN\<close> and \<open>Infinity\<close> that \<open>json.dumps\<close> writes for non-finite floats.
  A \<open>BIGINT\<close> column takes 64-bit signed integers.
\<close>

definition text_ok :: "string \<Rightarrow> bool" where
  "text_ok s = list_all (\<lambda>c. c \<noteq> CHR 0x00) s"

definition bigint_ok :: "int \<Rightarrow> bool" where
  "bigint_ok n \<longleftrightarrow> - (2 ^ 63) \<le> n \<and> n < 2 ^ 63"

definition jsonb_ok :: "payload \<Rightarrow> bool" where
  "jsonb_ok p \<longleftrightarrow>
     list_all text_ok [p_transition_id p, p_incident_id p, p_rule_id p, p_rule_version p,
       p_device_key p, p_gateway_id p, p_feature_version p] \<and>
     list_all text_ok (p_sample_event_ids p) \<and>
     list_all (\<lambda>h. is_finite (hz_value h) \<and> is_finite (open_threshold h)) (p_horizons p)"

section \<open>Statements\<close>

text \<open>
  \<open>INSERT INTO incident_transitions ... ON CONFLICT (transition_id) DO NOTHING RETURNING\<close>:
  \<^term>\<open>Inr None\<close> when the row exists.
\<close>

definition insert_transition ::
  "timestamptz \<Rightarrow> detection_transition \<Rightarrow> string \<Rightarrow> payload \<Rightarrow> db \<Rightarrow> db_error + db option" where
  "insert_transition now t status p d =
     (if \<not> (text_ok (t_transition_id t) \<and> text_ok (t_incident_id t) \<and> bigint_ok (uint (t_revision t))
             \<and> jsonb_ok p)
      then Inl Data_error
      else case map_of (incident_transitions d) (t_transition_id t) of
             Some _ \<Rightarrow> Inr None
           | None \<Rightarrow> Inr (Some (d\<lparr>incident_transitions := incident_transitions d @
               [(t_transition_id t, \<lparr>tr_incident_id = t_incident_id t,
                  tr_revision = uint (t_revision t), tr_status = status, tr_payload = p,
                  tr_received_at = now\<rparr>)]\<rparr>)))"

text \<open>
  The revision-guarded upsert of \<open>incidents\<close>. The \<open>NOT NULL\<close> columns are checked, in table
  order, before the conflict is looked at.
\<close>

definition upsert_incident ::
  "timestamptz \<Rightarrow> detection_transition \<Rightarrow> string \<Rightarrow> payload \<Rightarrow>
   timestamptz option \<Rightarrow> timestamptz option \<Rightarrow> timestamptz option \<Rightarrow> timestamptz option \<Rightarrow>
   db \<Rightarrow> db_error + db" where
  "upsert_incident now t status p episode event ingest detected d =
     (case episode of None \<Rightarrow> Inl (Not_null_violation ''episode_start'') | Some ep \<Rightarrow>
      case event of None \<Rightarrow> Inl (Not_null_violation ''evidence_event_time'') | Some ev \<Rightarrow>
      case detected of None \<Rightarrow> Inl (Not_null_violation ''detected_at'') | Some det \<Rightarrow>
      case map_of (incidents d) (t_incident_id t) of
        None \<Rightarrow> Inr (d\<lparr>incidents := incidents d @
          [(t_incident_id t, \<lparr>i_device_key = p_device_key p, i_gateway_id = p_gateway_id p,
             i_threat_family = p_threat_family p, i_rule_id = t_rule_id t,
             i_rule_version = t_rule_version t, i_status = status,
             i_active = (status \<noteq> ''RESOLVE''), i_severity = p_severity p,
             i_revision = uint (t_revision t), i_episode_start = ep, i_evidence_event_time = ev,
             i_evidence_ingest_time = ingest, i_detected_at = det, i_committed_at = now,
             i_last_transition = p\<rparr>)]\<rparr>)
      | Some r \<Rightarrow>
          if i_revision r < uint (t_revision t)
          then Inr (d\<lparr>incidents := AList.update (t_incident_id t)
            (r\<lparr>i_status := status, i_active := (status \<noteq> ''RESOLVE''), i_severity := p_severity p,
               i_revision := uint (t_revision t), i_episode_start := ep,
               i_evidence_event_time := ev, i_evidence_ingest_time := ingest,
               i_detected_at := det, i_committed_at := now, i_last_transition := p\<rparr>)
            (incidents d)\<rparr>)
          else Inr d)"

text \<open>The cursor is the next value of the sequence behind \<open>BIGSERIAL\<close>.\<close>

definition insert_feed ::
  "timestamptz \<Rightarrow> detection_transition \<Rightarrow> payload \<Rightarrow> db \<Rightarrow> int \<times> db" where
  "insert_feed now t p d =
     (let c = feed_seq d + 1
      in (c, d\<lparr>incident_feed := incident_feed d @
           [\<lparr>f_cursor = c, f_incident_id = t_incident_id t, f_revision = uint (t_revision t),
             f_payload = p, f_committed_at = now\<rparr>], feed_seq := c\<rparr>))"

definition notify :: "string \<Rightarrow> string \<Rightarrow> db \<Rightarrow> db" where
  "notify channel text d = d\<lparr>notified := notified d @ [(channel, text)]\<rparr>"

section \<open>Functions\<close>

subsection \<open>Migrations\<close>

text \<open>
  The directory listing is a list of file names and texts; \<open>ddl_error\<close> is what PostgreSQL raises
  for a script, if anything. The advisory lock makes concurrent migrators run one after the
  other, so a call sees every version an earlier one recorded.
\<close>

fun migrate_files ::
  "(string \<Rightarrow> db_error option) \<Rightarrow> string set \<Rightarrow> (string \<times> string) list \<Rightarrow> string list \<Rightarrow>
   db \<Rightarrow> db_error + (string list \<times> db)" where
  "migrate_files ddl_error done [] applied d = Inr (applied, d)"
| "migrate_files ddl_error done ((name, script) # fs) applied d =
     (if name \<in> done then migrate_files ddl_error done fs applied d
      else case ddl_error script of
             Some e \<Rightarrow> Inl e
           | None \<Rightarrow>
               if name \<in> set (schema_migrations d) then Inl Unique_violation
               else migrate_files ddl_error done fs (applied @ [name])
                      (d\<lparr>executed_ddl := executed_ddl d @ [script],
                         schema_migrations := schema_migrations d @ [name]\<rparr>))"

definition migrate ::
  "(string \<Rightarrow> db_error option) \<Rightarrow> (string \<times> string) list \<Rightarrow> db \<Rightarrow>
   (db_error + string list) \<times> db" where
  "migrate ddl_error files d =
     (case migrate_files ddl_error (set (schema_migrations d)) (sort_key fst files) [] d of
        Inl e \<Rightarrow> (Inl e, d)
      | Inr (applied, d') \<Rightarrow> (Inr applied, d'))"

subsection \<open>Transitions\<close>

definition apply_transition ::
  "timestamptz \<Rightarrow> detection_transition \<Rightarrow> db \<Rightarrow> (db_error + int option) \<times> db" where
  "apply_transition now t d =
     (let p = transition_payload t; status = p_status p in
      case insert_transition now t status p d of
        Inl e \<Rightarrow> (Inl e, d)
      | Inr None \<Rightarrow> (Inr None, d)
      | Inr (Some d1) \<Rightarrow>
          (case ts (t_episode_start_unix_millis t) of Inl e \<Rightarrow> (Inl e, d) | Inr ep \<Rightarrow>
           case ts (t_evidence_event_time_unix_millis t) of Inl e \<Rightarrow> (Inl e, d) | Inr ev \<Rightarrow>
           case ts (t_evidence_ingest_time_unix_millis t) of Inl e \<Rightarrow> (Inl e, d) | Inr ing \<Rightarrow>
           case ts (t_detected_at_unix_millis t) of Inl e \<Rightarrow> (Inl e, d) | Inr det \<Rightarrow>
           case upsert_incident now t status p ep ev ing det d1 of
             Inl e \<Rightarrow> (Inl e, d)
           | Inr d2 \<Rightarrow>
               let (cursor, d3) = insert_feed now t p d2
               in (Inr (Some cursor), notify FEED_CHANNEL (int_str cursor) d3)))"

definition prune_feed :: "timestamptz \<Rightarrow> int \<Rightarrow> db \<Rightarrow> (db_error + nat) \<times> db" where
  "prune_feed now older_than d =
     (let keep = (\<lambda>r. \<not> f_committed_at r < now - older_than)
      in (Inr (length (incident_feed d) - length (filter keep (incident_feed d))),
          d\<lparr>incident_feed := filter keep (incident_feed d)\<rparr>))"

subsection \<open>Health\<close>

definition health_key :: "health_event \<Rightarrow> health_key" where
  "health_key h = (env_gateway_id (h_envelope h), h_component h, HEALTH_KIND (h_kind h))"

text \<open>
  The upsert's \<open>WHERE\<close> clause in SQL's three-valued logic: the row is replaced only when the
  comparison is true, never when it is unknown.
\<close>

fun health_newer :: "timestamptz option \<Rightarrow> timestamptz option \<Rightarrow> bool" where
  "health_newer None new = True"
| "health_newer (Some old) None = False"
| "health_newer (Some old) (Some new) = (old \<le> new)"

definition upsert_health ::
  "timestamptz \<Rightarrow> health_event \<Rightarrow> timestamptz option \<Rightarrow> timestamptz option \<Rightarrow> db \<Rightarrow>
   db_error + db option" where
  "upsert_health now h fst_t last_t d =
     (if \<not> (text_ok (env_gateway_id (h_envelope h)) \<and> text_ok (h_component h) \<and>
            text_ok (h_detail h) \<and> bigint_ok (uint (h_count h)) \<and>
            bigint_ok (uint (h_first_sequence h)) \<and> bigint_ok (uint (h_last_sequence h)))
      then Inl Data_error
      else let row = \<lparr>hr_count = uint (h_count h), hr_first_sequence = uint (h_first_sequence h),
                      hr_last_sequence = uint (h_last_sequence h), hr_first_event_time = fst_t,
                      hr_last_event_time = last_t, hr_detail = h_detail h, hr_received_at = now\<rparr>;
               d' = d\<lparr>gateway_health := AList.update (health_key h) row (gateway_health d)\<rparr>
           in case map_of (gateway_health d) (health_key h) of
                None \<Rightarrow> Inr (Some d')
              | Some r \<Rightarrow> if health_newer (hr_last_event_time r) last_t then Inr (Some d') else Inr None)"

definition apply_health :: "timestamptz \<Rightarrow> health_event \<Rightarrow> db \<Rightarrow> (db_error + bool) \<times> db" where
  "apply_health now h d =
     (case ts (h_first_event_time_unix_millis h) of Inl e \<Rightarrow> (Inl e, d) | Inr fst_t \<Rightarrow>
      case ts (h_last_event_time_unix_millis h) of Inl e \<Rightarrow> (Inl e, d) | Inr last_t \<Rightarrow>
      case upsert_health now h fst_t last_t d of
        Inl e \<Rightarrow> (Inl e, d)
      | Inr None \<Rightarrow> (Inr False, d)
      | Inr (Some d') \<Rightarrow>
          (Inr True, notify HEALTH_CHANNEL (env_gateway_id (h_envelope h)) d'))"

section \<open>What one transaction does\<close>

definition storable :: "detection_transition \<Rightarrow> bool" where
  "storable t \<longleftrightarrow> text_ok (t_transition_id t) \<and> text_ok (t_incident_id t) \<and>
     bigint_ok (uint (t_revision t)) \<and> jsonb_ok (transition_payload t)"

definition recorded :: "db \<Rightarrow> string \<Rightarrow> bool" where
  "recorded d tid \<longleftrightarrow> map_of (incident_transitions d) tid \<noteq> None"

definition dated :: "detection_transition \<Rightarrow> bool" where
  "dated t \<longleftrightarrow>
     (\<exists>ep. ts (t_episode_start_unix_millis t) = Inr (Some ep)) \<and>
     (\<exists>ev. ts (t_evidence_event_time_unix_millis t) = Inr (Some ev)) \<and>
     (\<exists>ing. ts (t_evidence_ingest_time_unix_millis t) = Inr ing) \<and>
     (\<exists>det. ts (t_detected_at_unix_millis t) = Inr (Some det))"

definition mirrors :: "payload \<Rightarrow> incident_row \<Rightarrow> bool" where
  "mirrors p r \<longleftrightarrow> i_status r = p_status p \<and> i_active r = (p_status p \<noteq> ''RESOLVE'') \<and>
     i_severity r = p_severity p \<and> i_revision r = p_revision p \<and> i_last_transition r = p \<and>
     ts (p_episode_start_ms p) = Inr (Some (i_episode_start r)) \<and>
     ts (p_evidence_event_time_ms p) = Inr (Some (i_evidence_event_time r)) \<and>
     ts (p_evidence_ingest_time_ms p) = Inr (i_evidence_ingest_time r) \<and>
     ts (p_detected_at_ms p) = Inr (Some (i_detected_at r))"

definition transition_row_of :: "timestamptz \<Rightarrow> detection_transition \<Rightarrow> transition_row" where
  "transition_row_of now t =
     \<lparr>tr_incident_id = t_incident_id t, tr_revision = uint (t_revision t),
      tr_status = STATUS (t_status t), tr_payload = transition_payload t, tr_received_at = now\<rparr>"

definition feed_row_of :: "int \<Rightarrow> timestamptz \<Rightarrow> detection_transition \<Rightarrow> feed_row" where
  "feed_row_of c now t =
     \<lparr>f_cursor = c, f_incident_id = t_incident_id t, f_revision = uint (t_revision t),
      f_payload = transition_payload t, f_committed_at = now\<rparr>"

lemma transition_payload_simps [simp]:
  "p_transition_id (transition_payload t) = t_transition_id t"
  "p_incident_id (transition_payload t) = t_incident_id t"
  "p_revision (transition_payload t) = uint (t_revision t)"
  "p_status (transition_payload t) = STATUS (t_status t)"
  "p_severity (transition_payload t) = SEVERITY (t_severity t)"
  "p_episode_start_ms (transition_payload t) = t_episode_start_unix_millis t"
  "p_evidence_event_time_ms (transition_payload t) = t_evidence_event_time_unix_millis t"
  "p_evidence_ingest_time_ms (transition_payload t) = t_evidence_ingest_time_unix_millis t"
  "p_detected_at_ms (transition_payload t) = t_detected_at_unix_millis t"
  by (simp_all add: transition_payload_def)

text \<open>The committed effect of a new transition, as a relation between the tables.\<close>

definition committed ::
  "timestamptz \<Rightarrow> detection_transition \<Rightarrow> db \<Rightarrow> db \<Rightarrow> bool" where
  "committed now t d d' \<longleftrightarrow>
     incident_transitions d' =
       incident_transitions d @ [(t_transition_id t, transition_row_of now t)] \<and>
     feed_seq d' = feed_seq d + 1 \<and>
     incident_feed d' = incident_feed d @ [feed_row_of (feed_seq d + 1) now t] \<and>
     gateway_health d' = gateway_health d \<and>
     schema_migrations d' = schema_migrations d \<and> executed_ddl d' = executed_ddl d \<and>
     notified d' = notified d @ [(FEED_CHANNEL, int_str (feed_seq d + 1))] \<and>
     (\<exists>r'. mirrors (transition_payload t) r' \<and>
       (case map_of (incidents d) (t_incident_id t) of
          None \<Rightarrow> incidents d' = incidents d @ [(t_incident_id t, r')]
        | Some r \<Rightarrow> incidents d' = (if i_revision r < uint (t_revision t)
            then AList.update (t_incident_id t) r' (incidents d) else incidents d)))"

lemma committed_tables:
  assumes "committed now t d d'"
  shows "incident_transitions d' =
      incident_transitions d @ [(t_transition_id t, transition_row_of now t)]"
    and "feed_seq d' = feed_seq d + 1"
    and "incident_feed d' = incident_feed d @ [feed_row_of (feed_seq d + 1) now t]"
    and "gateway_health d' = gateway_health d"
    and "notified d' = notified d @ [(FEED_CHANNEL, int_str (feed_seq d + 1))]"
  using assms by (simp_all add: committed_def)

lemma ts_raises: "ts m = Inl e \<Longrightarrow> e = Timestamp_out_of_range"
  by (auto simp: ts_def fromtimestamp_def Let_def split: if_splits sum.splits)

lemma insert_transition_cases:
  assumes "insert_transition now t (STATUS (t_status t)) (transition_payload t) d = res"
  obtains (raised) "res = Inl Data_error" "\<not> storable t"
  | (present) "res = Inr None" "storable t" "recorded d (t_transition_id t)"
  | (inserted) "storable t" "\<not> recorded d (t_transition_id t)"
      "res = Inr (Some (d\<lparr>incident_transitions := incident_transitions d @
         [(t_transition_id t, transition_row_of now t)]\<rparr>))"
proof (cases "storable t")
  case True
  show ?thesis
    using assms True present inserted
    by (cases "map_of (incident_transitions d) (t_transition_id t)")
      (auto simp: insert_transition_def storable_def recorded_def transition_row_of_def)
next
  case False
  then show ?thesis
    using assms raised by (auto simp: insert_transition_def storable_def)
qed

lemma upsert_incident_raises:
  "upsert_incident now t st p ep ev ing det d = Inl e \<Longrightarrow>
     (ep = None \<or> ev = None \<or> det = None) \<and> (\<exists>c. e = Not_null_violation c)"
  by (auto simp: upsert_incident_def split: option.splits if_splits)

lemma upsert_incident_ok:
  assumes "upsert_incident now t (STATUS (t_status t)) (transition_payload t) ep ev ing det d = Inr d'"
    and "ts (t_episode_start_unix_millis t) = Inr ep"
    and "ts (t_evidence_event_time_unix_millis t) = Inr ev"
    and "ts (t_evidence_ingest_time_unix_millis t) = Inr ing"
    and "ts (t_detected_at_unix_millis t) = Inr det"
  shows "\<exists>r' al. d' = d\<lparr>incidents := al\<rparr> \<and> mirrors (transition_payload t) r' \<and>
    (case map_of (incidents d) (t_incident_id t) of
       None \<Rightarrow> al = incidents d @ [(t_incident_id t, r')]
     | Some r \<Rightarrow> al = (if i_revision r < uint (t_revision t)
         then AList.update (t_incident_id t) r' (incidents d) else incidents d))"
proof (cases "map_of (incidents d) (t_incident_id t)")
  case None
  with assms show ?thesis
    by (auto simp: upsert_incident_def mirrors_def split: option.splits)
next
  case (Some r)
  from assms obtain ep' ev' det' where times: "ep = Some ep'" "ev = Some ev'" "det = Some det'"
    by (auto simp: upsert_incident_def split: option.splits)
  let ?r = "r\<lparr>i_status := STATUS (t_status t), i_active := (STATUS (t_status t) \<noteq> ''RESOLVE''),
      i_severity := SEVERITY (t_severity t), i_revision := uint (t_revision t),
      i_episode_start := ep', i_evidence_event_time := ev', i_evidence_ingest_time := ing,
      i_detected_at := det', i_committed_at := now, i_last_transition := transition_payload t\<rparr>"
  have "mirrors (transition_payload t) ?r"
    using assms times by (simp add: mirrors_def)
  moreover have "d' = d\<lparr>incidents := if i_revision r < uint (t_revision t)
      then AList.update (t_incident_id t) ?r (incidents d) else incidents d\<rparr>"
    using assms(1) times Some by (auto simp: upsert_incident_def split: if_splits)
  ultimately show ?thesis
    using Some by auto
qed

lemma apply_transition_cases:
  assumes "apply_transition now t d = (r, d')"
  obtains (raised) e where "r = Inl e" "d' = d" "e \<noteq> Operational_error"
  | (duplicate) "r = Inr None" "d' = d" "storable t" "recorded d (t_transition_id t)"
  | (applied) "r = Inr (Some (feed_seq d + 1))" "storable t" "\<not> recorded d (t_transition_id t)"
      "committed now t d d'"
proof (rule insert_transition_cases [of now t d, OF refl])
  let ?ins = "insert_transition now t (STATUS (t_status t)) (transition_payload t) d"
  let ?d1 = "d\<lparr>incident_transitions := incident_transitions d @
         [(t_transition_id t, transition_row_of now t)]\<rparr>"
  assume ins: "storable t" "\<not> recorded d (t_transition_id t)" "?ins = Inr (Some ?d1)"
  show thesis
  proof (cases r)
    case (Inl e)
    with assms ins show thesis
      by (auto simp: apply_transition_def Let_def split: sum.splits prod.splits
          dest!: ts_raises upsert_incident_raises intro!: raised)
  next
    case (Inr c)
    with assms ins obtain ep ev ing det d2 where
      times: "ts (t_episode_start_unix_millis t) = Inr ep"
        "ts (t_evidence_event_time_unix_millis t) = Inr ev"
        "ts (t_evidence_ingest_time_unix_millis t) = Inr ing"
        "ts (t_detected_at_unix_millis t) = Inr det"
      and up: "upsert_incident now t (STATUS (t_status t)) (transition_payload t) ep ev ing det ?d1 = Inr d2"
      and d': "(c, d') = (let (cursor, d3) = insert_feed now t (transition_payload t) d2
         in (Some cursor, notify FEED_CHANNEL (int_str cursor) d3))"
      by (auto simp: apply_transition_def Let_def split: sum.splits prod.splits)
    from upsert_incident_ok [OF up times] d' Inr ins show thesis
      by (auto simp: insert_feed_def notify_def committed_def feed_row_of_def Let_def
          split: option.splits intro!: applied)
  qed
next
  assume "insert_transition now t (STATUS (t_status t)) (transition_payload t) d = Inl Data_error"
  with assms show thesis by (auto simp: apply_transition_def Let_def intro!: raised)
next
  assume "insert_transition now t (STATUS (t_status t)) (transition_payload t) d = Inr None"
    "storable t" "recorded d (t_transition_id t)"
  with assms show thesis by (auto simp: apply_transition_def Let_def intro!: duplicate)
qed
lemma apply_transition_raises_iff:
  "(\<exists>e. fst (apply_transition now t d) = Inl e) \<longleftrightarrow>
     \<not> storable t \<or> \<not> recorded d (t_transition_id t) \<and> \<not> dated t"
proof (rule insert_transition_cases [of now t d, OF refl])
  assume ins: "storable t" "\<not> recorded d (t_transition_id t)"
    "insert_transition now t (STATUS (t_status t)) (transition_payload t) d =
       Inr (Some (d\<lparr>incident_transitions := incident_transitions d @
         [(t_transition_id t, transition_row_of now t)]\<rparr>))"
  then show ?thesis
    by (auto simp: apply_transition_def Let_def dated_def upsert_incident_def
        split: sum.splits option.splits prod.splits if_splits)
qed (auto simp: apply_transition_def Let_def)

section \<open>Invariant of the tables\<close>

definition feed_inv :: "db \<Rightarrow> bool" where
  "feed_inv d \<longleftrightarrow> sorted_wrt (<) (map f_cursor (incident_feed d)) \<and> 0 \<le> feed_seq d \<and>
     (\<forall>r \<in> set (incident_feed d). 0 < f_cursor r \<and> f_cursor r \<le> feed_seq d)"

definition transitions_inv :: "db \<Rightarrow> bool" where
  "transitions_inv d \<longleftrightarrow> distinct (map fst (incident_transitions d)) \<and>
     (\<forall>(tid, tr) \<in> set (incident_transitions d).
        p_transition_id (tr_payload tr) = tid \<and> p_incident_id (tr_payload tr) = tr_incident_id tr \<and>
        p_revision (tr_payload tr) = tr_revision tr \<and> p_status (tr_payload tr) = tr_status tr)"

definition fed_inv :: "db \<Rightarrow> bool" where
  "fed_inv d \<longleftrightarrow> distinct (map (\<lambda>r. p_transition_id (f_payload r)) (incident_feed d)) \<and>
     (\<forall>r \<in> set (incident_feed d). \<exists>tr.
        map_of (incident_transitions d) (p_transition_id (f_payload r)) = Some tr \<and>
        tr_payload tr = f_payload r \<and> f_incident_id r = tr_incident_id tr \<and>
        f_revision r = tr_revision tr)"

definition of_incident :: "db \<Rightarrow> string \<Rightarrow> transition_row set" where
  "of_incident d iid = {tr \<in> snd ` set (incident_transitions d). tr_incident_id tr = iid}"

definition latest :: "db \<Rightarrow> string \<Rightarrow> incident_row \<Rightarrow> bool" where
  "latest d iid r \<longleftrightarrow> mirrors (i_last_transition r) r \<and>
     (\<exists>tr \<in> of_incident d iid. tr_payload tr = i_last_transition r) \<and>
     (\<forall>tr \<in> of_incident d iid. tr_revision tr \<le> i_revision r)"

definition incidents_inv :: "db \<Rightarrow> bool" where
  "incidents_inv d \<longleftrightarrow> distinct (map fst (incidents d)) \<and>
     (\<forall>iid. map_of (incidents d) iid = None \<longrightarrow> of_incident d iid = {}) \<and>
     (\<forall>iid r. map_of (incidents d) iid = Some r \<longrightarrow> latest d iid r)"

text \<open>One feed notification per recorded transition.\<close>

definition notes_inv :: "db \<Rightarrow> bool" where
  "notes_inv d \<longleftrightarrow>
     length (filter (\<lambda>n. fst n = FEED_CHANNEL) (notified d)) = length (incident_transitions d)"

definition db_inv :: "db \<Rightarrow> bool" where
  "db_inv d \<longleftrightarrow> transitions_inv d \<and> incidents_inv d \<and> feed_inv d \<and> fed_inv d \<and> notes_inv d \<and>
     distinct (map fst (gateway_health d))"

lemma db_inv_empty [inv_intros]: "db_inv empty_db"
  by (simp add: db_inv_def transitions_inv_def incidents_inv_def feed_inv_def fed_inv_def
      notes_inv_def of_incident_def empty_db_def)

lemma of_incident_committed:
  "committed now t d d' \<Longrightarrow> of_incident d' iid =
     (if iid = t_incident_id t then insert (transition_row_of now t) (of_incident d iid)
      else of_incident d iid)"
  by (auto simp: committed_def of_incident_def transition_row_of_def)

lemma latest_mono_other:
  "committed now t d d' \<Longrightarrow> iid \<noteq> t_incident_id t \<Longrightarrow> latest d iid r \<Longrightarrow> latest d' iid r"
  by (simp add: latest_def of_incident_committed)

lemma committed_incidents:
  assumes "committed now t d d'" and "incidents_inv d"
  shows "incidents_inv d'"
proof -
  let ?i = "t_incident_id t"
  from assms(1) obtain r' where r': "mirrors (transition_payload t) r'"
    and upd: "case map_of (incidents d) ?i of
       None \<Rightarrow> incidents d' = incidents d @ [(?i, r')]
     | Some r \<Rightarrow> incidents d' = (if i_revision r < uint (t_revision t)
         then AList.update ?i r' (incidents d) else incidents d)"
    unfolding committed_def by blast
  have new: "latest d' ?i r'" if "\<forall>tr \<in> of_incident d ?i. tr_revision tr \<le> uint (t_revision t)"
    using r' that of_incident_committed [OF assms(1), of ?i]
    by (auto simp: latest_def mirrors_def transition_row_of_def)
  have old: "latest d' ?i r"
    if "latest d ?i r" "\<not> i_revision r < uint (t_revision t)" for r
    using that of_incident_committed [OF assms(1), of ?i]
    by (auto simp: latest_def transition_row_of_def)
  show ?thesis
  proof (cases "map_of (incidents d) ?i")
    case None
    with upd have eq: "incidents d' = AList.update ?i r' (incidents d)"
      by (simp add: alist_update_new)
    from None assms(2) have "of_incident d ?i = {}" by (simp add: incidents_inv_def)
    with new have "latest d' ?i r'" by simp
    with eq assms show ?thesis
      by (auto simp: incidents_inv_def map_of_update_if of_incident_committed distinct_update
          intro: latest_mono_other)
  next
    case (Some r)
    with assms(2) have lat: "latest d ?i r" by (simp add: incidents_inv_def)
    show ?thesis
    proof (cases "i_revision r < uint (t_revision t)")
      case True
      with lat have "latest d' ?i r'" by (intro new) (auto simp: latest_def)
      with True Some upd assms show ?thesis
        by (auto simp: incidents_inv_def map_of_update_if of_incident_committed distinct_update
            intro: latest_mono_other)
    next
      case False
      with Some upd have eq: "incidents d' = incidents d" by simp
      have "latest d' iid s" if "map_of (incidents d) iid = Some s" for iid s
        using that old [OF lat False] Some assms latest_mono_other [OF assms(1)]
        by (cases "iid = ?i") (auto simp: incidents_inv_def)
      with eq Some assms show ?thesis
        by (auto simp: incidents_inv_def of_incident_committed)
    qed
  qed
qed

lemma committed_inv:
  assumes "committed now t d d'" and "db_inv d" and "\<not> recorded d (t_transition_id t)"
  shows "db_inv d'"
proof -
  have "transitions_inv d'"
    using assms(2,3) committed_tables [OF assms(1)]
    by (auto simp: db_inv_def transitions_inv_def recorded_def transition_row_of_def
        map_of_eq_None_iff)
  moreover have "incidents_inv d'"
    using assms committed_incidents by (simp add: db_inv_def)
  moreover have "feed_inv d'"
    using assms(2) committed_tables [OF assms(1)]
    by (auto simp: db_inv_def feed_inv_def feed_row_of_def sorted_wrt_append)
  moreover have "fed_inv d'"
  proof -
    have eq: "map_of (incident_transitions d') tid =
        (if tid = t_transition_id t then Some (transition_row_of now t)
         else map_of (incident_transitions d) tid)" for tid
      using assms committed_tables(1) [OF assms(1)]
      by (simp del: map_of_append add: map_of_snoc_new recorded_def split: option.splits)
    have fed: "fed_inv d" using assms(2) by (simp add: db_inv_def)
    have new: "\<forall>r \<in> set (incident_feed d). p_transition_id (f_payload r) \<noteq> t_transition_id t"
      using fed assms(3) by (auto simp: fed_inv_def recorded_def)
    have "distinct (map (\<lambda>r. p_transition_id (f_payload r)) (incident_feed d'))"
      using fed new committed_tables(3) [OF assms(1)] by (auto simp: fed_inv_def feed_row_of_def)
    moreover have "\<exists>tr. map_of (incident_transitions d') (p_transition_id (f_payload r)) = Some tr \<and>
        tr_payload tr = f_payload r \<and> f_incident_id r = tr_incident_id tr \<and>
        f_revision r = tr_revision tr" if "r \<in> set (incident_feed d')" for r
      using that fed new committed_tables(3) [OF assms(1)]
      by (cases "r = feed_row_of (feed_seq d + 1) now t")
        (auto simp: eq fed_inv_def feed_row_of_def transition_row_of_def)
    ultimately show ?thesis by (simp add: fed_inv_def)
  qed
  moreover have "notes_inv d'"
    using assms(2) committed_tables [OF assms(1)] by (simp add: db_inv_def notes_inv_def)
  ultimately show ?thesis
    using assms by (simp add: db_inv_def committed_def)
qed

lemma apply_transition_inv [inv_intros]:
  "db_inv d \<Longrightarrow> db_inv (snd (apply_transition now t d))"
  by (cases "apply_transition now t d")
    (auto elim!: apply_transition_cases intro: committed_inv)

lemma tables_inv_update [simp]:
  "transitions_inv (d\<lparr>incident_feed := f\<rparr>) = transitions_inv d"
  "transitions_inv (d\<lparr>feed_seq := n\<rparr>) = transitions_inv d"
  "transitions_inv (d\<lparr>gateway_health := g\<rparr>) = transitions_inv d"
  "transitions_inv (d\<lparr>notified := c\<rparr>) = transitions_inv d"
  "transitions_inv (d\<lparr>schema_migrations := v\<rparr>) = transitions_inv d"
  "transitions_inv (d\<lparr>executed_ddl := v\<rparr>) = transitions_inv d"
  "incidents_inv (d\<lparr>incident_feed := f\<rparr>) = incidents_inv d"
  "incidents_inv (d\<lparr>feed_seq := n\<rparr>) = incidents_inv d"
  "incidents_inv (d\<lparr>gateway_health := g\<rparr>) = incidents_inv d"
  "incidents_inv (d\<lparr>notified := c\<rparr>) = incidents_inv d"
  "incidents_inv (d\<lparr>schema_migrations := v\<rparr>) = incidents_inv d"
  "incidents_inv (d\<lparr>executed_ddl := v\<rparr>) = incidents_inv d"
  by (simp_all add: transitions_inv_def incidents_inv_def latest_def of_incident_def)

lemma prune_feed_inv [inv_intros]: "db_inv d \<Longrightarrow> db_inv (snd (prune_feed now older d))"
  by (auto simp: prune_feed_def Let_def db_inv_def feed_inv_def fed_inv_def
      notes_inv_def sorted_wrt_map distinct_map intro: sorted_wrt_filter_wrt inj_on_subset)

lemma upsert_health_cases:
  assumes "upsert_health now h a b d = Inr (Some d')"
  shows "\<exists>row. d' = d\<lparr>gateway_health := AList.update (health_key h) row (gateway_health d)\<rparr>"
  using assms by (auto simp: upsert_health_def Let_def split: if_splits option.splits)

lemma health_update_inv:
  "db_inv d \<Longrightarrow> db_inv (d\<lparr>gateway_health := AList.update k row (gateway_health d),
     notified := notified d @ [(HEALTH_CHANNEL, g)]\<rparr>)"
  by (simp add: db_inv_def feed_inv_def fed_inv_def notes_inv_def distinct_update
      FEED_CHANNEL_def HEALTH_CHANNEL_def)

lemma apply_health_inv [inv_intros]: "db_inv d \<Longrightarrow> db_inv (snd (apply_health now h d))"
  by (auto simp: apply_health_def notify_def dest!: upsert_health_cases
      intro: health_update_inv split: sum.splits option.splits)

section \<open>Health rows\<close>

text \<open>
  The stored row of the event's gateway, component and kind is at least as recent as the event:
  absent times are older than any time.
\<close>

fun no_later :: "timestamptz option \<Rightarrow> timestamptz option \<Rightarrow> bool" where
  "no_later None new = True"
| "no_later (Some a) None = False"
| "no_later (Some a) (Some b) = (a \<le> b)"

definition health_current :: "health_event \<Rightarrow> db \<Rightarrow> bool" where
  "health_current h d \<longleftrightarrow> (\<exists>r lt. map_of (gateway_health d) (health_key h) = Some r \<and>
     ts (h_last_event_time_unix_millis h) = Inr lt \<and> no_later lt (hr_last_event_time r))"

lemma no_later_refl [simp]: "no_later x x"
  by (cases x) auto

lemma not_health_newer: "\<not> health_newer old new \<Longrightarrow> no_later new old"
  by (cases "(old, new)" rule: health_newer.cases) auto

lemma apply_health_current:
  "apply_health now h d = (Inr v, d') \<Longrightarrow> health_current h d'"
  by (auto simp: apply_health_def upsert_health_def health_current_def notify_def Let_def
      map_of_update_if dest: not_health_newer split: sum.splits option.splits if_splits)

lemma apply_health_stable: "health_current h d \<Longrightarrow> health_current h (snd (apply_health now h d))"
proof (cases "apply_health now h d")
  case (Pair r d')
  assume "health_current h d"
  moreover have "d' = d" if "r = Inl e" for e
    using Pair that by (auto simp: apply_health_def split: sum.splits option.splits)
  ultimately show ?thesis
    using Pair apply_health_current by (cases r) auto
qed

primrec apply_health_all :: "(timestamptz \<times> health_event) list \<Rightarrow> db \<Rightarrow> db" where
  "apply_health_all [] d = d"
| "apply_health_all (x # xs) d = apply_health_all xs (snd (apply_health (fst x) (snd x) d))"

lemma apply_health_all_append:
  "apply_health_all (xs @ ys) d = apply_health_all ys (apply_health_all xs d)"
  by (induction xs arbitrary: d) auto

lemma no_later_trans: "no_later a b \<Longrightarrow> no_later b c \<Longrightarrow> no_later a c"
  by (cases a; cases b; cases c) auto

lemma health_newer_no_later: "health_newer a b \<Longrightarrow> no_later a b"
  by (cases a; cases b) auto

lemma apply_health_row:
  assumes "map_of (gateway_health d) k = Some r"
  shows "\<exists>r'. map_of (gateway_health (snd (apply_health now h d))) k = Some r' \<and>
    no_later (hr_last_event_time r) (hr_last_event_time r')"
  using assms
  by (auto simp: apply_health_def upsert_health_def notify_def Let_def map_of_update_if
      intro: health_newer_no_later split: sum.splits option.splits if_splits)

lemma health_current_mono:
  "health_current h d \<Longrightarrow> health_current h (snd (apply_health now h' d))"
  unfolding health_current_def using apply_health_row no_later_trans by blast

lemma health_current_all: "health_current h d \<Longrightarrow> health_current h (apply_health_all xs d)"
  by (induction xs arbitrary: d) (auto intro: health_current_mono)

section \<open>Migrations\<close>

lemma migrate_files_inv:
  "migrate_files err done fs applied d = Inr (applied', d') \<Longrightarrow> db_inv d \<Longrightarrow> db_inv d'"
proof (induction err "done" fs applied d rule: migrate_files.induct)
  case (2 err don name script fs applied d)
  then show ?case
    by (auto simp: db_inv_def feed_inv_def fed_inv_def notes_inv_def split: if_splits option.splits)
qed simp

lemma migrate_inv [inv_intros]: "db_inv d \<Longrightarrow> db_inv (snd (migrate err files d))"
  by (auto simp: migrate_def split: sum.splits intro: migrate_files_inv)

lemma migrate_files_done:
  "fst ` set fs \<subseteq> done \<Longrightarrow> migrate_files err done fs applied d = Inr (applied, d)"
  by (induction err "done" fs applied d rule: migrate_files.induct) auto

text \<open>The pending files of a sorted listing, and what a run that raises nothing does with them.\<close>

lemma migrate_files_ok:
  assumes "migrate_files err done fs applied d = Inr (applied', d')"
  shows "applied' = applied @ map fst (filter (\<lambda>f. fst f \<notin> done) fs) \<and>
    schema_migrations d' = schema_migrations d @ map fst (filter (\<lambda>f. fst f \<notin> done) fs) \<and>
    executed_ddl d' = executed_ddl d @ map snd (filter (\<lambda>f. fst f \<notin> done) fs)"
  using assms
  by (induction err "done" fs applied d rule: migrate_files.induct)
    (auto split: if_splits option.splits)

end
