(* ===== verification/Incident_Projector.thy ===== *)
theory Incident_Projector
  imports Incident_Db
begin

text \<open>
  The incident projector process (\<open>src/images/incident-projector/app/projector.py\<close>): decoding,
  database retries, the offset commit after the database commit, pruning and the main loop.

  The protobuf decoders generated from the schema are parameters (\<open>decoders\<close>). The database
  server's reachability is an environment: the outcome of the \<open>n\<close>-th attempt to run an operation,
  which may lose the connection at any point, also between the server's commit and its
  acknowledgement. \<open>pj_db\<close> is the server's state, shared with every other client;
  \<open>pj_attempt\<close> and \<open>pj_sleeps\<close> record the attempts and the \<open>time.sleep\<close> calls made so far.
\<close>

section \<open>State\<close>

record message =
  m_value :: "string option"
  m_error :: "string option"
  m_topic :: string
  m_partition :: int
  m_offset :: int

record stats =
  st_applied :: nat
  st_duplicates :: nat
  st_malformed :: nat
  st_db_retries :: nat
  st_health :: nat

datatype conn = No_conn | Open_conn | Closed_conn

record projector =
  pj_conn :: conn
  pj_prune_every_s :: rat
  pj_last_prune :: rat
  pj_heartbeat :: bool
  pj_stats :: stats
  pj_commits :: "message list"  \<comment> \<open>offset commits the broker acknowledged\<close>
  pj_beats :: "stats list"  \<comment> \<open>contents written to the heartbeat file\<close>
  pj_consumer_closed :: bool
  pj_db :: db
  pj_attempt :: nat
  pj_sleeps :: "rat list"

record decoders =
  dec_transition :: "string \<Rightarrow> detection_transition option"
  dec_health :: "string \<Rightarrow> health_event option"

datatype attempt = Db_up | Db_down | Lost_in_transaction bool | Lost_on_commit

record environment =
  health_topic_var :: "string option"  \<comment> \<open>the variable HEALTH_TOPIC, if set\<close>
  attempt_at :: "nat \<Rightarrow> attempt"
  now_at :: "nat \<Rightarrow> timestamptz"

datatype proj_error = Database db_error | Commit_failed

type_synonym 'a operation = "timestamptz \<Rightarrow> db \<Rightarrow> (db_error + 'a) \<times> db"
type_synonym 'a outcome = "((proj_error + 'a) \<times> projector) option"

definition HEALTH_TOPIC :: "environment \<Rightarrow> string" where
  "HEALTH_TOPIC env = (case health_topic_var env of None \<Rightarrow> ''traffic.health.v2'' | Some v \<Rightarrow> v)"

definition zero_stats :: stats where
  "zero_stats = \<lparr>st_applied = 0, st_duplicates = 0, st_malformed = 0, st_db_retries = 0,
                 st_health = 0\<rparr>"

definition new_projector :: "rat \<Rightarrow> rat \<Rightarrow> bool \<Rightarrow> db \<Rightarrow> nat \<Rightarrow> projector" where
  "new_projector prune_every_s clock heartbeat d n =
     \<lparr>pj_conn = No_conn, pj_prune_every_s = prune_every_s, pj_last_prune = clock,
      pj_heartbeat = heartbeat, pj_stats = zero_stats, pj_commits = [], pj_beats = [],
      pj_consumer_closed = False, pj_db = d, pj_attempt = n, pj_sleeps = []\<rparr>"

section \<open>Database access\<close>

text \<open>A sequence value taken by a transaction that was rolled back is not given back.\<close>

definition burn_cursor :: "db \<Rightarrow> db" where
  "burn_cursor d = d\<lparr>feed_seq := feed_seq d + 1\<rparr>"

text \<open>
  \<open>operation(self._db())\<close>: connect when there is no usable connection, then run the operation's
  transaction.
\<close>

definition db_attempt ::
  "environment \<Rightarrow> 'a operation \<Rightarrow> projector \<Rightarrow> (db_error + 'a) \<times> projector" where
  "db_attempt env operation s =
     (let n = pj_attempt s; s1 = s\<lparr>pj_attempt := Suc n\<rparr> in
      case attempt_at env n of
        Db_up \<Rightarrow>
          (let (r, d') = operation (now_at env n) (pj_db s)
           in (r, s1\<lparr>pj_conn := Open_conn, pj_db := d'\<rparr>))
      | Db_down \<Rightarrow>
          (Inl Operational_error,
           s1\<lparr>pj_conn := if pj_conn s = Open_conn then Closed_conn else No_conn\<rparr>)
      | Lost_in_transaction burnt \<Rightarrow>
          (Inl Operational_error,
           s1\<lparr>pj_conn := Closed_conn,
              pj_db := if burnt then burn_cursor (pj_db s) else pj_db s\<rparr>)
      | Lost_on_commit \<Rightarrow>
          (case operation (now_at env n) (pj_db s) of
             (Inl e, d') \<Rightarrow> (Inl e, s1\<lparr>pj_conn := Open_conn, pj_db := d'\<rparr>)
           | (Inr _, d') \<Rightarrow> (Inl Operational_error, s1\<lparr>pj_conn := Closed_conn, pj_db := d'\<rparr>)))"

definition bump_retries :: "projector \<Rightarrow> projector" where
  "bump_retries s = s\<lparr>pj_stats := (pj_stats s)\<lparr>st_db_retries := Suc (st_db_retries (pj_stats s))\<rparr>\<rparr>"

text \<open>The handler of \<open>OperationalError\<close>: count, drop the connection, sleep.\<close>

definition after_failure :: "rat \<Rightarrow> projector \<Rightarrow> projector" where
  "after_failure delay s =
     (bump_retries s)\<lparr>pj_conn := No_conn, pj_sleeps := pj_sleeps s @ [delay]\<rparr>"

partial_function (option) with_retry ::
  "environment \<Rightarrow> 'a operation \<Rightarrow> rat \<Rightarrow> projector \<Rightarrow> ((db_error + 'a) \<times> projector) option" where
  "with_retry env operation delay s =
     (case db_attempt env operation s of
        (Inr v, s') \<Rightarrow> Some (Inr v, s')
      | (Inl e, s') \<Rightarrow>
          if e = Operational_error
          then with_retry env operation (min (delay * 2) 10) (after_failure delay s')
          else Some (Inl e, s'))"

section \<open>Messages\<close>

definition payload_bytes :: "message \<Rightarrow> string" where
  "payload_bytes msg = (case m_value msg of None \<Rightarrow> '''' | Some b \<Rightarrow> b)"

definition bump_malformed :: "projector \<Rightarrow> projector" where
  "bump_malformed s = s\<lparr>pj_stats := (pj_stats s)\<lparr>st_malformed := Suc (st_malformed (pj_stats s))\<rparr>\<rparr>"

definition handle_health :: "decoders \<Rightarrow> environment \<Rightarrow> message \<Rightarrow> projector \<Rightarrow> unit outcome" where
  "handle_health dec env msg s =
     (let event = dec_health dec (payload_bytes msg) in
      case event of
        None \<Rightarrow> Some (Inr (), bump_malformed s)
      | Some h \<Rightarrow>
          if env_gateway_id (h_envelope h) = '''' then Some (Inr (), bump_malformed s)
          else case with_retry env (\<lambda>now. apply_health now h) (1 / 2) s of
                 None \<Rightarrow> None
               | Some (Inl e, s') \<Rightarrow> Some (Inl (Database e), s')
               | Some (Inr _, s') \<Rightarrow>
                   Some (Inr (), s'\<lparr>pj_stats :=
                     (pj_stats s')\<lparr>st_health := Suc (st_health (pj_stats s'))\<rparr>\<rparr>))"

definition count_cursor :: "int option \<Rightarrow> projector \<Rightarrow> projector" where
  "count_cursor cursor s = s\<lparr>pj_stats :=
     (if cursor \<noteq> None then (pj_stats s)\<lparr>st_applied := Suc (st_applied (pj_stats s))\<rparr>
      else (pj_stats s)\<lparr>st_duplicates := Suc (st_duplicates (pj_stats s))\<rparr>)\<rparr>"

definition apply_msg :: "decoders \<Rightarrow> environment \<Rightarrow> message \<Rightarrow> projector \<Rightarrow> int option outcome" where
  "apply_msg dec env msg s =
     (if m_topic msg = HEALTH_TOPIC env
      then case handle_health dec env msg s of
             None \<Rightarrow> None
           | Some (Inl e, s') \<Rightarrow> Some (Inl e, s')
           | Some (Inr _, s') \<Rightarrow> Some (Inr None, s')
      else case dec_transition dec (payload_bytes msg) of
             None \<Rightarrow> Some (Inr None, bump_malformed s)
           | Some t \<Rightarrow>
               if t_transition_id t = '''' \<or> t_incident_id t = ''''
               then Some (Inr None, bump_malformed s)
               else case with_retry env (\<lambda>now. apply_transition now t) (1 / 2) s of
                      None \<Rightarrow> None
                    | Some (Inl e, s') \<Rightarrow> Some (Inl (Database e), s')
                    | Some (Inr cursor, s') \<Rightarrow> Some (Inr cursor, count_cursor cursor s'))"

text \<open>The synchronous offset commit either succeeds or raises.\<close>

definition handle ::
  "decoders \<Rightarrow> environment \<Rightarrow> bool \<Rightarrow> message \<Rightarrow> projector \<Rightarrow> int option outcome" where
  "handle dec env commit_ok msg s =
     (case apply_msg dec env msg s of
        None \<Rightarrow> None
      | Some (Inl e, s') \<Rightarrow> Some (Inl e, s')
      | Some (Inr cursor, s') \<Rightarrow>
          if commit_ok then Some (Inr cursor, s'\<lparr>pj_commits := pj_commits s' @ [msg]\<rparr>)
          else Some (Inl Commit_failed, s'))"

section \<open>Main loop\<close>

text \<open>\<open>clock1\<close> and \<open>clock2\<close> are the two readings of the monotonic clock.\<close>

definition tick :: "environment \<Rightarrow> rat \<Rightarrow> rat \<Rightarrow> projector \<Rightarrow> (proj_error + unit) \<times> projector" where
  "tick env clock1 clock2 s =
     (let beat = (\<lambda>s. if pj_heartbeat s then s\<lparr>pj_beats := pj_beats s @ [pj_stats s]\<rparr> else s) in
      if pj_prune_every_s s \<le> fl (clock1 - pj_last_prune s)
      then case db_attempt env (\<lambda>now. prune_feed now FEED_RETENTION) s of
             (Inl e, s') \<Rightarrow> (Inl (Database e), s')
           | (Inr removed, s') \<Rightarrow> (Inr (), beat (s'\<lparr>pj_last_prune := clock2\<rparr>))
      else (Inr (), beat s))"

text \<open>One iteration's inputs: what \<open>poll\<close> returned, the commit's outcome, the clock readings.\<close>

record iteration =
  it_poll :: "message option"
  it_commit_ok :: bool
  it_clock1 :: rat
  it_clock2 :: rat

definition poll_once ::
  "decoders \<Rightarrow> environment \<Rightarrow> iteration \<Rightarrow> projector \<Rightarrow> unit outcome" where
  "poll_once dec env it s =
     (case it_poll it of
        None \<Rightarrow> Some (Inr (), s)
      | Some msg \<Rightarrow>
          if m_error msg \<noteq> None then Some (Inr (), s)
          else case handle dec env (it_commit_ok it) msg s of
                 None \<Rightarrow> None
               | Some (Inl e, s') \<Rightarrow> Some (Inl e, s')
               | Some (Inr _, s') \<Rightarrow> Some (Inr (), s'))"

fun run_loop ::
  "decoders \<Rightarrow> environment \<Rightarrow> iteration list \<Rightarrow> projector \<Rightarrow> unit outcome" where
  "run_loop dec env [] s = Some (Inr (), s\<lparr>pj_consumer_closed := True\<rparr>)"
| "run_loop dec env (it # its) s =
     (case poll_once dec env it s of
        None \<Rightarrow> None
      | Some (Inl e, s') \<Rightarrow> Some (Inl e, s')
      | Some (Inr _, s') \<Rightarrow>
          (case tick env (it_clock1 it) (it_clock2 it) s' of
             (Inl e, s'') \<Rightarrow> Some (Inl e, s'')
           | (Inr _, s'') \<Rightarrow> run_loop dec env its s''))"

text \<open>\<open>run\<close>: migrate, then iterate until the stop event is set (the end of the list).\<close>

definition run ::
  "decoders \<Rightarrow> environment \<Rightarrow> (string \<Rightarrow> db_error option) \<Rightarrow> (string \<times> string) list \<Rightarrow>
   iteration list \<Rightarrow> projector \<Rightarrow> unit outcome" where
  "run dec env ddl_error files its s =
     (case db_attempt env (\<lambda>now. migrate ddl_error files) s of
        (Inl e, s') \<Rightarrow> Some (Inl (Database e), s')
      | (Inr _, s') \<Rightarrow> run_loop dec env its s')"

section \<open>The retry loop\<close>

lemma after_failure_simps [simp]:
  "pj_db (after_failure delay s) = pj_db s"
  "pj_attempt (after_failure delay s) = pj_attempt s"
  "pj_sleeps (after_failure delay s) = pj_sleeps s @ [delay]"
  "pj_commits (after_failure delay s) = pj_commits s"
  "st_db_retries (pj_stats (after_failure delay s)) = Suc (st_db_retries (pj_stats s))"
  by (simp_all add: after_failure_def bump_retries_def)

lemma db_attempt_frame:
  assumes "db_attempt env operation s = (r, s')"
  shows "pj_attempt s' = Suc (pj_attempt s)" and "pj_sleeps s' = pj_sleeps s"
    and "pj_stats s' = pj_stats s" and "pj_commits s' = pj_commits s"
  using assms
  by (auto simp: db_attempt_def Let_def split: attempt.splits prod.splits sum.splits)

lemma with_retry_loop:
  assumes step: "\<And>delay s s'. P delay s \<Longrightarrow>
      db_attempt env operation s = (Inl Operational_error, s') \<Longrightarrow>
      P (min (delay * 2) 10) (after_failure delay s')"
    and result: "with_retry env operation delay s = Some (r, s')"
    and init: "P delay s"
  shows "\<exists>delay' s0. P delay' s0 \<and> db_attempt env operation s0 = (r, s') \<and> r \<noteq> Inl Operational_error"
proof -
  have "\<exists>delay' s0. P delay' s0 \<and> db_attempt env operation s0 = (fst res, snd res) \<and>
      fst res \<noteq> Inl Operational_error"
    if "with_retry env operation delay s = Some res" "P delay s" for delay s res
  proof (rule with_retry.raw_induct [where P = "\<lambda>env' op' delay s res. env' = env \<longrightarrow> op' = operation \<longrightarrow>
      P delay s \<longrightarrow> (\<exists>delay' s0. P delay' s0 \<and> db_attempt env operation s0 = (fst res, snd res) \<and>
      fst res \<noteq> Inl Operational_error)", OF _ that(1), rule_format, OF _ refl refl that(2)])
    fix f env' and op' :: "'a operation" and delay s res
    assume IH: "\<And>env' op' delay s res. f env' op' delay s = Some res \<Longrightarrow>
        env' = env \<Longrightarrow> op' = operation \<Longrightarrow> P delay s \<Longrightarrow>
        \<exists>delay' s0. P delay' s0 \<and> db_attempt env operation s0 = (fst res, snd res) \<and>
          fst res \<noteq> Inl Operational_error"
      and eq: "(case db_attempt env' op' s of
          (Inl e, s') \<Rightarrow> if e = Operational_error
            then f env' op' (min (delay * 2) 10) (after_failure delay s') else Some (Inl e, s')
        | (Inr v, s') \<Rightarrow> Some (Inr v, s')) = Some res"
      and same: "env' = env" "op' = operation" and "P delay s"
    obtain r0 s1 where att: "db_attempt env operation s = (r0, s1)" by fastforce
    show "\<exists>delay' s0. P delay' s0 \<and> db_attempt env operation s0 = (fst res, snd res) \<and>
          fst res \<noteq> Inl Operational_error"
    proof (cases "r0 = Inl Operational_error")
      case True
      with eq same att have "f env operation (min (delay * 2) 10) (after_failure delay s1) = Some res"
        by simp
      from IH [OF this refl refl step [OF \<open>P delay s\<close> att [unfolded True]]] show ?thesis .
    next
      case False
      with eq same att have "res = (r0, s1)"
        by (auto split: sum.splits if_splits)
      with False att \<open>P delay s\<close> show ?thesis by auto
    qed
  qed
  with result init show ?thesis by force
qed

lemma with_retry_returns:
  assumes "attempt_at env (pj_attempt s + k) = Db_up"
    and "\<And>now d. fst (operation now d) \<noteq> Inl Operational_error"
  shows "\<exists>r s'. with_retry env operation delay s = Some (r, s') \<and>
    pj_attempt s' \<le> Suc (pj_attempt s + k)"
  using assms(1)
proof (induction k arbitrary: s delay)
  case 0
  with assms(2) [of "now_at env (pj_attempt s)" "pj_db s"] show ?case
    by (auto simp: with_retry.simps [of env operation delay s] db_attempt_def Let_def
        split: prod.splits sum.splits)
next
  case (Suc k)
  obtain r0 s1 where att: "db_attempt env operation s = (r0, s1)" by fastforce
  show ?case
  proof (cases "r0 = Inl Operational_error")
    case True
    have "pj_attempt (after_failure delay s1) + k = pj_attempt s + Suc k"
      using db_attempt_frame(1) [OF att] by simp
    with Suc.prems Suc.IH [of "after_failure delay s1" "min (delay * 2) 10"] att True show ?thesis
      by (simp add: with_retry.simps [of env operation delay s])
  next
    case False
    with att db_attempt_frame(1) [OF att] show ?thesis
      by (auto simp: with_retry.simps [of env operation delay s] split: sum.splits)
  qed
qed

text \<open>Delays double from half a second and never exceed ten seconds.\<close>

definition backoff :: "nat \<Rightarrow> rat" where
  "backoff k = min (2 ^ k / 2) 10"

lemma backoff_Suc: "min (backoff k * 2) 10 = backoff (Suc k)"
  by (auto simp: backoff_def min_def)

lemma with_retry_backoff:
  assumes "with_retry env operation (1 / 2) s = Some (r, s')"
  shows "\<exists>k. pj_sleeps s' = pj_sleeps s @ map backoff [0..<k] \<and>
    st_db_retries (pj_stats s') = st_db_retries (pj_stats s) + k \<and>
    pj_attempt s' = pj_attempt s + k + 1"
proof -
  let ?P = "\<lambda>delay s0. \<exists>k. delay = backoff k \<and> pj_sleeps s0 = pj_sleeps s @ map backoff [0..<k] \<and>
    st_db_retries (pj_stats s0) = st_db_retries (pj_stats s) + k \<and> pj_attempt s0 = pj_attempt s + k"
  have "\<exists>delay' s0. ?P delay' s0 \<and> db_attempt env operation s0 = (r, s') \<and> r \<noteq> Inl Operational_error"
  proof (rule with_retry_loop [where P = ?P, OF _ assms])
    fix delay s0 s1
    assume "?P delay s0" and att: "db_attempt env operation s0 = (Inl Operational_error, s1)"
    then obtain k where "delay = backoff k" "pj_sleeps s0 = pj_sleeps s @ map backoff [0..<k]"
      "st_db_retries (pj_stats s0) = st_db_retries (pj_stats s) + k" "pj_attempt s0 = pj_attempt s + k"
      by blast
    with db_attempt_frame [OF att] show "?P (min (delay * 2) 10) (after_failure delay s1)"
      by (intro exI [of _ "Suc k"]) (simp add: backoff_Suc)
  next
    show "?P (1 / 2) s" by (intro exI [of _ 0]) (simp add: backoff_def)
  qed
  then show ?thesis using db_attempt_frame by fastforce
qed

text \<open>
  What the loop needs from an operation: it fails by itself only with errors that are not
  retried and leaves the tables alone then; once it has succeeded its effect \<open>post\<close> stays true
  when it runs again or when a cursor is lost.
\<close>

locale retryable =
  fixes operation :: "'a operation"
    and inv :: "db \<Rightarrow> bool"
    and post :: "db \<Rightarrow> bool"
  assumes not_operational: "fst (operation now d) \<noteq> Inl Operational_error"
    and raise_unchanged: "operation now d = (Inl e, d') \<Longrightarrow> d' = d"
    and establishes: "operation now d = (Inr v, d') \<Longrightarrow> post d'"
    and post_stable: "post d \<Longrightarrow> post (snd (operation now d))"
    and post_burn: "post d \<Longrightarrow> post (burn_cursor d)"
    and inv_stable: "inv d \<Longrightarrow> inv (snd (operation now d))"
    and inv_burn: "inv d \<Longrightarrow> inv (burn_cursor d)"
begin

lemma attempt_inv:
  "db_attempt env operation s = (r, s') \<Longrightarrow> inv (pj_db s) \<Longrightarrow> inv (pj_db s')"
  using inv_stable [of "pj_db s" "now_at env (pj_attempt s)"] inv_burn [of "pj_db s"]
  by (auto simp: db_attempt_def Let_def split: attempt.splits prod.splits sum.splits if_splits)

lemma attempt_post:
  "db_attempt env operation s = (Inr v, s') \<Longrightarrow> post (pj_db s')"
  by (auto simp: db_attempt_def Let_def split: attempt.splits prod.splits sum.splits intro: establishes)

lemma attempt_post_stable:
  "db_attempt env operation s = (r, s') \<Longrightarrow> post (pj_db s) \<Longrightarrow> post (pj_db s')"
  using post_stable [of "pj_db s" "now_at env (pj_attempt s)"] post_burn [of "pj_db s"]
  by (auto simp: db_attempt_def Let_def split: attempt.splits prod.splits sum.splits if_splits)

lemma retry_inv:
  assumes "with_retry env operation delay s = Some (r, s')" and "inv (pj_db s)"
  shows "inv (pj_db s')"
proof -
  have "\<exists>(delay' :: rat) s0. inv (pj_db s0) \<and> db_attempt env operation s0 = (r, s') \<and>
      r \<noteq> Inl Operational_error"
    by (rule with_retry_loop [where P = "\<lambda>_ s. inv (pj_db s)", OF _ assms]) (simp add: attempt_inv)
  then show ?thesis by (blast intro: attempt_inv)
qed

lemma retry_post:
  assumes "with_retry env operation delay s = Some (Inr v, s')"
  shows "post (pj_db s')"
  using with_retry_loop [where P = "\<lambda>_ _. True", OF _ assms] attempt_post by blast

lemma retry_post_stable:
  assumes "with_retry env operation delay s = Some (r, s')" and "post (pj_db s)"
  shows "post (pj_db s')"
proof -
  have "\<exists>(delay' :: rat) s0. post (pj_db s0) \<and> db_attempt env operation s0 = (r, s') \<and>
      r \<noteq> Inl Operational_error"
    by (rule with_retry_loop [where P = "\<lambda>_ s. post (pj_db s)", OF _ assms])
      (simp add: attempt_post_stable)
  then show ?thesis by (blast intro: attempt_post_stable)
qed

lemma retry_not_operational:
  assumes "with_retry env operation delay s = Some (Inl e, s')"
  shows "e \<noteq> Operational_error"
  using with_retry_loop [where P = "\<lambda>_ _. True", OF _ assms] by blast

lemma retry_returns:
  assumes "attempt_at env (pj_attempt s + k) = Db_up"
  shows "\<exists>r s'. with_retry env operation delay s = Some (r, s') \<and>
    pj_attempt s' \<le> Suc (pj_attempt s + k)"
  using assms not_operational by (rule with_retry_returns)

end

section \<open>The projector's operations are retryable\<close>

lemma recorded_burn [simp]: "recorded (burn_cursor d) = recorded d"
  by (simp add: recorded_def burn_cursor_def fun_eq_iff)

lemma health_current_burn [simp]: "health_current h (burn_cursor d) = health_current h d"
  by (simp add: health_current_def burn_cursor_def)

lemma burn_cursor_inv [inv_intros]: "db_inv d \<Longrightarrow> db_inv (burn_cursor d)"
  by (auto simp: burn_cursor_def db_inv_def feed_inv_def fed_inv_def notes_inv_def)

lemma recorded_committed:
  "committed now t d d' \<Longrightarrow> recorded d' x \<longleftrightarrow> recorded d x \<or> x = t_transition_id t"
  by (auto simp: committed_tables recorded_def map_of_eq_None_iff)

text \<open>The transitions the tables can take.\<close>

definition acceptable :: "detection_transition \<Rightarrow> bool" where
  "acceptable t \<longleftrightarrow> storable t \<and> dated t"

definition accepted_id :: "detection_transition \<Rightarrow> string set" where
  "accepted_id t = (if acceptable t then {t_transition_id t} else {})"

lemma apply_transition_recorded:
  assumes "apply_transition now t d = (r, d')"
  shows "recorded d' x \<Longrightarrow> recorded d x \<or> x \<in> accepted_id t"
    and "recorded d x \<Longrightarrow> recorded d' x"
    and "r = Inr v \<Longrightarrow> recorded d' (t_transition_id t)"
proof -
  have "recorded d (t_transition_id t) \<or> dated t" if "r = Inr v" for v
    using assms that apply_transition_raises_iff [of now t d] by auto
  then show "recorded d' x \<Longrightarrow> recorded d x \<or> x \<in> accepted_id t"
    using assms
    by (auto elim!: apply_transition_cases simp: recorded_committed accepted_id_def acceptable_def)
qed (use assms in \<open>auto elim!: apply_transition_cases simp: recorded_committed\<close>)

text \<open>
  The invariant carried through the retries of one transition: the tables are well formed,
  everything recorded stays recorded, and nothing but this transition is added,
  which happens only if the tables can take it.
\<close>

definition records :: "string set \<Rightarrow> string set \<Rightarrow> db \<Rightarrow> bool" where
  "records A B d \<longleftrightarrow> db_inv d \<and> A \<subseteq> Collect (recorded d) \<and> Collect (recorded d) \<subseteq> B"

interpretation tx: retryable "\<lambda>now. apply_transition now t"
    "records A (accepted_id t \<union> B)" "\<lambda>d. recorded d (t_transition_id t)"
  for t :: detection_transition and A B :: "string set"
proof (unfold_locales, goal_cases)
  case (1 now d)
  show ?case by (cases "apply_transition now t d") (auto elim: apply_transition_cases)
next
  case (2 now d e d')
  then show ?case by (auto elim: apply_transition_cases)
next
  case (3 now d v d')
  then show ?case using apply_transition_recorded(3) by blast
next
  case (4 d now)
  then show ?case
    by (cases "apply_transition now t d") (auto dest: apply_transition_recorded(2))
next
  case (6 d now)
  then show ?case
    using apply_transition_inv [of d now t]
    by (cases "apply_transition now t d")
      (auto simp: records_def dest: apply_transition_recorded(1,2))
qed (auto simp: records_def burn_cursor_inv)

lemma apply_health_recorded [simp]: "recorded (snd (apply_health now h d)) = recorded d"
  by (auto simp: apply_health_def notify_def recorded_def fun_eq_iff
      dest!: upsert_health_cases split: sum.splits option.splits)

interpretation hl: retryable "\<lambda>now. apply_health now h" "records A B" "health_current h"
  for h :: health_event and A B :: "string set"
proof (unfold_locales, goal_cases)
  case (1 now d)
  show ?case
    by (auto simp: apply_health_def upsert_health_def Let_def dest: ts_raises
        split: sum.splits option.splits if_splits)
next
  case (2 now d e d')
  then show ?case by (auto simp: apply_health_def split: sum.splits option.splits)
qed (auto simp: records_def apply_health_inv burn_cursor_inv apply_health_current
      apply_health_stable)

section \<open>Counters\<close>

definition handled :: "stats \<Rightarrow> nat" where
  "handled st = st_applied st + st_duplicates st + st_malformed st + st_health st"

lemma with_retry_frame:
  assumes "with_retry env operation delay s = Some (r, s')"
  shows "handled (pj_stats s') = handled (pj_stats s) \<and> pj_commits s' = pj_commits s"
proof -
  let ?P = "\<lambda>_ s0. handled (pj_stats s0) = handled (pj_stats s) \<and> pj_commits s0 = pj_commits s"
  have "\<exists>(delay' :: rat) s0. ?P delay' s0 \<and> db_attempt env operation s0 = (r, s') \<and>
      r \<noteq> Inl Operational_error"
    by (rule with_retry_loop [where P = ?P, OF _ assms])
      (auto simp: after_failure_def bump_retries_def handled_def dest: db_attempt_frame)
  then show ?thesis using db_attempt_frame by fastforce
qed

lemma apply_msg_frame:
  assumes "apply_msg dec env msg s = Some (r, s')"
  shows "handled (pj_stats s') = handled (pj_stats s) + (if isl r then 0 else 1) \<and>
    pj_commits s' = pj_commits s"
  using assms
  by (auto simp: apply_msg_def handle_health_def bump_malformed_def count_cursor_def handled_def
      Let_def dest!: with_retry_frame split: option.splits if_splits sum.splits prod.splits)

lemma apply_msg_not_commit: "apply_msg dec env msg s = Some (Inl e, s') \<Longrightarrow> e \<noteq> Commit_failed"
  by (auto simp: apply_msg_def handle_health_def Let_def
      split: option.splits if_splits sum.splits prod.splits)

end
