(* ===== verification/Projector_System.thy ===== *)
theory Projector_System
  imports Incident_Projector
begin

text \<open>
  The projector inside its deployment: the Kafka log it reads, the offsets committed for its
  consumer group, crashes and restarts (an \<open>inductive\<close> step relation with its invariant), and what
  the tables hold after any sequence of deliveries, in any order and with any repetition.
\<close>

section \<open>The projector, the log and crashes\<close>

text \<open>
  Kafka's side: a log of messages per topic partition and the offset committed for the consumer
  group. A restarted projector resumes from the committed offsets with the tables as the server
  has them. A step is one event: a message is produced, the projector handles the next message
  of a partition (and the offset commit is acknowledged), handling raises and the process is
  restarted, the process is killed during one attempt of a transition's transaction, it is
  killed while idle, or a housekeeping tick runs.
\<close>

datatype topic_partition = Topic_partition string int

record system =
  klog :: "topic_partition \<Rightarrow> message list"
  koffset :: "topic_partition \<Rightarrow> nat"
  process :: projector

definition restart :: "projector \<Rightarrow> projector" where
  "restart p = new_projector (pj_prune_every_s p) (pj_last_prune p) (pj_heartbeat p)
     (pj_db p) (pj_attempt p)"

text \<open>The transition a message carries, when \<open>apply\<close> does not skip it.\<close>

definition carried :: "decoders \<Rightarrow> environment \<Rightarrow> message \<Rightarrow> detection_transition option" where
  "carried dec env msg =
     (if m_topic msg = HEALTH_TOPIC env then None
      else case dec_transition dec (payload_bytes msg) of
             None \<Rightarrow> None
           | Some t \<Rightarrow> if t_transition_id t = '''' \<or> t_incident_id t = '''' then None else Some t)"

inductive system_step :: "decoders \<Rightarrow> environment \<Rightarrow> system \<Rightarrow> system \<Rightarrow> bool"
  for dec env where
  produce: "system_step dec env S (S\<lparr>klog := (klog S)(tp := klog S tp @ [msg])\<rparr>)"
| consume: "koffset S tp < length (klog S tp) \<Longrightarrow>
     handle dec env True (klog S tp ! koffset S tp) (process S) = Some (Inr c, p) \<Longrightarrow>
     system_step dec env S (S\<lparr>koffset := (koffset S)(tp := Suc (koffset S tp)), process := p\<rparr>)"
| raise: "koffset S tp < length (klog S tp) \<Longrightarrow>
     handle dec env commit_ok (klog S tp ! koffset S tp) (process S) = Some (Inl e, p) \<Longrightarrow>
     system_step dec env S (S\<lparr>process := restart p\<rparr>)"
| kill: "koffset S tp < length (klog S tp) \<Longrightarrow>
     carried dec env (klog S tp ! koffset S tp) = Some t \<Longrightarrow>
     db_attempt env (\<lambda>now. apply_transition now t) (process S) = (r, p) \<Longrightarrow>
     system_step dec env S (S\<lparr>process := restart p\<rparr>)"
| idle_kill: "system_step dec env S (S\<lparr>process := restart (process S)\<rparr>)"
| tick_ok: "tick env c1 c2 (process S) = (Inr u, p) \<Longrightarrow>
     system_step dec env S (S\<lparr>process := p\<rparr>)"
| tick_raise: "tick env c1 c2 (process S) = (Inl e, p) \<Longrightarrow>
     system_step dec env S (S\<lparr>process := restart p\<rparr>)"

inductive reachable :: "decoders \<Rightarrow> environment \<Rightarrow> system \<Rightarrow> bool" for dec env where
  start: "db_inv (pj_db p) \<Longrightarrow> incident_transitions (pj_db p) = [] \<Longrightarrow>
     reachable dec env \<lparr>klog = l, koffset = (\<lambda>_. 0), process = p\<rparr>"
| step: "reachable dec env S \<Longrightarrow> system_step dec env S S' \<Longrightarrow> reachable dec env S'"

text \<open>
  Transition ids of the messages below the committed offsets, and of the acceptable transitions
  of the whole log.
\<close>

definition ids_of :: "decoders \<Rightarrow> environment \<Rightarrow> message set \<Rightarrow> string set" where
  "ids_of dec env M = {t_transition_id t | t. \<exists>msg \<in> M. carried dec env msg = Some t}"

definition log_ids :: "decoders \<Rightarrow> environment \<Rightarrow> system \<Rightarrow> string set" where
  "log_ids dec env S =
     \<Union> {accepted_id t | t. \<exists>tp. \<exists>msg \<in> set (klog S tp). carried dec env msg = Some t}"

definition committed_ids :: "decoders \<Rightarrow> environment \<Rightarrow> system \<Rightarrow> string set" where
  "committed_ids dec env S = (\<Union>tp. ids_of dec env (set (take (koffset S tp) (klog S tp))))"

definition projected :: "decoders \<Rightarrow> environment \<Rightarrow> system \<Rightarrow> bool" where
  "projected dec env S \<longleftrightarrow> (\<forall>tp. koffset S tp \<le> length (klog S tp)) \<and>
     records (committed_ids dec env S) (log_ids dec env S) (pj_db (process S))"

lemma restart_simps [simp]: "pj_db (restart p) = pj_db p" "pj_attempt (restart p) = pj_attempt p"
  by (simp_all add: restart_def new_projector_def)

lemma records_mono: "records A B d \<Longrightarrow> A' \<subseteq> A \<Longrightarrow> B \<subseteq> B' \<Longrightarrow> records A' B' d"
  by (auto simp: records_def)

text \<open>What handling one message does to the tables.\<close>

lemma stats_updates_db [simp]:
  "pj_db (bump_malformed s) = pj_db s" "pj_db (count_cursor c s) = pj_db s"
  "pj_attempt (bump_malformed s) = pj_attempt s" "pj_attempt (count_cursor c s) = pj_attempt s"
  by (simp_all add: bump_malformed_def count_cursor_def)

lemma handle_health_records:
  assumes "handle_health dec env msg s = Some (r, s')" and "records A B (pj_db s)"
  shows "records A B (pj_db s')"
  using assms
  by (auto simp: handle_health_def Let_def dest: hl.retry_inv
      split: option.splits if_splits sum.splits prod.splits)

lemma apply_msg_records:
  assumes app: "apply_msg dec env msg s = Some (r, s')" and rec: "records A B (pj_db s)"
    and ids: "\<And>t. carried dec env msg = Some t \<Longrightarrow> accepted_id t \<subseteq> B"
  shows "records A B (pj_db s')"
    and "carried dec env msg = Some t \<Longrightarrow> r = Inr c \<Longrightarrow> recorded (pj_db s') (t_transition_id t)"
proof -
  have tx: "records A B (pj_db s1)"
    if "with_retry env (\<lambda>now. apply_transition now t) (1 / 2) s = Some (r1, s1)"
      "carried dec env msg = Some t" for t r1 s1
    using tx.retry_inv [OF that(1), of A B] rec ids [OF that(2)] by (simp add: Un_absorb1)
  show "records A B (pj_db s')"
    using app rec handle_health_records tx
    by (auto simp: apply_msg_def carried_def split: option.splits if_splits sum.splits prod.splits)
  show "carried dec env msg = Some t \<Longrightarrow> r = Inr c \<Longrightarrow> recorded (pj_db s') (t_transition_id t)"
    using app
    by (auto simp: apply_msg_def carried_def dest: tx.retry_post
        split: option.splits if_splits sum.splits prod.splits)
qed

lemma apply_msg_carried:
  "apply_msg dec env msg s = Some (Inr c, s') \<Longrightarrow> carried dec env msg = Some t \<Longrightarrow>
     recorded (pj_db s') (t_transition_id t)"
  by (auto simp: apply_msg_def carried_def dest: tx.retry_post
      split: option.splits if_splits sum.splits prod.splits)

lemma handle_apply_msg:
  assumes "handle dec env ok msg s = Some (r, s')"
  obtains r0 s0 where "apply_msg dec env msg s = Some (r0, s0)" "pj_db s' = pj_db s0"
    "\<And>c. r = Inr c \<Longrightarrow> r0 = Inr c"
  using assms by (auto simp: handle_def split: option.splits sum.splits if_splits prod.splits)

lemma handle_records:
  assumes "handle dec env ok msg s = Some (r, s')" and "records A B (pj_db s)"
    and "\<And>t. carried dec env msg = Some t \<Longrightarrow> accepted_id t \<subseteq> B"
  shows "records A B (pj_db s')"
    and "carried dec env msg = Some t \<Longrightarrow> r = Inr c \<Longrightarrow> recorded (pj_db s') (t_transition_id t)"
  using assms apply_msg_records by (auto elim!: handle_apply_msg)

lemma prune_feed_recorded [simp]: "recorded (snd (prune_feed now older d)) = recorded d"
  by (simp add: prune_feed_def recorded_def Let_def fun_eq_iff)

lemma prune_feed_no_raise: "fst (prune_feed now older d) \<noteq> Inl e"
  by (simp add: prune_feed_def Let_def)

interpretation pr: retryable "\<lambda>now. prune_feed now older" "records A B" "\<lambda>_. True"
  for older :: int and A B :: "string set"
proof (unfold_locales, goal_cases)
  case (2 now d e d')
  then show ?case using prune_feed_no_raise [of now older d e] by simp
qed (auto simp: records_def prune_feed_no_raise prune_feed_inv burn_cursor_inv)

lemma tick_records:
  assumes "tick env c1 c2 s = (r, s')" and "records A B (pj_db s)"
  shows "records A B (pj_db s')"
  using assms
  by (auto simp: tick_def Let_def dest: pr.attempt_inv split: if_splits prod.splits sum.splits)

text \<open>Every step keeps what the projection promises.\<close>

lemma ids_of_insert: "ids_of dec env (insert m M) = ids_of dec env {m} \<union> ids_of dec env M"
  by (auto simp: ids_of_def)

lemma log_ids_next:
  "koffset S tp < length (klog S tp) \<Longrightarrow> carried dec env (klog S tp ! koffset S tp) = Some t \<Longrightarrow>
     accepted_id t \<subseteq> log_ids dec env S"
  unfolding log_ids_def by (blast intro: nth_mem)

lemma committed_ids_next:
  assumes "koffset S tp < length (klog S tp)"
  shows "committed_ids dec env (S\<lparr>koffset := (koffset S)(tp := Suc (koffset S tp))\<rparr>) =
     committed_ids dec env S \<union> ids_of dec env {klog S tp ! koffset S tp}"
proof -
  let ?new = "klog S tp ! koffset S tp"
  have eq: "ids_of dec env (set (take (((koffset S)(tp := Suc (koffset S tp))) x) (klog S x))) =
      ids_of dec env (set (take (koffset S x) (klog S x))) \<union>
         (if x = tp then ids_of dec env {?new} else {})" for x
    using assms ids_of_insert [of dec env ?new "set (take (koffset S tp) (klog S tp))"]
    by (simp add: take_Suc_conv_app_nth Un_commute)
  have "committed_ids dec env (S\<lparr>koffset := (koffset S)(tp := Suc (koffset S tp))\<rparr>) =
      (\<Union>x. ids_of dec env (set (take (koffset S x) (klog S x))) \<union>
         (if x = tp then ids_of dec env {?new} else {}))"
    by (simp add: committed_ids_def eq del: fun_upd_apply)
  then show ?thesis by (auto simp: committed_ids_def split: if_splits)
qed

lemma ids_process [simp]:
  "log_ids dec env (S\<lparr>process := p\<rparr>) = log_ids dec env S"
  "committed_ids dec env (S\<lparr>process := p\<rparr>) = committed_ids dec env S"
  "log_ids dec env (S\<lparr>koffset := f\<rparr>) = log_ids dec env S"
  by (simp_all add: log_ids_def committed_ids_def)

lemma produce_projected:
  assumes "projected dec env S"
  shows "projected dec env (S\<lparr>klog := (klog S)(tp := klog S tp @ [msg])\<rparr>)"
proof -
  let ?S = "S\<lparr>klog := (klog S)(tp := klog S tp @ [msg])\<rparr>"
  from assms have "\<forall>tp. koffset S tp \<le> length (klog S tp)" by (simp add: projected_def)
  then have "committed_ids dec env ?S = committed_ids dec env S"
    unfolding committed_ids_def by (intro SUP_cong) auto
  moreover have "log_ids dec env S \<subseteq> log_ids dec env ?S"
    unfolding log_ids_def by fastforce
  ultimately show ?thesis
    using assms by (auto simp: projected_def le_Suc_eq intro: records_mono)
qed

lemma system_step_projected:
  assumes "system_step dec env S S'" and "projected dec env S"
  shows "projected dec env S'"
  using assms
proof (induction rule: system_step.induct)
  case (consume S tp c p)
  let ?msg = "klog S tp ! koffset S tp"
  have ids: "carried dec env ?msg = Some t \<Longrightarrow> accepted_id t \<subseteq> log_ids dec env S" for t
    using consume.hyps(1) log_ids_next by blast
  from consume.prems have rec: "records (committed_ids dec env S) (log_ids dec env S) (pj_db (process S))"
    by (simp add: projected_def)
  note new = handle_records [OF consume.hyps(2) rec ids]
  then have "records (committed_ids dec env S \<union> ids_of dec env {?msg}) (log_ids dec env S) (pj_db p)"
    by (auto simp: records_def ids_of_def)
  with consume.prems consume.hyps(1) show ?case
    by (auto simp: projected_def committed_ids_next)
next
  case (raise S tp ok e p)
  have "records (committed_ids dec env S) (log_ids dec env S) (pj_db p)"
    using raise.prems raise.hyps(1) log_ids_next
    by (intro handle_records(1) [OF raise.hyps(2)]) (auto simp: projected_def)
  with raise.prems show ?case by (simp add: projected_def)
next
  case (kill S tp t r p)
  from kill.hyps have "accepted_id t \<subseteq> log_ids dec env S" by (simp add: log_ids_next)
  then have "records (committed_ids dec env S) (log_ids dec env S) (pj_db p)"
    using tx.attempt_inv [OF kill.hyps(3), of "committed_ids dec env S" "log_ids dec env S"]
      kill.prems by (simp add: projected_def Un_absorb1)
  with kill.prems show ?case by (simp add: projected_def)
next
  case (produce S tp msg)
  then show ?case by (rule produce_projected)
qed (auto simp: projected_def dest: tick_records)

lemma reachable_projected:
  "reachable dec env S \<Longrightarrow> projected dec env S"
proof (induction rule: reachable.induct)
  case (start p l)
  then show ?case
    by (auto simp: projected_def records_def committed_ids_def ids_of_def recorded_def)
qed (blast intro: system_step_projected)

section \<open>Order of delivery\<close>

primrec apply_all :: "(timestamptz \<times> detection_transition) list \<Rightarrow> db \<Rightarrow> db" where
  "apply_all [] d = d"
| "apply_all (x # xs) d = apply_all xs (snd (apply_transition (fst x) (snd x) d))"

definition current_view :: "db \<Rightarrow> string \<Rightarrow>
    (string \<times> bool \<times> string \<times> int \<times> timestamptz \<times> timestamptz \<times> timestamptz option \<times> timestamptz \<times>
     payload) option" where
  "current_view d iid = map_option (\<lambda>r. (i_status r, i_active r, i_severity r, i_revision r,
     i_episode_start r, i_evidence_event_time r, i_evidence_ingest_time r, i_detected_at r,
     i_last_transition r)) (map_of (incidents d) iid)"

lemma apply_all_snoc:
  "apply_all (xs @ [x]) d = snd (apply_transition (fst x) (snd x) (apply_all xs d))"
  by (induction xs arbitrary: d) auto

lemma apply_all_inv [inv_intros]: "db_inv d \<Longrightarrow> db_inv (apply_all xs d)"
  by (induction xs arbitrary: d) (auto intro: apply_transition_inv)

lemma mirrors_unique:
  "mirrors p r \<Longrightarrow> mirrors p r' \<Longrightarrow>
     (i_status r, i_active r, i_severity r, i_revision r, i_episode_start r, i_evidence_event_time r,
      i_evidence_ingest_time r, i_detected_at r, i_last_transition r) =
     (i_status r', i_active r', i_severity r', i_revision r', i_episode_start r',
      i_evidence_event_time r', i_evidence_ingest_time r', i_detected_at r', i_last_transition r')"
  by (simp add: mirrors_def)

definition payloads :: "db \<Rightarrow> string \<Rightarrow> payload set" where
  "payloads d iid = tr_payload ` of_incident d iid"

lemma latest_payload:
  assumes "db_inv d" and "latest d iid r"
  shows "i_last_transition r \<in> payloads d iid"
    and "p \<in> payloads d iid \<Longrightarrow> p_revision p \<le> p_revision (i_last_transition r)"
proof -
  show "i_last_transition r \<in> payloads d iid"
    using assms(2) by (force simp: latest_def payloads_def)
  assume "p \<in> payloads d iid"
  then obtain tr where tr: "tr \<in> of_incident d iid" "p = tr_payload tr" by (auto simp: payloads_def)
  with assms have "p_revision p = tr_revision tr" "tr_revision tr \<le> i_revision r"
    by (auto simp: db_inv_def transitions_inv_def latest_def of_incident_def)
  with assms(2) show "p_revision p \<le> p_revision (i_last_transition r)"
    by (simp add: latest_def mirrors_def)
qed

lemma incident_none_iff:
  assumes "db_inv d"
  shows "map_of (incidents d) iid = None \<longleftrightarrow> payloads d iid = {}"
proof (cases "map_of (incidents d) iid")
  case None
  with assms show ?thesis by (simp add: db_inv_def incidents_inv_def payloads_def)
next
  case (Some r)
  with assms have "latest d iid r" by (simp add: db_inv_def incidents_inv_def)
  with Some latest_payload(1) [OF assms] show ?thesis by auto
qed

lemma current_view_determined:
  assumes "db_inv d" and "db_inv d'" and same: "payloads d iid = payloads d' iid"
    and inj: "inj_on p_revision (payloads d iid)"
  shows "current_view d iid = current_view d' iid"
proof (cases "map_of (incidents d) iid")
  case None
  with assms(1,2) same have "map_of (incidents d') iid = None"
    by (simp add: incident_none_iff)
  with None show ?thesis by (simp add: current_view_def)
next
  case (Some r)
  then have lat: "latest d iid r" using assms(1) by (simp add: db_inv_def incidents_inv_def)
  from Some assms(1,2) same obtain r' where r': "map_of (incidents d') iid = Some r'"
    using incident_none_iff [OF assms(1), of iid] incident_none_iff [OF assms(2), of iid] by auto
  then have lat': "latest d' iid r'" using assms(2) by (simp add: db_inv_def incidents_inv_def)
  have "p_revision (i_last_transition r) = p_revision (i_last_transition r')"
    using latest_payload [OF assms(1) lat] latest_payload [OF assms(2) lat'] same
    by (simp add: order_antisym)
  then have "i_last_transition r = i_last_transition r'"
    using inj latest_payload(1) [OF assms(1) lat] latest_payload(1) [OF assms(2) lat'] same
    by (auto dest: inj_onD)
  with lat lat' have "mirrors (i_last_transition r) r" "mirrors (i_last_transition r) r'"
    by (simp_all add: latest_def)
  from mirrors_unique [OF this] Some r' show ?thesis
    by (simp only: current_view_def option.map)
qed

text \<open>The transitions of a list that the tables can take, when ids identify transitions.\<close>

definition identified :: "detection_transition set \<Rightarrow> bool" where
  "identified T \<longleftrightarrow> inj_on t_transition_id T \<and> inj_on (\<lambda>t. (t_incident_id t, t_revision t)) T"

definition taken :: "detection_transition set \<Rightarrow> detection_transition set" where
  "taken T = {t \<in> T. acceptable t}"

lemma payloads_committed:
  "committed now t d d' \<Longrightarrow> payloads d' iid =
     (if iid = t_incident_id t then insert (transition_payload t) (payloads d iid) else payloads d iid)"
  by (auto simp: payloads_def of_incident_committed transition_row_of_def)

lemma apply_all_payloads:
  assumes "inj_on t_transition_id (snd ` set xs)"
  shows "payloads (apply_all xs empty_db) iid =
      transition_payload ` {t \<in> taken (snd ` set xs). t_incident_id t = iid} \<and>
    (\<forall>tid. recorded (apply_all xs empty_db) tid \<longleftrightarrow> tid \<in> t_transition_id ` taken (snd ` set xs))"
  using assms
proof (induction xs rule: rev_induct)
  case Nil
  show ?case by (simp add: taken_def payloads_def of_incident_def empty_db_def recorded_def)
next
  case (snoc x xs)
  let ?T = "snd ` set xs" and ?d = "apply_all xs empty_db" and ?t = "snd x"
  from snoc.prems have inj: "inj_on t_transition_id ?T" by (rule inj_on_subset) auto
  from snoc.IH [OF inj] have pay: "payloads ?d iid = transition_payload ` {t \<in> taken ?T. t_incident_id t = iid}"
    and rec: "\<And>tid. recorded ?d tid \<longleftrightarrow> tid \<in> t_transition_id ` taken ?T" by blast+
  have old: "?t \<in> taken ?T" if "recorded ?d (t_transition_id ?t)"
  proof -
    from that rec obtain t where "t \<in> taken ?T" "t_transition_id t = t_transition_id ?t" by force
    moreover from this have "t = ?t"
      by (intro inj_onD [OF snoc.prems]) (auto simp: taken_def)
    ultimately show ?thesis by simp
  qed
  obtain r d' where ap: "apply_transition (fst x) ?t ?d = (r, d')" by fastforce
  have raise: "(\<exists>e. r = Inl e) \<longleftrightarrow> \<not> storable ?t \<or> \<not> recorded ?d (t_transition_id ?t) \<and> \<not> dated ?t"
    using apply_transition_raises_iff [of "fst x" ?t ?d] ap by simp
  from ap show ?case
  proof (cases rule: apply_transition_cases)
    case (raised e)
    with raise have "\<not> acceptable ?t" by (auto simp: acceptable_def dest: old simp: taken_def)
    then have "taken (snd ` set (xs @ [x])) = taken ?T" by (auto simp: taken_def)
    with raised ap pay rec show ?thesis by (simp add: apply_all_snoc)
  next
    case duplicate
    with old have "taken (snd ` set (xs @ [x])) = taken ?T" by (auto simp: taken_def)
    with duplicate ap pay rec show ?thesis by (simp add: apply_all_snoc)
  next
    case applied
    with raise have "acceptable ?t" by (auto simp: acceptable_def)
    then have eq: "taken (snd ` set (xs @ [x])) = insert ?t (taken ?T)" by (auto simp: taken_def)
    have "recorded d' tid \<longleftrightarrow> tid \<in> insert (t_transition_id ?t) (t_transition_id ` taken ?T)" for tid
      using recorded_committed [OF applied(4)] rec by auto
    with applied ap pay eq show ?thesis
      by (auto simp: apply_all_snoc payloads_committed)
  qed
qed

lemma payloads_inj:
  assumes "identified (snd ` set xs)"
  shows "inj_on p_revision (payloads (apply_all xs empty_db) iid)"
proof -
  have "payloads (apply_all xs empty_db) iid =
      transition_payload ` {t \<in> taken (snd ` set xs). t_incident_id t = iid}"
    using assms apply_all_payloads by (simp add: identified_def)
  moreover have "t = t'" if "t \<in> taken (snd ` set xs)" "t' \<in> taken (snd ` set xs)"
      "t_incident_id t = iid" "t_incident_id t' = iid"
      "p_revision (transition_payload t) = p_revision (transition_payload t')" for t t'
  proof -
    from assms have "inj_on (\<lambda>t. (t_incident_id t, t_revision t)) (snd ` set xs)"
      by (simp add: identified_def)
    then show "t = t'"
      by (rule inj_onD) (use that in \<open>auto simp: taken_def word_uint_eq_iff\<close>)
  qed
  ultimately show ?thesis by (auto simp: inj_on_def)
qed


end
