(* ===== verification/Projector_Properties.thy ===== *)
theory Projector_Properties
  imports Projector_System
begin

text \<open>
  The properties of the incident projector: one transaction, order of delivery, health events,
  migrations, one message with its retries, and the whole system with crashes.
\<close>

section \<open>Example inputs\<close>

text \<open>Concrete inputs at which the properties with hypotheses are instantiated.\<close>

definition ex_transition :: "string \<Rightarrow> 64 word \<Rightarrow> int \<Rightarrow> detection_transition" where
  "ex_transition tid n status =
     \<lparr>t_envelope = \<lparr>event_id = ''e1'', schema_version = ''2'', env_gateway_id = ''gw'',
        env_device_key = ''aa'', event_time_unix_millis = 1000, ingest_time_unix_millis = 2000,
        trace_id = ''''\<rparr>,
      t_transition_id = tid, t_incident_id = ''i1'', t_revision = n, t_status = status,
      t_threat_family = 1, t_rule_id = ''port-scan'', t_rule_version = ''1'', t_severity = 3,
      t_horizons = [\<lparr>horizon_seconds = 60, hz_value = Finite 12, open_threshold = Finite 10,
        over_threshold = True\<rparr>],
      t_evidence_event_time_unix_millis = 3000, t_detected_at_unix_millis = 4000,
      t_episode_start_unix_millis = 2000, t_sample_event_ids = [''e1''], t_feature_version = ''2'',
      t_evidence_ingest_time_unix_millis = 0\<rparr>"

definition ex_undated :: detection_transition where
  "ex_undated = (ex_transition ''t0'' 1 1)\<lparr>t_episode_start_unix_millis := 0\<rparr>"

definition ex_health :: "int \<Rightarrow> health_event" where
  "ex_health last_ms =
     \<lparr>h_envelope = t_envelope (ex_transition ''t1'' 1 1), h_component = ''sensor'', h_kind = 1,
      h_count = 1, h_first_sequence = 0, h_last_sequence = 0,
      h_first_event_time_unix_millis = 0, h_last_event_time_unix_millis = last_ms,
      h_detail = ''''\<rparr>"

definition ex_decoders :: decoders where
  "ex_decoders = \<lparr>dec_transition = (\<lambda>b. if b = ''undated'' then Some ex_undated
       else if b = '''' then None else Some (ex_transition b 1 1)),
     dec_health = (\<lambda>b. None)\<rparr>"

definition ex_message :: "string \<Rightarrow> message" where
  "ex_message b = \<lparr>m_value = Some b, m_error = None, m_topic = ''traffic.detections.v2'',
                   m_partition = 0, m_offset = 0\<rparr>"

text \<open>The acknowledgement of the first commit is lost; the database is reachable from then on.\<close>

definition ex_env :: environment where
  "ex_env = \<lparr>health_topic_var = None,
     attempt_at = (\<lambda>n. if n = 0 then Lost_on_commit else Db_up), now_at = (\<lambda>n. int n)\<rparr>"

definition ex_projector :: projector where
  "ex_projector = new_projector 3600 0 False empty_db 0"

definition ex_log :: "topic_partition \<Rightarrow> message list" where
  "ex_log tp = (if tp = Topic_partition ''traffic.detections.v2'' 0
     then [ex_message ''t1'', ex_message ''undated''] else [])"

definition ex_start :: system where
  "ex_start = \<lparr>klog = ex_log, koffset = (\<lambda>_. 0), process = ex_projector\<rparr>"

lemma ts_thousand [simp]:
  "ts 2000 = Inr (Some 2000000)" "ts 3000 = Inr (Some 3000000)" "ts 4000 = Inr (Some 4000000)"
  "ts 0 = Inr None"
  by code_simp+

lemma ex_text_ok [simp]: "text_ok ''''" "text_ok (c # s) \<longleftrightarrow> c \<noteq> CHR 0x00 \<and> text_ok s"
  by (simp_all add: text_ok_def)

lemma ex_acceptable [simp]:
  "acceptable (ex_transition tid n status) \<longleftrightarrow> text_ok tid \<and> uint n < 2 ^ 63"
  by (auto simp: acceptable_def storable_def dated_def ex_transition_def bigint_ok_def jsonb_ok_def
      transition_payload_def text_ok_def order_trans [OF _ uint_ge_0])

lemma ex_transition_simps [simp]:
  "t_transition_id (ex_transition tid n status) = tid"
  "t_incident_id (ex_transition tid n status) = ''i1''"
  "t_revision (ex_transition tid n status) = n"
  by (simp_all add: ex_transition_def)

lemma ex_undated_props [simp]:
  "t_transition_id ex_undated = ''t0''" "t_incident_id ex_undated = ''i1''" "\<not> acceptable ex_undated"
  "storable ex_undated"
  by (simp_all add: ex_undated_def acceptable_def dated_def storable_def bigint_ok_def jsonb_ok_def
      transition_payload_def ex_transition_def)

lemma ex_attempts [simp]: "attempt_at ex_env 0 = Lost_on_commit" "0 < n \<Longrightarrow> attempt_at ex_env n = Db_up"
  by (simp_all add: ex_env_def)

lemma recorded_empty [simp]: "recorded empty_db = (\<lambda>_. False)"
  by (simp add: recorded_def empty_db_def fun_eq_iff)

lemma ex_projector_simps [simp]: "pj_db ex_projector = empty_db" "pj_attempt ex_projector = 0"
  by (simp_all add: ex_projector_def new_projector_def)

section \<open>One transaction\<close>

text \<open>
  C8: what \<open>apply_transition\<close> does on every branch. It raises exactly when the row cannot be stored
  (a NUL character, a revision of 2^63 or more, a non-finite horizon value) or, for a transition
  not seen before, when a required time is missing or out of range, and then it changes nothing;
  a transition already recorded returns no cursor and changes nothing; any other transition gets
  the next cursor and is committed to all tables together.
\<close>

theorem apply_transition_spec:
  assumes "apply_transition now t d = (r, d')"
  shows "(case r of
       Inl e \<Rightarrow> d' = d \<and> e \<noteq> Operational_error
     | Inr None \<Rightarrow> d' = d \<and> recorded d (t_transition_id t)
     | Inr (Some c) \<Rightarrow> c = feed_seq d + 1 \<and> \<not> recorded d (t_transition_id t) \<and> committed now t d d') \<and>
    ((\<exists>e. r = Inl e) \<longleftrightarrow> \<not> storable t \<or> \<not> recorded d (t_transition_id t) \<and> \<not> dated t)"
proof -
  have "(\<exists>e. r = Inl e) \<longleftrightarrow> \<not> storable t \<or> \<not> recorded d (t_transition_id t) \<and> \<not> dated t"
    using assms apply_transition_raises_iff [of now t d] by simp
  then show ?thesis using assms by (elim apply_transition_cases) auto
qed

theorem apply_transition_spec_witness:
  "\<exists>d'. apply_transition 9 (ex_transition ''t1'' 1 1) empty_db = (Inr (Some 1), d') \<and>
     committed 9 (ex_transition ''t1'' 1 1) empty_db d'"
proof -
  obtain r d' where ap: "apply_transition 9 (ex_transition ''t1'' 1 1) empty_db = (r, d')" by fastforce
  have "storable (ex_transition ''t1'' 1 1) \<and> dated (ex_transition ''t1'' 1 1)"
    using ex_acceptable [of "''t1''" 1 1] by (simp add: acceptable_def)
  with apply_transition_spec [OF ap] ap show ?thesis
    by (auto split: sum.splits option.splits simp: empty_db_def recorded_def)
qed

text \<open>
  Redelivery is a no-op. Once a transition has been applied (or found applied), applying it
  again, at any time and after any further transitions, returns no cursor and leaves every table
  as it is.
\<close>

lemma redelivery_no_op:
  assumes "apply_transition now t d = (Inr v, d1)"
  shows "apply_transition now' t (apply_all xs d1) = (Inr None, apply_all xs d1)"
proof -
  have st: "storable t" using assms by (auto elim: apply_transition_cases)
  have "recorded d1 (t_transition_id t)" using apply_transition_recorded(3) [OF assms] by simp
  then have rec: "recorded (apply_all xs d1) (t_transition_id t)"
    by (induction xs arbitrary: d1)
      (auto intro: apply_transition_recorded(2) [OF surjective_pairing])
  obtain r d2 where ap: "apply_transition now' t (apply_all xs d1) = (r, d2)" by fastforce
  from this show ?thesis
    by (cases rule: apply_transition_cases)
      (use ap st rec apply_transition_raises_iff [of now' t "apply_all xs d1"] in auto)
qed

text \<open>
  C29: the invariant of the tables (unique transition ids, an incident row for every incident with
  transitions, showing the one with the greatest revision, feed cursors positive, increasing and
  at most the sequence's last value, at most one feed row per transition, one notification per
  transition, one health row per gateway, component and kind) holds of the empty tables and is
  preserved by every operation of the projector, whatever it returns or raises, and by a cursor lost
  in a rollback.
\<close>

theorem tables_invariant:
  "db_inv empty_db \<and>
   (db_inv d \<longrightarrow> db_inv (snd (apply_transition now t d)) \<and> db_inv (snd (apply_health now h d)) \<and>
      db_inv (snd (prune_feed now older d)) \<and> db_inv (snd (migrate err files d)) \<and>
      db_inv (burn_cursor d))"
  by (intro conjI impI inv_intros)

theorem tables_invariant_witness:
  "db_inv (snd (apply_transition 9 (ex_transition ''t1'' 1 1) empty_db))"
  using tables_invariant [of empty_db 9 "ex_transition ''t1'' 1 1"] by blast


section \<open>Order of delivery\<close>

text \<open>
  C2: the incidents shown do not depend on the order in which transitions arrive or on how often
  each is delivered. When ids, and revisions within an incident, identify transitions, two delivery
  sequences of the same transitions starting from empty tables give every incident the same current
  status, severity, revision, times and last transition.
\<close>

theorem convergence:
  assumes "snd ` set xs = snd ` set ys" and "identified (snd ` set xs)"
  shows "current_view (apply_all xs empty_db) iid = current_view (apply_all ys empty_db) iid"
proof (rule current_view_determined)
  show "payloads (apply_all xs empty_db) iid = payloads (apply_all ys empty_db) iid"
    using assms apply_all_payloads by (simp add: identified_def)
qed (use assms payloads_inj in \<open>auto intro: apply_all_inv db_inv_empty\<close>)

theorem convergence_witness:
  "current_view (apply_all [(1, ex_transition ''t1'' 1 1), (2, ex_transition ''t2'' 2 4)] empty_db) ''i1'' =
   current_view (apply_all [(5, ex_transition ''t2'' 2 4), (6, ex_transition ''t1'' 1 1),
     (7, ex_transition ''t2'' 2 4)] empty_db) ''i1''"
  by (rule convergence) (auto simp: identified_def)

text \<open>
  C27: the revision shown is the greatest delivered. After any sequence of deliveries that contains
  an acceptable transition, its incident has a row, which is the projection of one delivered
  transition of that incident whose revision is at least that transition's.
\<close>

theorem latest_revision_shown:
  assumes "identified (snd ` set xs)" and "(now, t) \<in> set xs" and "acceptable t"
  shows "\<exists>r t'. map_of (incidents (apply_all xs empty_db)) (t_incident_id t) = Some r \<and>
     t' \<in> snd ` set xs \<and> t_incident_id t' = t_incident_id t \<and> mirrors (transition_payload t') r \<and>
     t_revision t \<le> t_revision t'"
proof -
  let ?d = "apply_all xs empty_db" and ?i = "t_incident_id t"
  have inv: "db_inv ?d" by (intro apply_all_inv db_inv_empty)
  have pay: "payloads ?d ?i = transition_payload ` {t \<in> taken (snd ` set xs). t_incident_id t = ?i}"
    using assms(1) apply_all_payloads by (simp add: identified_def)
  with assms(2,3) have t: "transition_payload t \<in> payloads ?d ?i"
    by (force simp: taken_def)
  then obtain r where r: "map_of (incidents ?d) ?i = Some r"
    using incident_none_iff [OF inv, of ?i] by auto
  then have lat: "latest ?d ?i r" using inv by (simp add: db_inv_def incidents_inv_def)
  from latest_payload(1) [OF inv lat] pay obtain t' where t':
    "t' \<in> snd ` set xs" "t_incident_id t' = ?i" "i_last_transition r = transition_payload t'"
    by (auto simp: taken_def)
  have "t_revision t \<le> t_revision t'"
    using latest_payload(2) [OF inv lat t] t' by (simp add: word_le_def)
  moreover have "mirrors (transition_payload t') r"
    using lat t' by (simp add: latest_def)
  ultimately show ?thesis using r t' by blast
qed

theorem latest_revision_shown_witness:
  "\<exists>r. map_of (incidents (apply_all [(1, ex_transition ''t2'' 2 4), (2, ex_transition ''t1'' 1 1)]
     empty_db)) ''i1'' = Some r \<and> i_revision r = 2"
proof -
  let ?xs = "[(1, ex_transition ''t2'' 2 4), (2, ex_transition ''t1'' 1 1)]"
  have "identified (snd ` set ?xs)" by (auto simp: identified_def)
  from latest_revision_shown [OF this, of 1 "ex_transition ''t2'' 2 4"] show ?thesis
    by (auto simp: mirrors_def word_le_def)
qed

section \<open>Health events\<close>

text \<open>
  C34: after any sequence of health events, in any order, the stored row for an event's gateway,
  component and kind is at least as recent as every event of the sequence that was stored or
  found outdated; a later event never brings back an older time.
\<close>

theorem health_newest_wins:
  assumes "fst (apply_health now h (apply_health_all xs d)) = Inr v"
  shows "health_current h (apply_health_all (xs @ (now, h) # ys) d)"
  using assms apply_health_current [of now h "apply_health_all xs d" v]
  by (cases "apply_health now h (apply_health_all xs d)")
    (auto simp: apply_health_all_append intro: health_current_all)

theorem health_newest_wins_witness:
  "health_current (ex_health 3000) (apply_health_all ([(1, ex_health 4000)] @ (2, ex_health 3000) #
     [(3, ex_health 2000)]) empty_db)"
proof (rule health_newest_wins)
  show "fst (apply_health 2 (ex_health 3000) (apply_health_all [(1, ex_health 4000)] empty_db)) = Inr False"
    by code_simp
qed

section \<open>Migrations\<close>

text \<open>
  Migrations run in file-name order, each at most once and all or nothing: a run that returns
  executed exactly the scripts whose names were not recorded, sorted by name, and recorded those
  names; running it again executes nothing; a run that raises leaves the schema as it was.
\<close>

theorem migrate_once:
  assumes "migrate err files d = (r, d')"
  shows "case r of
      Inl e \<Rightarrow> d' = d
    | Inr applied \<Rightarrow>
        (let new = filter (\<lambda>f. fst f \<notin> set (schema_migrations d)) (sort_key fst files) in
         applied = map fst new \<and> executed_ddl d' = executed_ddl d @ map snd new \<and>
         schema_migrations d' = schema_migrations d @ applied \<and>
         migrate err files d' = (Inr [], d'))"
proof (cases r)
  case (Inr applied)
  with assms have run:
    "migrate_files err (set (schema_migrations d)) (sort_key fst files) [] d = Inr (applied, d')"
    by (auto simp: migrate_def split: sum.splits)
  note eff = migrate_files_ok [OF run]
  then have "fst ` set (sort_key fst files) \<subseteq> set (schema_migrations d')" by auto
  then have "migrate err files d' = (Inr [], d')" by (simp add: migrate_def migrate_files_done)
  with eff Inr show ?thesis by simp
qed (use assms in \<open>auto simp: migrate_def split: sum.splits prod.splits\<close>)

theorem migrate_once_witness:
  "snd (migrate (\<lambda>_. None) [(''0002.sql'', ''b''), (''0001.sql'', ''a'')] empty_db) =
     empty_db\<lparr>schema_migrations := [''0001.sql'', ''0002.sql''], executed_ddl := [''a'', ''b'']\<rparr> \<and>
   fst (migrate (\<lambda>_. None) [(''0002.sql'', ''b''), (''0001.sql'', ''a'')]
     (snd (migrate (\<lambda>_. None) [(''0002.sql'', ''b''), (''0001.sql'', ''a'')] empty_db))) = Inr []"
proof -
  let ?f = "[(''0002.sql'', ''b''), (''0001.sql'', ''a'')]"
  let ?d = "empty_db\<lparr>schema_migrations := [''0001.sql'', ''0002.sql''], executed_ddl := [''a'', ''b'']\<rparr>"
  have 1: "migrate (\<lambda>_. None) ?f empty_db = (Inr [''0001.sql'', ''0002.sql''], ?d)"
    by (simp add: migrate_def empty_db_def)
  have 2: "migrate (\<lambda>_. None) ?f ?d = (Inr [], ?d)"
    using migrate_once [OF 1] unfolding sum.case Let_def by blast
  show ?thesis by (simp only: 1 2 fst_conv snd_conv)
qed

section \<open>One message\<close>

text \<open>
  C9: a connection lost at any point, also after the server committed but before it answered, does
  not lose or repeat a transition. When the retry loop returns normally, the transition is
  recorded and it is the only one added, the tables satisfy their invariant, and the loop has
  slept 0.5, 1, 2, ... seconds, never more than ten, once per counted retry.
\<close>

theorem retry_exactly_once:
  assumes "with_retry env (\<lambda>now. apply_transition now t) (1 / 2) s = Some (Inr v, s')"
    and "db_inv (pj_db s)"
  shows "Collect (recorded (pj_db s')) = insert (t_transition_id t) (Collect (recorded (pj_db s))) \<and>
    db_inv (pj_db s') \<and>
    (\<exists>k. pj_sleeps s' = pj_sleeps s @ map backoff [0..<k] \<and>
       st_db_retries (pj_stats s') = st_db_retries (pj_stats s) + k) \<and> (\<forall>k. backoff k \<le> 10)"
proof -
  let ?R = "Collect (recorded (pj_db s))"
  have "records ?R (accepted_id t \<union> ?R) (pj_db s')"
    using assms(2) by (intro tx.retry_inv [OF assms(1)]) (auto simp: records_def)
  moreover have "recorded (pj_db s') (t_transition_id t)" using tx.retry_post [OF assms(1)] .
  ultimately show ?thesis
    using with_retry_backoff [OF assms(1)]
    by (auto simp: records_def accepted_id_def backoff_def split: if_splits)
qed

text \<open>The first commit's acknowledgement is lost, the second attempt finds the row.\<close>

lemma ex_retry:
  "\<exists>s'. with_retry ex_env (\<lambda>now. apply_transition now (ex_transition ''t1'' 1 1)) (1 / 2) ex_projector =
     Some (Inr None, s')"
proof -
  let ?t = "ex_transition ''t1'' 1 1"
  let ?op = "\<lambda>now. apply_transition now ?t"
  have "fst (apply_transition 0 ?t empty_db) = Inr (Some 1)" by code_simp
  then obtain d where d: "apply_transition 0 ?t empty_db = (Inr (Some 1), d)"
    by (cases "apply_transition 0 ?t empty_db") simp
  then have "recorded d ''t1'' \<and> storable ?t"
    using apply_transition_recorded(3) [OF d] by (auto elim: apply_transition_cases)
  then have again: "apply_transition now ?t d = (Inr None, d)" for now
    using apply_transition_raises_iff [of now ?t d]
    by (cases "apply_transition now ?t d") (auto elim: apply_transition_cases)
  let ?s1 = "ex_projector\<lparr>pj_attempt := 1, pj_conn := Closed_conn, pj_db := d\<rparr>"
  have 1: "db_attempt ex_env ?op ex_projector = (Inl Operational_error, ?s1)"
    using d by (simp add: db_attempt_def ex_env_def)
  let ?s2 = "after_failure (1 / 2) ?s1"
  have 2: "fst (db_attempt ex_env ?op ?s2) = Inr None"
    using again by (simp add: db_attempt_def ex_env_def after_failure_def bump_retries_def)
  show ?thesis
    using 1 2 by (cases "db_attempt ex_env ?op ?s2")
      (simp add: with_retry.simps [of _ _ _ ex_projector] with_retry.simps [of _ _ _ ?s2]
        del: One_nat_def)
qed

theorem retry_exactly_once_witness:
  "\<exists>s'. with_retry ex_env (\<lambda>now. apply_transition now (ex_transition ''t1'' 1 1)) (1 / 2) ex_projector =
     Some (Inr None, s') \<and> Collect (recorded (pj_db s')) = {''t1''}"
proof -
  obtain s' where s': "with_retry ex_env (\<lambda>now. apply_transition now (ex_transition ''t1'' 1 1)) (1 / 2)
     ex_projector = Some (Inr None, s')" using ex_retry by blast
  from retry_exactly_once [OF s'] db_inv_empty
  have "Collect (recorded (pj_db s')) = {''t1''}" by simp
  with s' show ?thesis by blast
qed

text \<open>
  C32: the retry loop ends as soon as the database stays reachable for one attempt. If the attempt
  \<open>k\<close> positions ahead finds the server up, handling the message returns (a result or a raise) after
  at most \<open>k + 1\<close> attempts.
\<close>

theorem handle_returns:
  assumes "attempt_at env (pj_attempt s + k) = Db_up"
  shows "\<exists>r s'. handle dec env commit_ok msg s = Some (r, s') \<and> pj_attempt s' \<le> Suc (pj_attempt s + k)"
proof -
  have t: "\<exists>r s'. with_retry env (\<lambda>now. apply_transition now t) (1 / 2) s = Some (r, s') \<and>
      pj_attempt s' \<le> Suc (pj_attempt s + k)" for t
    using assms by (rule tx.retry_returns)
  have h: "\<exists>r s'. with_retry env (\<lambda>now. apply_health now h) (1 / 2) s = Some (r, s') \<and>
      pj_attempt s' \<le> Suc (pj_attempt s + k)" for h
    using assms by (rule hl.retry_returns)
  have "\<exists>r s'. handle_health dec env msg s = Some (r, s') \<and> pj_attempt s' \<le> Suc (pj_attempt s + k)"
    using h [of "the (dec_health dec (payload_bytes msg))"]
    by (cases "dec_health dec (payload_bytes msg)")
      (auto simp: handle_health_def bump_malformed_def split: sum.splits)
  then have "\<exists>r s'. apply_msg dec env msg s = Some (r, s') \<and> pj_attempt s' \<le> Suc (pj_attempt s + k)"
    using t [of "the (dec_transition dec (payload_bytes msg))"]
    by (cases "dec_transition dec (payload_bytes msg)")
      (auto simp: apply_msg_def bump_malformed_def count_cursor_def split: sum.splits)
  then show ?thesis
    by (auto simp: handle_def split: option.splits sum.splits prod.splits)
qed

theorem handle_returns_witness:
  "\<exists>r s'. handle ex_decoders ex_env True (ex_message ''t1'') ex_projector = Some (r, s') \<and>
     pj_attempt s' \<le> 2"
  using handle_returns [of ex_env ex_projector 1 ex_decoders True "ex_message ''t1''"]
  by (simp add: numeral_2_eq_2)

text \<open>
  C28: the offset is committed after, and only after, the database has the message's effect. A
  message handled without a raise has its offset committed, its transition recorded, and exactly
  one of the counters \<open>applied\<close>, \<open>duplicates\<close>, \<open>malformed\<close> and \<open>health\<close> is one higher; when handling
  raises, no offset is committed and those counters keep their values unless it was the offset
  commit itself that failed.
\<close>

theorem commit_after_database:
  assumes "handle dec env commit_ok msg s = Some (r, s')"
  shows "pj_commits s' = pj_commits s @ (if isl r then [] else [msg]) \<and>
    (\<forall>t. carried dec env msg = Some t \<and> \<not> isl r \<longrightarrow> recorded (pj_db s') (t_transition_id t)) \<and>
    handled (pj_stats s') = handled (pj_stats s) +
      (if isl r \<and> r \<noteq> Inl Commit_failed then 0 else 1)"
proof (cases "apply_msg dec env msg s")
  case (Some res)
  obtain r0 s0 where "res = (r0, s0)" by fastforce
  with Some have app: "apply_msg dec env msg s = Some (r0, s0)" by simp
  show ?thesis
    using assms app apply_msg_frame [OF app] apply_msg_carried [of dec env msg s _ s0]
      apply_msg_not_commit [of dec env msg s _ s0]
    by (auto simp: handle_def split: sum.splits if_splits)
qed (use assms in \<open>simp add: handle_def\<close>)

theorem commit_after_database_witness:
  "\<exists>s'. handle ex_decoders ex_env True (ex_message ''t1'') ex_projector = Some (Inr None, s') \<and>
     pj_commits s' = [ex_message ''t1''] \<and> recorded (pj_db s') ''t1'' \<and> handled (pj_stats s') = 1"
proof -
  have car: "carried ex_decoders ex_env (ex_message ''t1'') = Some (ex_transition ''t1'' 1 1)"
    by (simp add: carried_def ex_message_def HEALTH_TOPIC_def ex_env_def ex_decoders_def
        payload_bytes_def)
  obtain s' where "handle ex_decoders ex_env True (ex_message ''t1'') ex_projector = Some (Inr None, s')"
    using ex_retry
    by (force simp: handle_def apply_msg_def ex_message_def HEALTH_TOPIC_def ex_env_def
        ex_decoders_def payload_bytes_def)
  with commit_after_database [OF this] car show ?thesis
    by (auto simp: ex_projector_def new_projector_def handled_def zero_stats_def)
qed

section \<open>The whole system\<close>

text \<open>
  C1: exactly once across crashes. In every state the system can reach (messages produced at any
  time, connections lost anywhere, the process killed between the database commit and the offset
  commit and restarted from the committed offsets), each transition below a committed offset is
  recorded, nothing is recorded that the log does not carry, no transition is recorded twice or
  has two feed rows, and the number of feed notifications is the number of recorded transitions.
\<close>

theorem exactly_once:
  assumes "reachable dec env S"
  shows "committed_ids dec env S \<subseteq> Collect (recorded (pj_db (process S))) \<and>
    Collect (recorded (pj_db (process S))) \<subseteq> log_ids dec env S \<and>
    distinct (map fst (incident_transitions (pj_db (process S)))) \<and>
    distinct (map (\<lambda>r. p_transition_id (f_payload r)) (incident_feed (pj_db (process S)))) \<and>
    length (filter (\<lambda>n. fst n = FEED_CHANNEL) (notified (pj_db (process S)))) =
      length (incident_transitions (pj_db (process S)))"
  using reachable_projected [OF assms]
  by (simp add: projected_def records_def db_inv_def transitions_inv_def fed_inv_def notes_inv_def)

lemma ex_reachable:
  "\<exists>S. reachable ex_decoders ex_env S \<and> klog S = ex_log \<and>
     koffset S (Topic_partition ''traffic.detections.v2'' 0) = 1"
proof -
  let ?tp = "Topic_partition ''traffic.detections.v2'' 0"
  have start: "reachable ex_decoders ex_env ex_start"
    unfolding ex_start_def by (rule reachable.start) (simp_all add: db_inv_empty, simp add: empty_db_def)
  have msg: "klog ex_start ?tp ! koffset ex_start ?tp = ex_message ''t1''"
    by (simp add: ex_start_def ex_log_def)
  obtain s' where "handle ex_decoders ex_env True (ex_message ''t1'') ex_projector = Some (Inr None, s')"
    using ex_retry
    by (force simp: handle_def apply_msg_def ex_message_def HEALTH_TOPIC_def ex_env_def
        ex_decoders_def payload_bytes_def)
  then have "system_step ex_decoders ex_env ex_start
      (ex_start\<lparr>koffset := (koffset ex_start)(?tp := Suc (koffset ex_start ?tp)), process := s'\<rparr>)"
    by (intro system_step.consume [where c = None]) (simp_all only: msg, simp_all add: ex_start_def ex_log_def)
  from reachable.step [OF start this] show ?thesis
    by (intro exI conjI) (assumption, simp_all add: ex_start_def)
qed

theorem exactly_once_witness:
  "\<exists>S. reachable ex_decoders ex_env S \<and> recorded (pj_db (process S)) ''t1'' \<and>
     Collect (recorded (pj_db (process S))) \<subseteq> log_ids ex_decoders ex_env S"
proof -
  obtain S where S: "reachable ex_decoders ex_env S" "klog S = ex_log"
    "koffset S (Topic_partition ''traffic.detections.v2'' 0) = 1" using ex_reachable by blast
  have "carried ex_decoders ex_env (ex_message ''t1'') = Some (ex_transition ''t1'' 1 1)"
    by (simp add: carried_def ex_message_def HEALTH_TOPIC_def ex_env_def ex_decoders_def
        payload_bytes_def)
  then have "''t1'' \<in> committed_ids ex_decoders ex_env S"
    using S(2,3) by (force simp: committed_ids_def ids_of_def ex_log_def
        intro!: exI [of _ "Topic_partition ''traffic.detections.v2'' 0"])
  with exactly_once [OF S(1)] S(1) show ?thesis by blast
qed

text \<open>
  C40: a message the tables cannot take blocks its partition. If a message carries a transition
  that is not acceptable and no acceptable transition of the log has its id, then in every
  reachable state the committed offset has not passed it: it is neither applied nor counted as
  malformed and skipped, but raised and redelivered again and again.
\<close>

theorem poison_blocks:
  assumes "reachable dec env S" and "k < length (klog S tp)"
    and "carried dec env (klog S tp ! k) = Some t" and "t_transition_id t \<notin> log_ids dec env S"
  shows "koffset S tp \<le> k"
proof (rule ccontr)
  assume "\<not> koffset S tp \<le> k"
  with assms(2) have "klog S tp ! k \<in> set (take (koffset S tp) (klog S tp))"
    by (force simp: in_set_conv_nth)
  with assms(3) have "t_transition_id t \<in> committed_ids dec env S"
    by (auto simp: committed_ids_def ids_of_def)
  with reachable_projected [OF assms(1)] assms(4) show False
    by (auto simp: projected_def records_def)
qed

theorem poison_blocks_witness:
  "\<exists>S. reachable ex_decoders ex_env S \<and>
     klog S (Topic_partition ''traffic.detections.v2'' 0) ! 1 = ex_message ''undated'' \<and>
     koffset S (Topic_partition ''traffic.detections.v2'' 0) \<le> 1"
proof -
  let ?tp = "Topic_partition ''traffic.detections.v2'' 0"
  obtain S where S: "reachable ex_decoders ex_env S" "klog S = ex_log"
    using ex_reachable by blast
  have car: "carried ex_decoders ex_env (ex_message ''undated'') = Some ex_undated"
    "carried ex_decoders ex_env (ex_message ''t1'') = Some (ex_transition ''t1'' 1 1)"
    by (simp_all add: carried_def ex_message_def HEALTH_TOPIC_def ex_env_def ex_decoders_def
        payload_bytes_def)
  have "t_transition_id ex_undated \<notin> log_ids ex_decoders ex_env S"
    using car S(2) by (auto simp: log_ids_def ex_log_def accepted_id_def split: if_splits)
  from poison_blocks [OF S(1) _ _ this, of 1 ?tp] car S show ?thesis
    by (auto simp: ex_log_def)
qed

text \<open>
  Such a message raises on every delivery. When the database is reachable and the transition is
  not acceptable and not recorded, handling raises a database error other than a lost connection
  with no row changed, no offset committed and no counter incremented.
\<close>

lemma unacceptable_raises:
  assumes "carried dec env msg = Some t" and "\<not> acceptable t"
    and "\<not> recorded (pj_db s) (t_transition_id t)" and "attempt_at env (pj_attempt s) = Db_up"
  shows "\<exists>e s'. handle dec env commit_ok msg s = Some (Inl (Database e), s') \<and>
     e \<noteq> Operational_error \<and> pj_db s' = pj_db s \<and> pj_commits s' = pj_commits s \<and>
     pj_stats s' = pj_stats s"
proof -
  let ?now = "now_at env (pj_attempt s)"
  obtain r d where ap: "apply_transition ?now t (pj_db s) = (r, d)" by fastforce
  have "\<exists>e. r = Inl e"
    using apply_transition_raises_iff [of ?now t "pj_db s"] ap assms(2,3) by (auto simp: acceptable_def)
  with ap obtain e where e: "apply_transition ?now t (pj_db s) = (Inl e, pj_db s)" "e \<noteq> Operational_error"
    by (auto elim: apply_transition_cases)
  then have "db_attempt env (\<lambda>now. apply_transition now t) s =
      (Inl e, s\<lparr>pj_attempt := Suc (pj_attempt s), pj_conn := Open_conn, pj_db := pj_db s\<rparr>)"
    using assms(4) by (simp add: db_attempt_def Let_def)
  then have "with_retry env (\<lambda>now. apply_transition now t) (1 / 2) s =
      Some (Inl e, s\<lparr>pj_attempt := Suc (pj_attempt s), pj_conn := Open_conn, pj_db := pj_db s\<rparr>)"
    using e(2) by (simp add: with_retry.simps [of _ _ _ s])
  with e(2) assms(1) show ?thesis
    by (auto simp: handle_def apply_msg_def carried_def split: option.splits if_splits)
qed

text \<open>
  Pruning is not retried. When a prune is due and the connection is lost or refused, the
  housekeeping tick raises the connection error, and the main loop stops with it.
\<close>

theorem prune_failure_stops_run:
  assumes "poll_once dec env it s = Some (Inr u, s1)"
    and "pj_prune_every_s s1 \<le> fl (it_clock1 it - pj_last_prune s1)"
    and "attempt_at env (pj_attempt s1) \<noteq> Db_up"
  shows "\<exists>s'. run_loop dec env (it # its) s = Some (Inl (Database Operational_error), s')"
proof -
  have "\<exists>s'. tick env (it_clock1 it) (it_clock2 it) s1 = (Inl (Database Operational_error), s')"
    using assms(2,3) by (cases "attempt_at env (pj_attempt s1)")
      (auto simp: tick_def db_attempt_def prune_feed_def Let_def)
  with assms(1) show ?thesis by auto
qed

theorem prune_failure_stops_run_witness:
  "\<exists>s'. run_loop ex_decoders ex_env
     [\<lparr>it_poll = None, it_commit_ok = True, it_clock1 = 4096, it_clock2 = 4096\<rparr>] ex_projector =
     Some (Inl (Database Operational_error), s')"
proof -
  have "fl 4096 = 4096" by code_simp
  then show ?thesis
    by (intro prune_failure_stops_run [where u = "()" and ?s1.0 = ex_projector])
      (simp_all add: poll_once_def ex_projector_def new_projector_def)
qed

end
