(* ===== verification/Incident_Api.thy ===== *)
theory Incident_Api
  imports Projector_Properties "HOL-Library.Product_Lexorder"
begin

text \<open>
  The read side (\<open>src/images/incident-api/app/main.py\<close>): the store's queries over the projector's
  tables, the HTTP endpoints, and the WebSocket session with its catch-up loop. The locales
  \<open>feed_reads\<close> and \<open>append_reads\<close> state what a session relies on; they are interpreted on the
  projector's own operations.

  FastAPI's parameter validation is modelled as the declared bounds. A session ends when the client
  disconnects, which is the end of its list of wake-ups; each notification is one wake-up.
\<close>

section \<open>Store\<close>

definition BATCH :: nat where "BATCH = 500"

text \<open>\<open>int(value.timestamp() * 1000)\<close>: both operations round to double, the result truncates.\<close>

definition ms :: "timestamptz option \<Rightarrow> int option" where
  "ms value = (case value of None \<Rightarrow> None
     | Some us \<Rightarrow> Some (py_trunc (fl (fl (of_int us / 1000000) * 1000))))"

record snapshot_view =
  sn_cursor :: int
  sn_incidents :: "(payload \<times> int option) list"

record change =
  c_cursor :: int
  c_incident_id :: string
  c_revision :: int
  c_transition :: payload
  c_committed_at_ms :: "int option"

record batch =
  b_changes :: "change list"
  b_cursor :: int

record health_view =
  v_gateway_id :: string
  v_component :: string
  v_kind :: string
  v_count :: int
  v_first_sequence :: int
  v_last_sequence :: int
  v_detail :: string
  v_first_event_time_ms :: "int option"
  v_last_event_time_ms :: "int option"
  v_received_at_ms :: "int option"

datatype cursor_expired = Cursor_expired

text \<open>
  What SQL leaves open is a parameter: \<open>scan\<close> is the order in which the server happens to read the
  rows of \<open>incidents\<close> (it decides between equal sort keys), \<open>collate\<close> the database's text collation.
\<close>

record server =
  scan :: "(string \<times> incident_row) list \<Rightarrow> (string \<times> incident_row) list"
  collate :: "string \<Rightarrow> string"

definition max_cursor :: "db \<Rightarrow> int" where
  "max_cursor d = (if incident_feed d = [] then 0 else Max (set (map f_cursor (incident_feed d))))"

definition min_cursor :: "db \<Rightarrow> int option" where
  "min_cursor d = (if incident_feed d = [] then None
     else Some (Min (set (map f_cursor (incident_feed d)))))"

text \<open>One repeatable-read transaction: both statements see the same tables.\<close>

definition snapshot :: "server \<Rightarrow> bool \<Rightarrow> nat \<Rightarrow> db \<Rightarrow> snapshot_view" where
  "snapshot srv active_only limit d =
     (let rows = map snd (scan srv (incidents d));
          rows = (if active_only then filter i_active rows else rows);
          rows = take limit (sort_key (\<lambda>r. - i_detected_at r) rows)
      in \<lparr>sn_cursor = max_cursor d,
          sn_incidents = map (\<lambda>r. (i_last_transition r, ms (Some (i_committed_at r)))) rows\<rparr>)"

definition change_of :: "feed_row \<Rightarrow> change" where
  "change_of r = \<lparr>c_cursor = f_cursor r, c_incident_id = f_incident_id r,
     c_revision = f_revision r, c_transition = f_payload r,
     c_committed_at_ms = ms (Some (f_committed_at r))\<rparr>"

text \<open>
  Two statements outside a transaction: the oldest cursor is read from \<open>d1\<close>, the rows from \<open>d2\<close>.
\<close>

definition changes :: "int \<Rightarrow> nat \<Rightarrow> db \<Rightarrow> db \<Rightarrow> cursor_expired + batch" where
  "changes after limit d1 d2 =
     (let expired = (case min_cursor d1 of None \<Rightarrow> False | Some oldest \<Rightarrow> after < oldest - 1) in
      if expired then Inl Cursor_expired
      else let rows = take limit (sort_key f_cursor
                        (filter (\<lambda>r. after < f_cursor r) (incident_feed d2)));
               cs = map change_of rows
           in Inr \<lparr>b_changes = cs, b_cursor = (if cs \<noteq> [] then c_cursor (last cs) else after)\<rparr>)"

definition health_view_of :: "health_key \<times> health_row \<Rightarrow> health_view" where
  "health_view_of e = (case e of ((g, c, k), r) \<Rightarrow>
     \<lparr>v_gateway_id = g, v_component = c, v_kind = k, v_count = hr_count r,
      v_first_sequence = hr_first_sequence r, v_last_sequence = hr_last_sequence r,
      v_detail = hr_detail r, v_first_event_time_ms = ms (hr_first_event_time r),
      v_last_event_time_ms = ms (hr_last_event_time r),
      v_received_at_ms = ms (Some (hr_received_at r))\<rparr>)"

definition health :: "server \<Rightarrow> db \<Rightarrow> health_view list" where
  "health srv d = map health_view_of
     (sort_key (\<lambda>((g, c, k), r). (collate srv g, collate srv c, collate srv k)) (gateway_health d))"

section \<open>Endpoints\<close>

datatype response =
    Snapshot_response snapshot_view
  | Changes_response batch
  | Gone_response
  | Health_response "health_view list"
  | Unprocessable

definition get_incidents :: "server \<Rightarrow> bool \<Rightarrow> int \<Rightarrow> db \<Rightarrow> response" where
  "get_incidents srv active limit d =
     (if limit < 1 \<or> 5000 < limit then Unprocessable
      else Snapshot_response (snapshot srv active (nat limit) d))"

definition get_changes :: "int \<Rightarrow> int \<Rightarrow> db \<Rightarrow> db \<Rightarrow> response" where
  "get_changes after limit d1 d2 =
     (if after < 0 \<or> limit < 1 \<or> 5000 < limit then Unprocessable
      else case changes after (nat limit) d1 d2 of
             Inl _ \<Rightarrow> Gone_response
           | Inr b \<Rightarrow> Changes_response b)"

definition get_health :: "server \<Rightarrow> db \<Rightarrow> response" where
  "get_health srv d = Health_response (health srv d)"

section \<open>Live sessions\<close>

datatype ws_message =
    Ws_health "health_view list"
  | Ws_snapshot snapshot_view
  | Ws_reset
  | Ws_change change
  | Ws_live int
  | Ws_ping int

text \<open>
  A session's state: what was sent, and how many statements it has run; \<open>reads n\<close> is the
  database the \<open>n\<close>-th statement sees.
\<close>

record session =
  ws_sent :: "ws_message list"
  ws_reads :: nat

definition send_json :: "ws_message \<Rightarrow> session \<Rightarrow> session" where
  "send_json m s = s\<lparr>ws_sent := ws_sent s @ [m]\<rparr>"

definition send_health :: "server \<Rightarrow> (nat \<Rightarrow> db) \<Rightarrow> session \<Rightarrow> session" where
  "send_health srv reads s =
     send_json (Ws_health (health srv (reads (ws_reads s)))) (s\<lparr>ws_reads := Suc (ws_reads s)\<rparr>)"

definition send_snapshot :: "server \<Rightarrow> (nat \<Rightarrow> db) \<Rightarrow> session \<Rightarrow> int \<times> session" where
  "send_snapshot srv reads s =
     (let snap = snapshot srv False 500 (reads (ws_reads s))
      in (sn_cursor snap, send_json (Ws_snapshot snap) (s\<lparr>ws_reads := Suc (ws_reads s)\<rparr>)))"

partial_function (option) send_changes ::
  "server \<Rightarrow> (nat \<Rightarrow> db) \<Rightarrow> int \<Rightarrow> session \<Rightarrow> (int \<times> session) option" where
  "send_changes srv reads lastc s =
     (let n = ws_reads s in
      case changes lastc BATCH (reads n) (reads (Suc n)) of
        Inl _ \<Rightarrow> Some (send_snapshot srv reads (send_json Ws_reset (s\<lparr>ws_reads := Suc n\<rparr>)))
      | Inr b \<Rightarrow>
          (let s' = fold send_json (map Ws_change (b_changes b)) (s\<lparr>ws_reads := Suc (Suc n)\<rparr>) in
           if length (b_changes b) < BATCH then Some (b_cursor b, s')
           else send_changes srv reads (b_cursor b) s'))"

text \<open>What \<open>listener.notifies\<close> yields within one ping interval.\<close>

datatype wake = Notified string | Timed_out

definition live_step ::
  "server \<Rightarrow> (nat \<Rightarrow> db) \<Rightarrow> wake \<Rightarrow> int \<times> session \<Rightarrow> (int \<times> session) option" where
  "live_step srv reads w ls =
     (case ls of (lastc, s) \<Rightarrow>
      case w of
        Notified channel \<Rightarrow>
          if channel = FEED_CHANNEL then send_changes srv reads lastc s
          else Some (lastc, send_health srv reads s)
      | Timed_out \<Rightarrow> Some (lastc, send_json (Ws_ping lastc) s))"

fun live_loop ::
  "server \<Rightarrow> (nat \<Rightarrow> db) \<Rightarrow> wake list \<Rightarrow> int \<times> session \<Rightarrow> (int \<times> session) option" where
  "live_loop srv reads [] ls = Some ls"
| "live_loop srv reads (w # ws) ls =
     (case live_step srv reads w ls of None \<Rightarrow> None | Some ls' \<Rightarrow> live_loop srv reads ws ls')"

text \<open>\<open>live\<close>, up to the end of the list of wake-ups, where the client disconnects.\<close>

definition live ::
  "server \<Rightarrow> (nat \<Rightarrow> db) \<Rightarrow> int option \<Rightarrow> wake list \<Rightarrow> (int \<times> session) option" where
  "live srv reads after ws =
     (let s0 = send_health srv reads \<lparr>ws_sent = [], ws_reads = 0\<rparr> in
      case (case after of None \<Rightarrow> Some (send_snapshot srv reads s0)
                        | Some a \<Rightarrow> send_changes srv reads a s0) of
        None \<Rightarrow> None
      | Some (lastc, s) \<Rightarrow> live_loop srv reads ws (lastc, send_json (Ws_live lastc) s))"


section \<open>One batch\<close>


lemma feed_filter_sorted:
  "feed_inv d \<Longrightarrow> sorted_wrt (<) (map f_cursor (filter P (incident_feed d)))"
  by (auto simp: feed_inv_def sorted_wrt_map intro: sorted_wrt_filter_wrt)

lemma feed_sorted:
  assumes "feed_inv d"
  shows "sort_key f_cursor (filter P (incident_feed d)) = filter P (incident_feed d)"
proof (rule sort_key_id_if_sorted)
  show "sorted (map f_cursor (filter P (incident_feed d)))"
    using feed_filter_sorted [OF assms] by (rule strict_sorted_imp_sorted)
qed

text \<open>A batch is the next rows of the feed in cursor order, and its cursor the last of them.\<close>

lemma changes_ok:
  assumes "changes after limit d1 d2 = Inr b" and "feed_inv d2"
  shows "b_changes b = map change_of (take limit (filter (\<lambda>r. after < f_cursor r) (incident_feed d2)))"
    and "b_cursor b = (if b_changes b = [] then after else c_cursor (last (b_changes b)))"
    and "min_cursor d1 = Some m \<Longrightarrow> m - 1 \<le> after"
  using assms by (auto simp: changes_def feed_sorted Let_def split: if_splits option.splits)

lemma changes_expired:
  assumes "changes after limit d1 d2 = Inl e"
  shows "\<exists>m. min_cursor d1 = Some m \<and> after < m - 1"
  using assms by (auto simp: changes_def Let_def split: if_splits option.splits)

lemma fold_send_json:
  "fold send_json msgs s = s\<lparr>ws_sent := ws_sent s @ msgs\<rparr>"
  by (induction msgs arbitrary: s) (auto simp: send_json_def)

text \<open>The loop of \<open>send_changes\<close> ends with a short batch or with an expired cursor.\<close>

lemma send_changes_ends:
  assumes batch: "\<And>l s b. P l s \<Longrightarrow> changes l BATCH (reads (ws_reads s)) (reads (Suc (ws_reads s))) = Inr b \<Longrightarrow>
      P (b_cursor b) (fold send_json (map Ws_change (b_changes b)) (s\<lparr>ws_reads := Suc (Suc (ws_reads s))\<rparr>))"
    and result: "send_changes srv reads l s = Some ls" and init: "P l s"
  shows "\<exists>l0 s0. P l0 s0 \<and>
    ((\<exists>b. changes l0 BATCH (reads (ws_reads s0)) (reads (Suc (ws_reads s0))) = Inr b \<and>
        length (b_changes b) < BATCH \<and>
        ls = (b_cursor b, fold send_json (map Ws_change (b_changes b))
               (s0\<lparr>ws_reads := Suc (Suc (ws_reads s0))\<rparr>))) \<or>
     (\<exists>e. changes l0 BATCH (reads (ws_reads s0)) (reads (Suc (ws_reads s0))) = Inl e \<and>
        ls = send_snapshot srv reads (send_json Ws_reset (s0\<lparr>ws_reads := Suc (ws_reads s0)\<rparr>))))"
    (is "?Q ls")
proof (rule send_changes.raw_induct [where P = "\<lambda>srv' reads' l s ls. srv' = srv \<longrightarrow> reads' = reads \<longrightarrow>
    P l s \<longrightarrow> ?Q ls", OF _ result, rule_format, OF _ refl refl init])
  fix f srv' reads' l s ls
  assume IH: "\<And>srv' reads' l s ls. f srv' reads' l s = Some ls \<Longrightarrow> srv' = srv \<Longrightarrow> reads' = reads \<Longrightarrow>
      P l s \<Longrightarrow> ?Q ls"
    and eq: "(let n = ws_reads s in
        case changes l BATCH (reads' n) (reads' (Suc n)) of
          Inl _ \<Rightarrow> Some (send_snapshot srv' reads' (send_json Ws_reset (s\<lparr>ws_reads := Suc n\<rparr>)))
        | Inr b \<Rightarrow> let s' = fold send_json (map Ws_change (b_changes b)) (s\<lparr>ws_reads := Suc (Suc n)\<rparr>) in
            if length (b_changes b) < BATCH then Some (b_cursor b, s') else f srv' reads' (b_cursor b) s') = Some ls"
    and same: "srv' = srv" "reads' = reads" and "P l s"
  show "?Q ls"
  proof (cases "changes l BATCH (reads (ws_reads s)) (reads (Suc (ws_reads s)))")
    case (Inl e)
    with eq same \<open>P l s\<close> show ?thesis by (auto simp: Let_def)
  next
    case (Inr b)
    show ?thesis
    proof (cases "length (b_changes b) < BATCH")
      case True
      with Inr eq same \<open>P l s\<close> show ?thesis by (auto simp: Let_def)
    next
      case False
      with Inr eq same have "f srv reads (b_cursor b) (fold send_json (map Ws_change (b_changes b))
          (s\<lparr>ws_reads := Suc (Suc (ws_reads s))\<rparr>)) = Some ls" by (simp add: Let_def)
      from IH [OF this refl refl batch [OF \<open>P l s\<close> Inr]] show ?thesis .
    qed
  qed
qed

lemma send_changes_cases:
  assumes "send_changes srv reads l s = Some ls" and "P l s"
    and "\<And>l s b. P l s \<Longrightarrow> changes l BATCH (reads (ws_reads s)) (reads (Suc (ws_reads s))) = Inr b \<Longrightarrow>
      P (b_cursor b) (fold send_json (map Ws_change (b_changes b)) (s\<lparr>ws_reads := Suc (Suc (ws_reads s))\<rparr>))"
  obtains (caught_up) l0 s0 b where "P l0 s0"
      "changes l0 BATCH (reads (ws_reads s0)) (reads (Suc (ws_reads s0))) = Inr b"
      "length (b_changes b) < BATCH"
      "ls = (b_cursor b, fold send_json (map Ws_change (b_changes b))
         (s0\<lparr>ws_reads := Suc (Suc (ws_reads s0))\<rparr>))"
  | (expired) l0 s0 e where "P l0 s0"
      "changes l0 BATCH (reads (ws_reads s0)) (reads (Suc (ws_reads s0))) = Inl e"
      "ls = send_snapshot srv reads (send_json Ws_reset (s0\<lparr>ws_reads := Suc (ws_reads s0)\<rparr>))"
proof -
  have "\<exists>l0 s0. P l0 s0 \<and>
    ((\<exists>b. changes l0 BATCH (reads (ws_reads s0)) (reads (Suc (ws_reads s0))) = Inr b \<and>
        length (b_changes b) < BATCH \<and>
        ls = (b_cursor b, fold send_json (map Ws_change (b_changes b))
               (s0\<lparr>ws_reads := Suc (Suc (ws_reads s0))\<rparr>))) \<or>
     (\<exists>e. changes l0 BATCH (reads (ws_reads s0)) (reads (Suc (ws_reads s0))) = Inl e \<and>
        ls = send_snapshot srv reads (send_json Ws_reset (s0\<lparr>ws_reads := Suc (ws_reads s0)\<rparr>))))"
    by (rule send_changes_ends [where P = P, OF _ assms(1,2)]) (rule assms(3))
  then show thesis using caught_up expired by blast
qed

lemma sorted_by_cursor_unique:
  assumes "set xs = set ys"
    and "sorted_wrt (<) (map f_cursor xs)" and "sorted_wrt (<) (map f_cursor ys)"
  shows "xs = ys"
proof (rule map_sorted_distinct_set_unique)
  show "inj_on f_cursor (set xs \<union> set ys)"
    using assms(1,2) by (simp add: strict_sorted_iff distinct_map)
qed (use assms in \<open>simp_all add: strict_sorted_iff\<close>)

section \<open>What the API relies on\<close>

text \<open>
  How the feed may change between two reads: cursors of new rows exceed every value the sequence
  had given out, rows may be pruned. \<open>feed_reads\<close> is the contract the projector promises to a
  session; \<open>append_reads\<close> adds that nothing is pruned while the session reads.
\<close>

definition evolves :: "db \<Rightarrow> db \<Rightarrow> bool" where
  "evolves d d' \<longleftrightarrow> feed_seq d \<le> feed_seq d' \<and>
     (\<forall>r \<in> set (incident_feed d'). r \<in> set (incident_feed d) \<or> feed_seq d < f_cursor r)"

lemma evolves_refl: "evolves d d"
  by (simp add: evolves_def)

lemma evolves_trans: "evolves a b \<Longrightarrow> evolves b c \<Longrightarrow> evolves a c"
  by (fastforce simp: evolves_def)

text \<open>The cursors of the changes a session has sent.\<close>

fun change_cursor :: "ws_message \<Rightarrow> int list" where
  "change_cursor (Ws_change c) = [c_cursor c]"
| "change_cursor _ = []"

definition sent_cursors :: "session \<Rightarrow> int list" where
  "sent_cursors s = concat (map change_cursor (ws_sent s))"

lemma sent_cursors_simps [simp]:
  "sent_cursors (send_json m s) = sent_cursors s @ change_cursor m"
  "sent_cursors (s\<lparr>ws_reads := n\<rparr>) = sent_cursors s"
  "ws_reads (send_json m s) = ws_reads s"
  by (simp_all add: sent_cursors_def send_json_def)

lemma sent_cursors_fold [simp]:
  "sent_cursors (fold send_json (map Ws_change cs) s) = sent_cursors s @ map c_cursor cs"
  "ws_reads (fold send_json msgs s) = ws_reads s"
  by (simp_all add: fold_send_json sent_cursors_def comp_def)

lemma send_snapshot_frame [simp]:
  "sent_cursors (snd (send_snapshot srv reads s)) = sent_cursors s"
  "ws_reads (snd (send_snapshot srv reads s)) = Suc (ws_reads s)"
  "fst (send_snapshot srv reads s) = max_cursor (reads (ws_reads s))"
  by (simp_all add: send_snapshot_def snapshot_def Let_def)

lemma send_health_frame [simp]:
  "sent_cursors (send_health srv reads s) = sent_cursors s"
  "ws_reads (send_health srv reads s) = Suc (ws_reads s)"
  by (simp_all add: send_health_def)

text \<open>
  The session invariant: cursors went out in increasing order, none beyond what the sequence has
  given, and every row that can still be sent is newer than all of them.
\<close>

definition in_order :: "(nat \<Rightarrow> db) \<Rightarrow> int \<times> session \<Rightarrow> bool" where
  "in_order reads ls \<longleftrightarrow> sorted_wrt (<) (sent_cursors (snd ls)) \<and>
     (\<forall>c \<in> set (sent_cursors (snd ls)). c \<le> feed_seq (reads (ws_reads (snd ls))) \<and>
        (\<forall>m \<ge> ws_reads (snd ls). \<forall>r \<in> set (incident_feed (reads m)). fst ls < f_cursor r \<longrightarrow> c < f_cursor r))"

lemma in_orderD:
  assumes "in_order reads (l, s)"
  shows "sorted_wrt (<) (sent_cursors s)"
    and "c \<in> set (sent_cursors s) \<Longrightarrow> c \<le> feed_seq (reads (ws_reads s))"
    and "c \<in> set (sent_cursors s) \<Longrightarrow> ws_reads s \<le> m \<Longrightarrow> r \<in> set (incident_feed (reads m)) \<Longrightarrow>
      l < f_cursor r \<Longrightarrow> c < f_cursor r"
  using assms by (simp_all add: in_order_def)

lemma in_orderI:
  assumes "sorted_wrt (<) (sent_cursors s)"
    and "\<And>c. c \<in> set (sent_cursors s) \<Longrightarrow> c \<le> feed_seq (reads (ws_reads s))"
    and "\<And>c m r. c \<in> set (sent_cursors s) \<Longrightarrow> ws_reads s \<le> m \<Longrightarrow> r \<in> set (incident_feed (reads m)) \<Longrightarrow>
      l < f_cursor r \<Longrightarrow> c < f_cursor r"
  shows "in_order reads (l, s)"
  using assms by (simp add: in_order_def)

locale feed_reads =
  fixes reads :: "nat \<Rightarrow> db"
  assumes inv: "feed_inv (reads n)"
    and step: "evolves (reads n) (reads (Suc n))"
begin

lemma evolves_reads: "m \<le> n \<Longrightarrow> evolves (reads m) (reads n)"
  by (induction n) (auto simp: le_Suc_eq evolves_refl intro: evolves_trans step)

lemma cursor_le_seq: "r \<in> set (incident_feed (reads n)) \<Longrightarrow> f_cursor r \<le> feed_seq (reads n)"
  using inv by (simp add: feed_inv_def)

lemma seq_mono: "m \<le> n \<Longrightarrow> feed_seq (reads m) \<le> feed_seq (reads n)"
  using evolves_reads by (simp add: evolves_def)

lemma in_order_later:
  assumes "in_order reads (l, s)" and "sent_cursors s' = sent_cursors s" and "ws_reads s \<le> ws_reads s'"
  shows "in_order reads (l, s')"
proof (rule in_orderI)
  fix c m r
  assume "c \<in> set (sent_cursors s')" "ws_reads s' \<le> m" "r \<in> set (incident_feed (reads m))"
    "l < f_cursor r"
  with assms show "c < f_cursor r" by (intro in_orderD(3) [OF assms(1), of c m r]) auto
qed (use assms in_orderD(1,2) [OF assms(1)] seq_mono [OF assms(3)] in \<open>auto intro: order_trans\<close>)

lemma in_order_snapshot:
  assumes "in_order reads (l, s)" and "ws_reads s \<le> ws_reads s0" and "sent_cursors s0 = sent_cursors s"
  shows "in_order reads (send_snapshot srv reads s0)"
proof -
  let ?n = "ws_reads s0"
  have le: "c \<le> feed_seq (reads ?n)" if "c \<in> set (sent_cursors s0)" for c
    using assms that seq_mono [OF assms(2)] by (force simp: in_order_def)
  have "c < f_cursor r"
    if "c \<in> set (sent_cursors s0)" "Suc ?n \<le> m" "r \<in> set (incident_feed (reads m))"
      "max_cursor (reads ?n) < f_cursor r" for c m r
  proof -
    have "r \<notin> set (incident_feed (reads ?n))"
    proof
      assume "r \<in> set (incident_feed (reads ?n))"
      then have "f_cursor r \<le> max_cursor (reads ?n)" by (auto simp: max_cursor_def)
      with that(4) show False by simp
    qed
    with evolves_reads [of ?n m] that(2,3) have "feed_seq (reads ?n) < f_cursor r"
      by (auto simp: evolves_def)
    with le [OF that(1)] show ?thesis by simp
  qed
  moreover have "c \<le> feed_seq (reads (Suc ?n))" if "c \<in> set (sent_cursors s0)" for c
    using le [OF that] seq_mono [of ?n "Suc ?n"] by simp
  ultimately show ?thesis
    using assms(1,3) by (auto simp: in_order_def)
qed

lemma batch_in_order:
  assumes ord: "in_order reads (l, s)"
    and ch: "changes l limit (reads (ws_reads s)) (reads (Suc (ws_reads s))) = Inr b"
  shows "in_order reads (b_cursor b, fold send_json (map Ws_change (b_changes b))
     (s\<lparr>ws_reads := Suc (Suc (ws_reads s))\<rparr>))"
proof -
  let ?n = "ws_reads s" and ?new = "map c_cursor (b_changes b)"
  let ?rows = "take limit (filter (\<lambda>r. l < f_cursor r) (incident_feed (reads (Suc ?n))))"
  have rows: "b_changes b = map change_of ?rows"
    using ch inv by (rule changes_ok)
  then have new: "?new = map f_cursor ?rows" by (simp add: change_of_def)
  have mem: "\<exists>r \<in> set (incident_feed (reads (Suc ?n))). c = f_cursor r \<and> l < f_cursor r"
    if "c \<in> set ?new" for c
    using that new by (auto dest!: in_set_takeD)
  have gt: "c < c'" if "c \<in> set (sent_cursors s)" "c' \<in> set ?new" for c c'
    using mem [OF that(2)] in_orderD(3) [OF ord that(1), of "Suc ?n"] by auto
  have sorted: "sorted_wrt (<) ?new"
    using inv [of "Suc ?n"] unfolding new feed_inv_def sorted_wrt_map take_map
    by (intro sorted_wrt_take sorted_wrt_filter_wrt) auto
  have last: "c \<le> b_cursor b" if "c \<in> set ?new" for c
  proof -
    have "b_cursor b = last ?new"
      using that changes_ok(2) [OF ch inv] by (auto simp: last_map)
    with sorted_wrt_le_last [OF sorted that] show ?thesis by simp
  qed
  have "c \<le> feed_seq (reads (Suc (Suc ?n)))" if "c \<in> set (sent_cursors s @ ?new)" for c
  proof (cases "c \<in> set ?new")
    case True
    with mem cursor_le_seq seq_mono [of "Suc ?n" "Suc (Suc ?n)"] show ?thesis by fastforce
  next
    case False
    with that in_orderD(2) [OF ord, of c] seq_mono [of ?n "Suc (Suc ?n)"] show ?thesis by auto
  qed
  moreover have "c < f_cursor r"
    if "c \<in> set (sent_cursors s @ ?new)" "Suc (Suc ?n) \<le> m" "r \<in> set (incident_feed (reads m))"
      "b_cursor b < f_cursor r" for c m r
  proof (cases "c \<in> set ?new")
    case True
    with last that(4) show ?thesis by force
  next
    case False
    have "l \<le> b_cursor b"
    proof (cases "b_changes b")
      case Nil
      then show ?thesis using changes_ok(2) [OF ch inv] by simp
    next
      case (Cons x xs)
      then have "c_cursor x \<in> set ?new" by simp
      from last [OF this] mem [OF this] show ?thesis by auto
    qed
    with False that show ?thesis by (intro in_orderD(3) [OF ord, of c m r]) auto
  qed
  moreover have "sorted_wrt (<) (sent_cursors s @ ?new)"
    using ord sorted gt by (auto simp: in_order_def sorted_wrt_append)
  ultimately show ?thesis by (simp add: in_order_def)
qed


lemma send_changes_in_order:
  assumes "send_changes srv reads l s = Some ls" and "in_order reads (l, s)"
  shows "in_order reads ls"
proof (rule send_changes_cases [where P = "\<lambda>l s. in_order reads (l, s)", OF assms])
  fix l0 s0 e
  assume "in_order reads (l0, s0)"
    "ls = send_snapshot srv reads (send_json Ws_reset (s0\<lparr>ws_reads := Suc (ws_reads s0)\<rparr>))"
  then show "in_order reads ls" by (auto intro: in_order_snapshot)
qed (simp_all add: batch_in_order)

text \<open>Catching up ends while the sequence stays bounded: a full batch advances the cursor.\<close>

lemma send_changes_returns:
  assumes "\<And>n. feed_seq (reads n) \<le> N"
  shows "\<exists>ls. send_changes srv reads l s = Some ls"
proof (induction "nat (N - l)" arbitrary: l s rule: less_induct)
  case less
  let ?n = "ws_reads s"
  show ?case
  proof (cases "changes l BATCH (reads ?n) (reads (Suc ?n))")
    case (Inl e)
    then show ?thesis by (simp add: send_changes.simps [of srv reads l s] Let_def)
  next
    case (Inr b)
    let ?s = "fold send_json (map Ws_change (b_changes b)) (s\<lparr>ws_reads := Suc (Suc ?n)\<rparr>)"
    show ?thesis
    proof (cases "length (b_changes b) < BATCH")
      case True
      with Inr show ?thesis by (simp add: send_changes.simps [of srv reads l s] Let_def)
    next
      case False
      let ?rows = "take BATCH (filter (\<lambda>r. l < f_cursor r) (incident_feed (reads (Suc ?n))))"
      from False have "?rows \<noteq> []" using changes_ok(1) [OF Inr inv] by (auto simp: BATCH_def)
      then have "last ?rows \<in> set (incident_feed (reads (Suc ?n)))" "l < f_cursor (last ?rows)"
        using in_set_takeD [OF last_in_set [of ?rows]] by simp_all
      moreover have "b_cursor b = f_cursor (last ?rows)"
        using changes_ok(1,2) [OF Inr inv] \<open>?rows \<noteq> []\<close> by (simp add: last_map change_of_def)
      ultimately have "l < b_cursor b" "b_cursor b \<le> N"
        using cursor_le_seq [of "last ?rows" "Suc ?n"] assms [of "Suc ?n"] by auto
      then have "nat (N - b_cursor b) < nat (N - l)" by simp
      from less [OF this, of ?s] Inr False show ?thesis
        by (simp add: send_changes.simps [of srv reads l s] Let_def)
    qed
  qed
qed

lemma live_step_in_order:
  assumes "live_step srv reads w ls = Some ls'" and "in_order reads ls"
  shows "in_order reads ls'"
  using assms send_changes_in_order
  by (cases ls) (auto simp: live_step_def intro: in_order_later split: wake.splits if_splits)

lemma live_loop_in_order:
  "live_loop srv reads ws ls = Some ls' \<Longrightarrow> in_order reads ls \<Longrightarrow> in_order reads ls'"
  by (induction ws arbitrary: ls) (auto intro: live_step_in_order split: option.splits)

lemma live_in_order:
  assumes "live srv reads after ws = Some (l, s)"
  shows "sorted_wrt (<) (sent_cursors s)"
proof -
  let ?s0 = "send_health srv reads \<lparr>ws_sent = [], ws_reads = 0\<rparr>"
  have new: "in_order reads (a, ?s0)" for a
    by (rule in_orderI) (simp_all add: sent_cursors_def send_health_def send_json_def)
  obtain l0 s0 where first: "(case after of None \<Rightarrow> Some (send_snapshot srv reads ?s0)
      | Some a \<Rightarrow> send_changes srv reads a ?s0) = Some (l0, s0)"
    and loop: "live_loop srv reads ws (l0, send_json (Ws_live l0) s0) = Some (l, s)"
    using assms by (auto simp: live_def Let_def split: option.splits prod.splits)
  have "in_order reads (l0, s0)"
    using first in_order_snapshot [OF new order_refl refl] send_changes_in_order [OF _ new]
    by (auto split: option.splits) metis
  then have "in_order reads (l0, send_json (Ws_live l0) s0)"
    by (rule in_order_later) simp_all
  from in_orderD(1) [OF live_loop_in_order [OF loop this]] show ?thesis .
qed

end

section \<open>The projector keeps the contract\<close>

text \<open>
  The writes the projector makes, the tables after the first \<open>n\<close> of them at the server times
  \<open>stamp\<close>, and a session's reads: between statement \<open>n - 1\<close> and statement \<open>n\<close> the projector
  makes \<open>gap n\<close> writes.
\<close>

datatype feed_write =
    Write_transition detection_transition
  | Write_health health_event
  | Write_prune int
  | Write_burn

fun perform :: "timestamptz \<Rightarrow> feed_write \<Rightarrow> db \<Rightarrow> db" where
  "perform now (Write_transition t) d = snd (apply_transition now t d)"
| "perform now (Write_health h) d = snd (apply_health now h d)"
| "perform now (Write_prune older) d = snd (prune_feed now older d)"
| "perform now Write_burn d = burn_cursor d"

primrec history :: "(nat \<Rightarrow> timestamptz) \<Rightarrow> (nat \<Rightarrow> feed_write) \<Rightarrow> nat \<Rightarrow> db" where
  "history stamp ws 0 = empty_db"
| "history stamp ws (Suc n) = perform (stamp n) (ws n) (history stamp ws n)"

definition session_reads ::
  "(nat \<Rightarrow> timestamptz) \<Rightarrow> (nat \<Rightarrow> feed_write) \<Rightarrow> (nat \<Rightarrow> nat) \<Rightarrow> nat \<Rightarrow> db" where
  "session_reads stamp ws gap n = history stamp ws (\<Sum>i\<le>n. gap i)"

lemma perform_inv: "db_inv d \<Longrightarrow> db_inv (perform now w d)"
  by (cases w) (auto intro: inv_intros)

lemma history_inv: "db_inv (history stamp ws n)"
  by (induction n) (auto intro: db_inv_empty perform_inv)

lemma apply_health_feed [simp]:
  "incident_feed (snd (apply_health now h d)) = incident_feed d"
  "feed_seq (snd (apply_health now h d)) = feed_seq d"
  by (auto simp: apply_health_def notify_def dest!: upsert_health_cases
      split: sum.splits option.splits)

lemma write_transition_feed:
  "incident_feed (snd (apply_transition now t d)) = incident_feed d \<and>
     feed_seq (snd (apply_transition now t d)) = feed_seq d \<or>
   incident_feed (snd (apply_transition now t d)) = incident_feed d @ [feed_row_of (feed_seq d + 1) now t] \<and>
     feed_seq (snd (apply_transition now t d)) = feed_seq d + 1"
  by (cases "apply_transition now t d")
    (auto elim!: apply_transition_cases simp: committed_tables)

lemma perform_evolves: "evolves d (perform now w d)"
proof (cases w)
  case (Write_transition t)
  then show ?thesis
    using write_transition_feed [of now t d] by (auto simp: evolves_def feed_row_of_def)
qed (auto simp: evolves_def prune_feed_def burn_cursor_def Let_def)

lemma history_evolves: "m \<le> n \<Longrightarrow> evolves (history stamp ws m) (history stamp ws n)"
  by (induction n) (auto simp: le_Suc_eq evolves_refl intro: evolves_trans perform_evolves)

interpretation session: feed_reads "session_reads stamp ws gap"
  for stamp :: "nat \<Rightarrow> timestamptz" and ws gap
proof
  show "feed_inv (session_reads stamp ws gap n)" for n
    using history_inv [of stamp ws] by (simp add: session_reads_def db_inv_def)
  show "evolves (session_reads stamp ws gap n) (session_reads stamp ws gap (Suc n))" for n
    unfolding session_reads_def by (rule history_evolves) simp
qed

section \<open>Completeness\<close>

text \<open>What has been sent so far is the feed between the first and the current cursor.\<close>

definition caught :: "(nat \<Rightarrow> db) \<Rightarrow> int \<Rightarrow> session \<Rightarrow> int \<Rightarrow> session \<Rightarrow> bool" where
  "caught reads a s l s' \<longleftrightarrow> a \<le> l \<and> ws_reads s \<le> ws_reads s' \<and>
     (l = a \<or> l \<le> feed_seq (reads (ws_reads s'))) \<and>
     ws_sent s' = ws_sent s @ map Ws_change (map change_of
       (filter (\<lambda>r. a < f_cursor r \<and> f_cursor r \<le> l) (incident_feed (reads (ws_reads s')))))"

locale append_reads = feed_reads +
  assumes keep: "set (incident_feed (reads n)) \<subseteq> set (incident_feed (reads (Suc n)))"
begin

lemma keep_reads: "m \<le> n \<Longrightarrow> set (incident_feed (reads m)) \<subseteq> set (incident_feed (reads n))"
  by (induction n) (use keep in \<open>auto simp: le_Suc_eq\<close>)

text \<open>The rows between two cursors are the same in every later read once the upper one was seen.\<close>

lemma rows_between:
  assumes "m \<le> n" and "u \<le> feed_seq (reads m)"
  shows "filter (\<lambda>r. l < f_cursor r \<and> f_cursor r \<le> u) (incident_feed (reads n)) =
    filter (\<lambda>r. l < f_cursor r \<and> f_cursor r \<le> u) (incident_feed (reads m))"
    (is "filter ?P _ = _")
proof -
  have "set (filter ?P (incident_feed (reads n))) = set (filter ?P (incident_feed (reads m)))"
    using keep_reads [OF assms(1)] evolves_reads [OF assms(1)] assms(2)
    by (force simp: evolves_def)
  then show ?thesis by (rule sorted_by_cursor_unique) (simp_all add: feed_filter_sorted inv)
qed

lemma min_cursor_kept:
  assumes "min_cursor (reads m) = Some c" and "m \<le> n"
  shows "min_cursor (reads n) = Some c"
proof -
  let ?F = "\<lambda>k. f_cursor ` set (incident_feed (reads k))"
  have c: "c \<in> ?F m" "\<forall>x \<in> ?F m. c \<le> x"
    using assms(1) by (auto simp: min_cursor_def simp flip: set_map split: if_splits)
  have "\<forall>x \<in> ?F n. c \<le> x"
    using evolves_reads [OF assms(2)] c cursor_le_seq by (fastforce simp: evolves_def)
  moreover have "c \<in> ?F n" using keep_reads [OF assms(2)] c(1) by blast
  ultimately have "Min (?F n) = c" by (intro Min_eqI) auto
  with \<open>c \<in> ?F n\<close> show ?thesis by (auto simp: min_cursor_def)
qed

lemma caught_refl: "caught reads a s a s"
  by (auto simp: caught_def filter_False)

lemma batch_rows:
  assumes "changes l BATCH d1 (reads n) = Inr b"
  shows "b_changes b = map change_of
      (filter (\<lambda>r. l < f_cursor r \<and> f_cursor r \<le> b_cursor b) (incident_feed (reads n)))"
    and "l \<le> b_cursor b" and "b_cursor b = l \<or> b_cursor b \<le> feed_seq (reads n)"
    and "length (b_changes b) < BATCH \<Longrightarrow>
      filter (\<lambda>r. b_cursor b < f_cursor r) (incident_feed (reads n)) = []"
proof -
  let ?ys = "filter (\<lambda>r. l < f_cursor r) (incident_feed (reads n))"
  have b: "b_changes b = map change_of (take BATCH ?ys)" using assms inv by (rule changes_ok)
  have cur: "b_cursor b = (if take BATCH ?ys = [] then l else f_cursor (last (take BATCH ?ys)))"
    using changes_ok(2) [OF assms inv] b by (auto simp: last_map change_of_def)
  have mem: "last (take BATCH ?ys) \<in> set (incident_feed (reads n)) \<and> l < f_cursor (last (take BATCH ?ys))"
    if "take BATCH ?ys \<noteq> []"
    using in_set_takeD [OF last_in_set [OF that]] by simp
  have sorted: "sorted_wrt (<) (map f_cursor ?ys)" by (simp add: feed_filter_sorted inv)
  have pre: "take BATCH ?ys = filter (\<lambda>r. f_cursor r \<le> b_cursor b) ?ys"
    using take_by_last [OF sorted, of BATCH] cur
    by (auto simp: filter_empty_conv BATCH_def split: if_splits)
  then show "b_changes b = map change_of
      (filter (\<lambda>r. l < f_cursor r \<and> f_cursor r \<le> b_cursor b) (incident_feed (reads n)))"
    using b by (simp add: conj_commute)
  show "l \<le> b_cursor b" "b_cursor b = l \<or> b_cursor b \<le> feed_seq (reads n)"
    using cur cursor_le_seq [of "last (take BATCH ?ys)" n] mem by auto
  assume "length (b_changes b) < BATCH"
  then have "take BATCH ?ys = ?ys" using b by simp
  then have "\<forall>r \<in> set ?ys. f_cursor r \<le> b_cursor b" using pre by (metis filter_id_conv)
  with \<open>l \<le> b_cursor b\<close> show "filter (\<lambda>r. b_cursor b < f_cursor r) (incident_feed (reads n)) = []"
    by (fastforce simp: filter_empty_conv)
qed

lemma caught_batch:
  assumes "caught reads a s l s'"
    and "changes l BATCH (reads (ws_reads s')) (reads (Suc (ws_reads s'))) = Inr b"
  shows "caught reads a s (b_cursor b) (fold send_json (map Ws_change (b_changes b))
     (s'\<lparr>ws_reads := Suc (Suc (ws_reads s'))\<rparr>))"
proof -
  let ?n = "ws_reads s'" and ?c = "b_cursor b"
  let ?F = "\<lambda>k. incident_feed (reads k)"
  note b = batch_rows [OF assms(2)]
  have "filter (\<lambda>r. a < f_cursor r \<and> f_cursor r \<le> l) (?F ?n) =
      filter (\<lambda>r. a < f_cursor r \<and> f_cursor r \<le> l) (?F (Suc ?n))"
    using assms(1) rows_between [of ?n "Suc ?n" l a] by (auto simp: caught_def filter_False)
  moreover have "filter (\<lambda>r. a < f_cursor r \<and> f_cursor r \<le> ?c) (?F (Suc ?n)) =
      filter (\<lambda>r. a < f_cursor r \<and> f_cursor r \<le> l) (?F (Suc ?n)) @
      filter (\<lambda>r. l < f_cursor r \<and> f_cursor r \<le> ?c) (?F (Suc ?n))"
    using assms(1) b(2) feed_filter_sorted [OF inv, of "\<lambda>_. True" "Suc ?n"]
    by (intro filter_between) (simp_all add: caught_def)
  moreover have "?c = a \<or> ?c \<le> feed_seq (reads (Suc ?n))"
    using assms(1) b(3) seq_mono [of ?n "Suc ?n"] by (auto simp: caught_def)
  moreover from this have "filter (\<lambda>r. a < f_cursor r \<and> f_cursor r \<le> ?c) (?F (Suc (Suc ?n))) =
      filter (\<lambda>r. a < f_cursor r \<and> f_cursor r \<le> ?c) (?F (Suc ?n))"
    using rows_between [of "Suc ?n" "Suc (Suc ?n)" ?c a] by (auto simp: filter_False)
  ultimately show ?thesis
    using assms(1) b(1,2) seq_mono [of "Suc ?n" "Suc (Suc ?n)"]
    by (auto simp: caught_def fold_send_json)
qed

text \<open>
  A catch-up from cursor \<open>a\<close> ends with every row after \<open>a\<close> sent, as of the last read, or with a
  reset and a snapshot; only the former when \<open>a\<close> is not below the oldest retained cursor.
\<close>

lemma send_changes_complete:
  assumes "send_changes srv reads a s = Some (l, s')"
  shows "(let F = incident_feed (reads (ws_reads s' - 1)) in
      ws_sent s' = ws_sent s @ map Ws_change (map change_of (filter (\<lambda>r. a < f_cursor r) F)) \<and>
      (\<forall>r \<in> set F. f_cursor r \<le> l) \<and> a \<le> l) \<or>
    (\<exists>cs. let snap = snapshot srv False 500 (reads (ws_reads s' - 1)) in
      ws_sent s' = ws_sent s @ map Ws_change cs @ [Ws_reset, Ws_snapshot snap] \<and> l = sn_cursor snap \<and>
      (\<forall>m. min_cursor (reads (ws_reads s)) = Some m \<longrightarrow> a < m - 1))"
proof (rule send_changes_cases [where P = "caught reads a s", OF assms caught_refl caught_batch])
  fix l0 s0 b
  assume c0: "caught reads a s l0 s0"
    and ch: "changes l0 BATCH (reads (ws_reads s0)) (reads (Suc (ws_reads s0))) = Inr b"
    and short: "length (b_changes b) < BATCH"
    and ls: "(l, s') = (b_cursor b, fold send_json (map Ws_change (b_changes b))
         (s0\<lparr>ws_reads := Suc (Suc (ws_reads s0))\<rparr>))"
  let ?F = "incident_feed (reads (Suc (ws_reads s0)))"
  have none: "\<forall>r \<in> set ?F. f_cursor r \<le> l"
    using batch_rows(4) [OF ch short] ls by (auto simp: filter_empty_conv)
  have now: "caught reads a s l s'" using caught_batch [OF c0 ch] ls by simp
  have r': "ws_reads s' = Suc (Suc (ws_reads s0))" using ls by simp
  have "filter (\<lambda>r. a < f_cursor r \<and> f_cursor r \<le> l) (incident_feed (reads (ws_reads s'))) =
      filter (\<lambda>r. a < f_cursor r \<and> f_cursor r \<le> l) ?F"
    using rows_between [of "Suc (ws_reads s0)" "ws_reads s'" l a] c0 batch_rows(3) [OF ch] ls r'
      seq_mono [of "ws_reads s0" "Suc (ws_reads s0)"]
    by (auto simp: caught_def filter_False)
  moreover have "filter (\<lambda>r. a < f_cursor r \<and> f_cursor r \<le> l) ?F = filter (\<lambda>r. a < f_cursor r) ?F"
    using none by (intro filter_cong) auto
  ultimately show ?thesis
    using now none r' by (simp add: caught_def Let_def)
next
  fix l0 s0 e
  assume c0: "caught reads a s l0 s0"
    and ch: "changes l0 BATCH (reads (ws_reads s0)) (reads (Suc (ws_reads s0))) = Inl e"
    and ls: "(l, s') = send_snapshot srv reads (send_json Ws_reset (s0\<lparr>ws_reads := Suc (ws_reads s0)\<rparr>))"
  have "a < m - 1" if "min_cursor (reads (ws_reads s)) = Some m" for m
    using changes_expired [OF ch] min_cursor_kept [OF that, of "ws_reads s0"] c0
    by (auto simp: caught_def)
  moreover obtain cs where "ws_sent s0 = ws_sent s @ map Ws_change cs"
    using c0 by (auto simp: caught_def simp del: map_map)
  ultimately show ?thesis
    using ls by (intro disjI2 exI [of _ cs]) (auto simp: send_snapshot_def Let_def send_json_def)
qed

end

text \<open>Sessions during which the projector does not prune: the first \<open>k\<close> writes precede the session.\<close>

definition unpruned :: "nat \<Rightarrow> (nat \<Rightarrow> feed_write) \<Rightarrow> nat \<Rightarrow> feed_write" where
  "unpruned k ws n = (case ws n of Write_prune older \<Rightarrow> if n < k then ws n else Write_burn | _ \<Rightarrow> ws n)"

lemma perform_keeps:
  "\<forall>older. w \<noteq> Write_prune older \<Longrightarrow> set (incident_feed d) \<subseteq> set (incident_feed (perform now w d))"
proof (cases w)
  case (Write_transition t)
  then show ?thesis using write_transition_feed [of now t d] by auto
qed (auto simp: burn_cursor_def)

lemma history_keeps:
  assumes "k \<le> m" and "m \<le> n"
  shows "set (incident_feed (history stamp (unpruned k ws) m)) \<subseteq>
    set (incident_feed (history stamp (unpruned k ws) n))"
  using assms(2)
proof (induction n rule: dec_induct)
  case (step n)
  have "\<forall>older. unpruned k ws n \<noteq> Write_prune older"
    using assms(1) step.hyps by (auto simp: unpruned_def split: feed_write.splits)
  from perform_keeps [OF this] step.IH show ?case by fastforce
qed simp

interpretation quiet: append_reads "session_reads stamp (unpruned k ws) (gap(0 := k + gap 0))"
  for stamp :: "nat \<Rightarrow> timestamptz" and k ws gap
proof
  show "set (incident_feed (session_reads stamp (unpruned k ws) (gap(0 := k + gap 0)) n)) \<subseteq>
      set (incident_feed (session_reads stamp (unpruned k ws) (gap(0 := k + gap 0)) (Suc n)))" for n
  proof -
    have "(\<Sum>i\<le>n. (gap(0 := k + gap 0)) i) \<ge> (gap(0 := k + gap 0)) 0"
      by (rule member_le_sum) auto
    then show ?thesis unfolding session_reads_def by (intro history_keeps) auto
  qed
qed

section \<open>Retention\<close>

text \<open>
  Server times do not go back, so pruning removes a prefix of the feed: every row ever committed
  is still there or older than all that are.
\<close>

definition ever :: "(nat \<Rightarrow> timestamptz) \<Rightarrow> (nat \<Rightarrow> feed_write) \<Rightarrow> nat \<Rightarrow> feed_row set" where
  "ever stamp ws n = (\<Union>m \<le> n. set (incident_feed (history stamp ws m)))"

lemma ever_Suc: "ever stamp ws (Suc n) = ever stamp ws n \<union> set (incident_feed (history stamp ws (Suc n)))"
  by (simp add: ever_def atMost_Suc Un_commute)

lemma history_seq: "r \<in> ever stamp ws n \<Longrightarrow> f_cursor r \<le> feed_seq (history stamp ws n)"
proof -
  assume "r \<in> ever stamp ws n"
  then obtain m where "m \<le> n" "r \<in> set (incident_feed (history stamp ws m))" by (auto simp: ever_def)
  with history_inv [of stamp ws m] history_evolves [of m n stamp ws] show ?thesis
    by (force simp: db_inv_def feed_inv_def evolves_def)
qed

lemma feed_subset_ever: "set (incident_feed (history stamp ws n)) \<subseteq> ever stamp ws n"
  by (auto simp: ever_def)

lemma perform_feed_cases:
  assumes "r \<in> set (incident_feed (perform now w d))"
  obtains (old) "r \<in> set (incident_feed d)" | (new) "f_cursor r = feed_seq d + 1" "f_committed_at r = now"
proof (cases w)
  case (Write_transition t)
  then show thesis
    using assms write_transition_feed [of now t d] old new by (auto simp: feed_row_of_def)
qed (use assms old in \<open>auto simp: prune_feed_def burn_cursor_def Let_def\<close>)

lemma committed_in_order:
  assumes "mono stamp"
  shows "\<forall>r \<in> ever stamp ws n. f_committed_at r \<le> stamp n"
    and "\<forall>r \<in> ever stamp ws n. \<forall>q \<in> ever stamp ws n. f_cursor q \<le> f_cursor r \<longrightarrow>
      f_committed_at q \<le> f_committed_at r"
proof (induction n)
  case 0
  { case 1 show ?case by (simp add: ever_def empty_db_def) }
  { case 2 show ?case by (simp add: ever_def empty_db_def) }
next
  case (Suc n)
  have le: "stamp n \<le> stamp (Suc n)" using assms by (simp add: mono_def)
  have new: "r \<in> ever stamp ws n \<or> f_cursor r = feed_seq (history stamp ws n) + 1 \<and> f_committed_at r = stamp n"
    if "r \<in> ever stamp ws (Suc n)" for r
    using that feed_subset_ever [of stamp ws n] by (auto simp: ever_Suc elim!: perform_feed_cases)
  { case 1 show ?case using new Suc(1) le by fastforce }
  { case 2
    show ?case
    proof (intro ballI impI)
      fix r q
      assume r: "r \<in> ever stamp ws (Suc n)" and q: "q \<in> ever stamp ws (Suc n)" and "f_cursor q \<le> f_cursor r"
      with new [OF r] new [OF q] Suc history_seq [of r stamp ws n] show "f_committed_at q \<le> f_committed_at r"
        by fastforce
    qed }
qed

lemma pruned_prefix:
  assumes "mono stamp"
  shows "\<forall>r \<in> ever stamp ws n. r \<in> set (incident_feed (history stamp ws n)) \<or>
    (\<forall>q \<in> set (incident_feed (history stamp ws n)). f_cursor r < f_cursor q)"
proof (induction n)
  case 0
  show ?case by (simp add: ever_def)
next
  case (Suc n)
  let ?d = "history stamp ws n" and ?d' = "history stamp ws (Suc n)"
  show ?case
    unfolding disj_imp
  proof (intro ballI impI)
    fix r q
    assume r: "r \<in> ever stamp ws (Suc n)" and q: "q \<in> set (incident_feed ?d')"
      and gone: "r \<notin> set (incident_feed ?d')"
    from r gone have r': "r \<in> ever stamp ws n" by (simp add: ever_Suc)
    from q show "f_cursor r < f_cursor q" unfolding history.simps
    proof (cases rule: perform_feed_cases)
      case new
      with history_seq [OF r'] show ?thesis by simp
    next
      case old
      show ?thesis
      proof (cases "r \<in> set (incident_feed ?d)")
        case False
        with Suc r' old show ?thesis by blast
      next
        case True
        with gone perform_keeps [of "ws n" ?d "stamp n"] obtain older where w: "ws n = Write_prune older"
          by auto
        with True gone q have "f_committed_at r < f_committed_at q"
          by (auto simp: prune_feed_def Let_def)
        with committed_in_order(2) [OF assms, of ws n] old True feed_subset_ever [of stamp ws n]
        show ?thesis by (meson leD not_le subsetD)
      qed
    qed
  qed
qed

section \<open>Example inputs\<close>

definition ex_server :: server where
  "ex_server = \<lparr>scan = (\<lambda>xs. xs), collate = (\<lambda>t. t)\<rparr>"

definition ex_writes :: "nat \<Rightarrow> feed_write" where
  "ex_writes n = (if n = 0 then Write_transition (ex_transition ''t1'' 1 1)
     else if n = 1 then Write_transition (ex_transition ''t2'' 2 4) else Write_prune 100)"

definition ex_gap :: "nat \<Rightarrow> nat" where
  "ex_gap n = (if n = 0 then 2 else 0)"

definition ex_reads :: "nat \<Rightarrow> db" where
  "ex_reads = session_reads (\<lambda>_. 0) ex_writes ex_gap"

lemma ex_reads_eq: "ex_reads n = history (\<lambda>_. 0) ex_writes 2"
proof -
  have "(\<Sum>i\<le>n. ex_gap i) = 2"
    by (induction n) (simp_all add: ex_gap_def)
  then show ?thesis by (simp only: ex_reads_def session_reads_def)
qed

lemma ex_history:
  "let d = history (\<lambda>_. 0) ex_writes 2 in feed_seq d = 2 \<and> map f_cursor (incident_feed d) = [1, 2] \<and>
     map f_committed_at (incident_feed d) = [0, 0] \<and> length (incidents d) = 1 \<and>
     map fst (incident_transitions d) = [''t1'', ''t2'']"
  by code_simp

lemma ex_feed:
  obtains x y where "incident_feed (history (\<lambda>_. 0) ex_writes 2) = [x, y]" "f_cursor x = 1" "f_cursor y = 2"
    "f_committed_at x = 0" "f_committed_at y = 0"
  using ex_history by (auto simp: Let_def)

lemma ex_changes:
  "\<exists>b. changes 0 BATCH (ex_reads m) (ex_reads n) = Inr b \<and> map c_cursor (b_changes b) = [1, 2] \<and> b_cursor b = 2"
proof -
  obtain x y where "incident_feed (history (\<lambda>_. 0) ex_writes 2) = [x, y]" "f_cursor x = 1" "f_cursor y = 2"
    by (rule ex_feed)
  then show ?thesis by (simp add: ex_reads_eq changes_def min_cursor_def BATCH_def change_of_def)
qed

lemma ex_send_changes:
  "\<exists>s'. send_changes ex_server ex_reads 0 s = Some (2, s') \<and> sent_cursors s' = sent_cursors s @ [1, 2] \<and>
     ws_reads s' = Suc (Suc (ws_reads s))"
proof -
  obtain b where b: "changes 0 BATCH (ex_reads (ws_reads s)) (ex_reads (Suc (ws_reads s))) = Inr b"
    "map c_cursor (b_changes b) = [1, 2]" "b_cursor b = 2"
    using ex_changes [of "ws_reads s" "Suc (ws_reads s)"] by auto
  from b(2) have "length (map c_cursor (b_changes b)) = 2" by simp
  then have "length (b_changes b) < BATCH" by (simp add: BATCH_def)
  with b show ?thesis by (simp add: send_changes.simps [of ex_server ex_reads 0 s] Let_def)
qed

section \<open>Properties\<close>

text \<open>
  C3: a live session sends every change at most once and in cursor order. Whatever the projector
  writes, prunes or rolls back between the session's statements, at whatever wake-ups, with or
  without a starting cursor, the cursors of all changes sent on one socket are strictly increasing.
\<close>

theorem live_feed_in_order:
  assumes "live srv (session_reads stamp ws gap) after wakes = Some (l, s)"
  shows "sorted_wrt (<) (sent_cursors s)"
  using assms by (rule session.live_in_order)

theorem live_feed_in_order_witness:
  "\<exists>l s. live ex_server ex_reads (Some 0) [Timed_out] = Some (l, s) \<and> sent_cursors s = [1, 2] \<and>
     sorted_wrt (<) (sent_cursors s)"
proof -
  let ?s = "send_health ex_server ex_reads \<lparr>ws_sent = [], ws_reads = 0\<rparr>"
  obtain s' where s': "send_changes ex_server ex_reads 0 ?s = Some (2, s')" "sent_cursors s' = [1, 2]"
    using ex_send_changes [of ?s] by (auto simp: sent_cursors_def send_health_def send_json_def)
  let ?s2 = "send_json (Ws_ping 2) (send_json (Ws_live 2) s')"
  have live: "live ex_server ex_reads (Some 0) [Timed_out] = Some (2, ?s2)"
    using s' by (simp add: live_def live_step_def)
  from live_feed_in_order [OF this [unfolded ex_reads_def]] live s'(2) show ?thesis by simp
qed

text \<open>
  C10: catching up is complete. When the projector does not prune from the session's start on,
  a catch-up from cursor \<open>a\<close> that returns has sent exactly the feed rows after \<open>a\<close>, in order, as of
  its last read, and none is beyond the cursor it returns; or it has sent a reset followed by a
  full snapshot, which happens only if the oldest retained cursor, if any, is beyond \<open>a + 1\<close>.
\<close>

theorem catch_up_complete:
  assumes "\<forall>n \<ge> k. \<forall>older. ws n \<noteq> Write_prune older" and "k \<le> gap 0"
    and "reads = session_reads stamp ws gap"
    and "send_changes srv reads a s = Some (l, s')"
  shows "(let F = incident_feed (reads (ws_reads s' - 1)) in
      ws_sent s' = ws_sent s @ map Ws_change (map change_of (filter (\<lambda>r. a < f_cursor r) F)) \<and>
      (\<forall>r \<in> set F. f_cursor r \<le> l) \<and> a \<le> l) \<or>
    (\<exists>cs. let snap = snapshot srv False 500 (reads (ws_reads s' - 1)) in
      ws_sent s' = ws_sent s @ map Ws_change cs @ [Ws_reset, Ws_snapshot snap] \<and> l = sn_cursor snap \<and>
      (\<forall>m. min_cursor (reads (ws_reads s)) = Some m \<longrightarrow> a < m - 1))"
proof -
  have "unpruned k ws = ws"
    using assms(1) by (auto simp: unpruned_def fun_eq_iff not_less split: feed_write.splits)
  moreover have "(gap(0 := gap 0 - k))(0 := k + (gap(0 := gap 0 - k)) 0) = gap"
    using assms(2) by auto
  ultimately show ?thesis
    using quiet.send_changes_complete [of srv stamp k ws "gap(0 := gap 0 - k)" a s l s'] assms(3,4)
    by simp
qed

theorem catch_up_complete_witness:
  "\<exists>s'. send_changes ex_server (session_reads (\<lambda>_. 0) (unpruned 2 ex_writes) ex_gap) 0
       \<lparr>ws_sent = [], ws_reads = 0\<rparr> = Some (2, s') \<and> sent_cursors s' = [1, 2]"
proof -
  let ?r = "session_reads (\<lambda>_. 0) (unpruned 2 ex_writes) ex_gap"
  have eq: "?r n = history (\<lambda>_. 0) ex_writes 2" for n
  proof -
    have "(\<Sum>i\<le>n. ex_gap i) = 2" by (induction n) (simp_all add: ex_gap_def)
    moreover have "history (\<lambda>_. 0) (unpruned 2 ex_writes) 2 = history (\<lambda>_. 0) ex_writes 2"
      by (simp add: numeral_2_eq_2 unpruned_def ex_writes_def)
    ultimately show ?thesis by (simp only: session_reads_def)
  qed
  then have same: "?r = ex_reads" using ex_reads_eq by (simp add: fun_eq_iff)
  obtain s' where s': "send_changes ex_server ?r 0 \<lparr>ws_sent = [], ws_reads = 0\<rparr> = Some (2, s')"
    "sent_cursors s' = [1, 2]"
    using ex_send_changes [of "\<lparr>ws_sent = [], ws_reads = 0\<rparr>"] by (auto simp: same sent_cursors_def)
  have "\<forall>n \<ge> 2. \<forall>older. unpruned 2 ex_writes n \<noteq> Write_prune older"
    by (auto simp: unpruned_def split: feed_write.splits)
  from catch_up_complete [OF this _ refl s'(1)] s' show ?thesis
    by (auto simp: ex_gap_def)
qed

text \<open>
  C33: catching up ends. As long as the feed's sequence stays below some bound while the session
  reads, the loop over batches returns, from any cursor.
\<close>

theorem catch_up_returns:
  assumes "\<And>n. feed_seq (session_reads stamp ws gap n) \<le> N"
  shows "\<exists>ls. send_changes srv (session_reads stamp ws gap) a s = Some ls"
  using assms by (rule session.send_changes_returns)

theorem catch_up_returns_witness:
  "\<exists>ls. send_changes ex_server (session_reads (\<lambda>_. 0) ex_writes ex_gap) 7 \<lparr>ws_sent = [], ws_reads = 0\<rparr> = Some ls"
proof (rule catch_up_returns)
  have "feed_seq (history (\<lambda>_. 0) ex_writes 2) = 2" using ex_history by (simp add: Let_def)
  then show "feed_seq (session_reads (\<lambda>_. 0) ex_writes ex_gap n) \<le> 2" for n
    using ex_reads_eq by (simp add: ex_reads_def)
qed



text \<open>
  A feed pruned to nothing never expires a cursor. After a prune that removes every row, a
  client polling with any cursor, however old, gets an empty batch and its own cursor back.
\<close>

theorem pruned_feed_not_expired:
  assumes "incident_feed (snd (prune_feed now older d)) = []"
  shows "changes a limit (snd (prune_feed now older d)) (snd (prune_feed now older d)) =
    Inr \<lparr>b_changes = [], b_cursor = a\<rparr>"
  using assms by (simp add: changes_def min_cursor_def)

theorem pruned_feed_not_expired_witness:
  "recorded (history (\<lambda>_. 0) ex_writes 2) ''t2'' \<and> feed_seq (history (\<lambda>_. 0) ex_writes 2) = 2 \<and>
   changes 0 500 (snd (prune_feed 200 100 (history (\<lambda>_. 0) ex_writes 2)))
     (snd (prune_feed 200 100 (history (\<lambda>_. 0) ex_writes 2))) = Inr \<lparr>b_changes = [], b_cursor = 0\<rparr>"
proof -
  have "incident_feed (snd (prune_feed 200 100 (history (\<lambda>_. 0) ex_writes 2))) = []"
    "feed_seq (history (\<lambda>_. 0) ex_writes 2) = 2" "recorded (history (\<lambda>_. 0) ex_writes 2) ''t2''"
    using ex_history by (auto simp: Let_def prune_feed_def recorded_def map_of_eq_None_iff)
  with pruned_feed_not_expired [of 200 100 "history (\<lambda>_. 0) ex_writes 2" 0 500] show ?thesis by simp
qed

text \<open>
  C31: a snapshot is consistent with its cursor. If the incidents fit in the limit, every change in
  the feed has a cursor at most the snapshot's, and the snapshot shows its incident at that
  revision or a later one, whatever order the server reads rows in.
\<close>

theorem snapshot_consistent:
  assumes "db_inv d" and "\<And>xs. set (scan srv xs) = set xs \<and> length (scan srv xs) = length xs"
    and "length (incidents d) \<le> limit" and "r \<in> set (incident_feed d)"
  shows "f_cursor r \<le> sn_cursor (snapshot srv False limit d) \<and>
    (\<exists>e \<in> set (sn_incidents (snapshot srv False limit d)).
       p_incident_id (fst e) = f_incident_id r \<and> f_revision r \<le> p_revision (fst e))"
proof -
  have max: "f_cursor r \<le> max_cursor d" using assms(4) by (auto simp: max_cursor_def)
  from assms(1,4) obtain tr where tr: "map_of (incident_transitions d) (p_transition_id (f_payload r)) = Some tr"
    "f_incident_id r = tr_incident_id tr" "f_revision r = tr_revision tr"
    by (auto simp: db_inv_def fed_inv_def)
  then have of: "tr \<in> of_incident d (f_incident_id r)"
    by (force simp: of_incident_def dest: map_of_SomeD)
  obtain i where i: "map_of (incidents d) (f_incident_id r) = Some i"
    using assms(1) of by (cases "map_of (incidents d) (f_incident_id r)")
      (auto simp: db_inv_def incidents_inv_def)
  then have lat: "latest d (f_incident_id r) i" using assms(1) by (simp add: db_inv_def incidents_inv_def)
  then have rev: "f_revision r \<le> p_revision (i_last_transition i)"
    using of tr(3) by (auto simp: latest_def mirrors_def)
  have iid: "p_incident_id (i_last_transition i) = f_incident_id r"
    using lat assms(1) by (fastforce simp: latest_def of_incident_def db_inv_def transitions_inv_def)
  have "i \<in> snd ` set (scan srv (incidents d))"
    using map_of_SomeD [OF i] assms(2) by force
  then have "i_last_transition i \<in> fst ` set (sn_incidents (snapshot srv False limit d))"
    using assms(2,3) by (auto simp: snapshot_def Let_def image_image)
  with max rev iid show ?thesis by (auto simp: snapshot_def Let_def)
qed

theorem snapshot_consistent_witness:
  "\<exists>r. r \<in> set (incident_feed (history (\<lambda>_. 0) ex_writes 2)) \<and> f_cursor r = 2 \<and>
     f_cursor r \<le> sn_cursor (snapshot ex_server False 500 (history (\<lambda>_. 0) ex_writes 2)) \<and>
     (\<exists>e. e \<in> set (sn_incidents (snapshot ex_server False 500 (history (\<lambda>_. 0) ex_writes 2))) \<and>
        p_incident_id (fst e) = f_incident_id r)"
proof -
  let ?d = "history (\<lambda>_. 0) ex_writes 2"
  obtain x y where feed: "incident_feed ?d = [x, y]" "f_cursor x = 1" "f_cursor y = 2" by (rule ex_feed)
  have "length (incidents ?d) \<le> 500" using ex_history by (simp add: Let_def)
  moreover have "set (scan ex_server xs) = set xs \<and> length (scan ex_server xs) = length xs" for xs
    by (simp add: ex_server_def)
  moreover have "y \<in> set (incident_feed ?d)" using feed by simp
  ultimately show ?thesis
    using snapshot_consistent [OF history_inv [of "\<lambda>_. 0" ex_writes 2], of ex_server 500 y] feed(3) by blast
qed

end
