(* ===== verification/Python_Text.thy ===== *)
theory Python_Text
  imports Prelude
begin

text \<open>
  The methods of Python's \<open>str\<close> the components use (\<open>strip\<close>, \<open>lower\<close>, \<open>split\<close>, \<open>join\<close>, \<open>splitlines\<close>,
  \<open>startswith\<close>, \<open>in\<close>) and the reading and printing of numbers, over code points up to 255; decoded JSON and its
  truth values; paths as \<open>pathlib\<close> joins and prints them.
\<close>

section \<open>Strings\<close>

definition is_space :: "char \<Rightarrow> bool" where
  "is_space c = (let n = (of_char c :: int) in 9 \<le> n \<and> n \<le> 13 \<or> 28 \<le> n \<and> n \<le> 32 \<or> n = 133 \<or> n = 160)"

definition strip :: "string \<Rightarrow> string" where
  "strip s = rev (dropWhile is_space (rev (dropWhile is_space s)))"

definition lower_char :: "char \<Rightarrow> char" where
  "lower_char c = (let n = (of_char c :: int) in
     if 65 \<le> n \<and> n \<le> 90 \<or> 192 \<le> n \<and> n \<le> 222 \<and> n \<noteq> 215 then char_of (n + 32) else c)"

definition lower :: "string \<Rightarrow> string" where
  "lower s = map lower_char s"

function split_ws :: "string \<Rightarrow> string list" where
  "split_ws s = (case dropWhile is_space s of [] \<Rightarrow> []
     | c # cs \<Rightarrow> (c # takeWhile (\<lambda>x. \<not> is_space x) cs) # split_ws (dropWhile (\<lambda>x. \<not> is_space x) cs))"
  by pat_completeness auto

termination
proof (relation "measure length")
  fix s c cs
  assume "dropWhile is_space s = c # cs"
  then have "Suc (length cs) \<le> length s" by (metis length_Cons length_dropWhile_le)
  then show "(dropWhile (\<lambda>x. \<not> is_space x) cs, s) \<in> measure length"
    using length_dropWhile_le [of "\<lambda>x. \<not> is_space x" cs] by simp
qed simp

declare split_ws.simps [simp del]

fun split_on :: "char \<Rightarrow> string \<Rightarrow> string list" where
  "split_on sep [] = [[]]"
| "split_on sep (c # cs) =
     (if c = sep then [] # split_on sep cs
      else case split_on sep cs of [] \<Rightarrow> [[c]] | w # ws \<Rightarrow> (c # w) # ws)"

fun join :: "string \<Rightarrow> string list \<Rightarrow> string" where
  "join sep [] = []"
| "join sep [w] = w"
| "join sep (w # ws) = w @ sep @ join sep ws"

definition is_linebreak :: "char \<Rightarrow> bool" where
  "is_linebreak c = (let n = (of_char c :: int) in 10 \<le> n \<and> n \<le> 13 \<or> 28 \<le> n \<and> n \<le> 30 \<or> n = 133)"

fun splitlines_acc :: "string \<Rightarrow> string \<Rightarrow> string list" where
  "splitlines_acc cur [] = (if cur = [] then [] else [rev cur])"
| "splitlines_acc cur (c # cs) =
     (if c = CHR 0x0D \<and> cs \<noteq> [] \<and> hd cs = CHR 0x0A then rev cur # splitlines_acc [] (tl cs)
      else if is_linebreak c then rev cur # splitlines_acc [] cs
      else splitlines_acc (c # cur) cs)"

definition splitlines :: "string \<Rightarrow> string list" where
  "splitlines s = splitlines_acc [] s"

definition starts_with :: "string \<Rightarrow> string \<Rightarrow> bool" where
  "starts_with s prefix = (take (length prefix) s = prefix)"

fun contains :: "string \<Rightarrow> string \<Rightarrow> bool" where
  "contains sub [] = (sub = [])"
| "contains sub (c # cs) = (starts_with (c # cs) sub \<or> contains sub cs)"

section \<open>Numbers\<close>

definition is_digit :: "char \<Rightarrow> bool" where
  "is_digit c = (48 \<le> (of_char c :: int) \<and> (of_char c :: int) \<le> 57)"

definition digit_val :: "char \<Rightarrow> int" where
  "digit_val c = of_char c - 48"

definition dec_val :: "string \<Rightarrow> int" where
  "dec_val s = foldl (\<lambda>n c. 10 * n + digit_val c) 0 s"

fun hex_digit :: "char \<Rightarrow> int option" where
  "hex_digit c = (let n = (of_char c :: int) in
     if 48 \<le> n \<and> n \<le> 57 then Some (n - 48)
     else if 65 \<le> n \<and> n \<le> 70 then Some (n - 55)
     else if 97 \<le> n \<and> n \<le> 102 then Some (n - 87) else None)"

definition hex_val :: "string \<Rightarrow> int" where
  "hex_val s = foldl (\<lambda>n c. 16 * n + the (hex_digit c)) 0 s"

function hex_str :: "int \<Rightarrow> string" where
  "hex_str n = (let d = (\<lambda>k. char_of (if k < 10 then 48 + k else 87 + k)) in
     if n < 16 then [d n] else hex_str (n div 16) @ [d (n mod 16)])"
  by pat_completeness auto

termination
  by (relation "measure nat") auto

declare hex_str.simps [simp del]

section \<open>Lemmas\<close>

lemma split_on_plain: "sep \<notin> set w \<Longrightarrow> split_on sep w = [w]"
  by (induction w) auto

lemma split_on_append:
  "sep \<notin> set w \<Longrightarrow> split_on sep (w @ sep # s) = w # split_on sep s"
  by (induction w) auto

text \<open>Splitting undoes joining when no word contains the separator.\<close>

lemma split_on_join:
  "ws \<noteq> [] \<Longrightarrow> \<forall>w \<in> set ws. sep \<notin> set w \<Longrightarrow> split_on sep (join [sep] ws) = ws"
  by (induction "[sep]" ws rule: join.induct) (auto simp: split_on_plain split_on_append)

lemma foldl_digits_bound:
  assumes "\<forall>c \<in> set s. 0 \<le> f c \<and> f c < (B :: int)"
  shows "acc * B ^ length s \<le> foldl (\<lambda>n c. B * n + f c) acc s \<and>
    foldl (\<lambda>n c. B * n + f c) acc s < (acc + 1) * B ^ length s"
  using assms
proof (induction s arbitrary: acc)
  case (Cons c s)
  have "0 \<le> f c" "f c + 1 \<le> B" using Cons.prems by auto
  moreover from this have "0 \<le> B ^ length s" by simp
  ultimately have le: "acc * B * B ^ length s \<le> (B * acc + f c) * B ^ length s"
    "(B * acc + f c + 1) * B ^ length s \<le> (acc + 1) * B * B ^ length s"
    by (intro mult_right_mono; simp add: algebra_simps)+
  have eq: "x * B ^ length (c # s) = x * B * B ^ length s" for x by simp
  show ?case
    unfolding eq foldl.simps
    using Cons.IH [of "B * acc + f c"] Cons.prems order_trans [OF le(1)] less_le_trans [OF _ le(2)]
    by (meson list.set_intros(2))
qed simp

text \<open>Decimal text reads back as the number it prints.\<close>

lemma digit_chars:
  "list_all (\<lambda>n. is_digit (digit_char n) \<and> digit_val (digit_char n) = int n \<and>
     (digit_char n = CHR ''0'' \<longleftrightarrow> n = 0)) [0..<10]"
  by code_simp

lemma digit_char_props:
  assumes "n < 10"
  shows "is_digit (digit_char n)" "digit_val (digit_char n) = int n"
    "digit_char n = CHR ''0'' \<longleftrightarrow> n = 0"
  using digit_chars assms by (auto simp: list_all_iff)

lemma nat_str_digits:
  "nat_str n \<noteq> [] \<and> list_all is_digit (nat_str n) \<and> dec_val (nat_str n) = int n \<and>
     (n \<noteq> 0 \<longrightarrow> hd (nat_str n) \<noteq> CHR ''0'')"
proof (induction n rule: nat_str.induct)
  case (1 n)
  show ?case
  proof (cases "n < 10")
    case True
    then show ?thesis by (simp add: nat_str.simps [of n] digit_char_props dec_val_def)
  next
    case False
    then have "n div 10 \<noteq> 0" "int (n mod 10) = int n mod 10" "int (n div 10) = int n div 10"
      by (simp_all add: zmod_int zdiv_int)
    with 1 [OF False] False show ?thesis
      by (simp add: nat_str.simps [of n] digit_char_props dec_val_def)
  qed
qed

lemma nat_str_length: "n < 10 ^ k \<Longrightarrow> 0 < k \<Longrightarrow> length (nat_str n) \<le> k"
proof (induction n arbitrary: k rule: nat_str.induct)
  case (1 n)
  show ?case
  proof (cases "n < 10")
    case True
    with 1 show ?thesis by (simp add: nat_str.simps [of n])
  next
    case False
    with 1(2,3) obtain j where j: "k = Suc j" "0 < j" by (cases k; cases "k = 1") auto
    then have "n div 10 < 10 ^ j" using 1(2) by (simp add: less_mult_imp_div_less mult.commute)
    from 1(1) [OF False this j(2)] False j show ?thesis by (simp add: nat_str.simps [of n])
  qed
qed

lemma split_on_join_last:
  assumes "\<forall>w \<in> set ws. sep \<notin> set w"
  shows "split_on sep (join [sep] (ws @ [[sep]])) = ws @ [[], []]"
  using assms
proof (induction ws)
  case (Cons w ws)
  have "join [sep] ((w # ws) @ [[sep]]) = w @ sep # join [sep] (ws @ [[sep]])"
    by (cases ws) auto
  with Cons show ?case by (simp add: split_on_append)
qed simp

lemma split_on_not_Nil [simp]: "split_on sep s \<noteq> []"
  by (induction s) (auto split: list.splits)

lemma split_on_mid: "split_on sep (s @ sep # t) = split_on sep s @ split_on sep t"
proof (induction s)
  case (Cons c s)
  then show ?case by (cases "split_on sep s") auto
qed simp

lemma set_int_str: "c \<in> set (int_str n) \<Longrightarrow> is_digit c \<or> c = CHR ''-''"
  using nat_str_digits [of "nat (- n)"] nat_str_digits [of "nat n"]
  by (auto simp: int_str_def list_all_iff split: if_splits)

lemma set_split_on: "set s \<subseteq> insert sep (\<Union> (set ` set (split_on sep s)))"
proof (induction s)
  case (Cons c s)
  then show ?case by (cases "split_on sep s") auto
qed simp

section \<open>Decoded JSON\<close>

text \<open>Values \<open>json.loads\<close> returns, and their truth value.\<close>

datatype json =
    J_null
  | J_bool bool
  | J_int int
  | J_real real
  | J_str string
  | J_list "json list"
  | J_obj "(string \<times> json) list"

fun truthy :: "json \<Rightarrow> bool" where
  "truthy J_null = False"
| "truthy (J_bool b) = b"
| "truthy (J_int i) = (i \<noteq> 0)"
| "truthy (J_real x) = (x \<noteq> 0)"
| "truthy (J_str s) = (s \<noteq> [])"
| "truthy (J_list xs) = (xs \<noteq> [])"
| "truthy (J_obj d) = (d \<noteq> [])"

section \<open>Paths\<close>

text \<open>
  \<open>Path(s)\<close> of POSIX: its root (two leading slashes stay two) and its parts, without empty and \<open>.\<close> components;
  \<open>str(Path(s))\<close>, and \<open>str(Path(dir) / s)\<close>, which is \<open>s\<close> when that is absolute.
\<close>

definition path_root :: "string \<Rightarrow> string" where
  "path_root s = (let slashes = length (takeWhile (\<lambda>c. c = CHR ''/'') s) in
     if slashes = 0 then [] else if slashes = 2 then ''//'' else ''/'')"

definition path_parts :: "string \<Rightarrow> string list" where
  "path_parts s = filter (\<lambda>p. p \<noteq> [] \<and> p \<noteq> ''.'') (split_on CHR ''/'' s)"

definition path_show :: "string \<Rightarrow> string list \<Rightarrow> string" where
  "path_show start parts = (if start = [] \<and> parts = [] then ''.'' else start @ join ''/'' parts)"

definition path_str :: "string \<Rightarrow> string" where
  "path_str s = path_show (path_root s) (path_parts s)"

definition path_div :: "string \<Rightarrow> string \<Rightarrow> string" where
  "path_div dir s = (if path_root s \<noteq> [] then path_str s else path_show (path_root dir) (path_parts dir @ path_parts s))"

end
