(* ===== verification/Host.thy ===== *)
theory Host
  imports Python_Text
begin

text \<open>
  Running programs on the gateway's host from Python (\<open>subprocess.run\<close>): results, errors as values and
  the sequencing of actions that may raise.
\<close>

section \<open>Running programs\<close>

text \<open>
  \<open>subprocess\<close>: the programs on the host (\<open>ip\<close>, \<open>sysctl\<close>, \<open>iptables\<close>, \<open>sh\<close>) are a parameter, a function
  from the command line and the host's state to the finished process (\<^term>\<open>None\<close> when the program
  cannot be started, which raises) and the new state.
\<close>

record completed =
  returncode :: int
  stdout :: string
  stderr :: string

type_synonym 'k tool = "string list \<Rightarrow> 'k \<Rightarrow> completed option \<times> 'k"

datatype host_error =
    Called_process_error "string list"
  | Os_error
  | Value_error string
  | Runtime_error "string list" string

type_synonym ('k, 'a) action = "'k \<Rightarrow> (host_error + 'a) \<times> 'k"

definition returns :: "'a \<Rightarrow> ('k, 'a) action" where
  "returns x k = (Inr x, k)"

definition raises :: "host_error \<Rightarrow> ('k, 'a) action" where
  "raises e k = (Inl e, k)"

definition andthen :: "('k, 'a) action \<Rightarrow> ('a \<Rightarrow> ('k, 'b) action) \<Rightarrow> ('k, 'b) action" where
  "andthen m f k = (case m k of (Inl e, k') \<Rightarrow> (Inl e, k') | (Inr x, k') \<Rightarrow> f x k')"

fun run_all :: "('k, unit) action list \<Rightarrow> ('k, unit) action" where
  "run_all [] = returns ()"
| "run_all (m # ms) = andthen m (\<lambda>_. run_all ms)"

text \<open>\<open>subprocess.run(cmd, check=True)\<close>, the same with \<open>check=False\<close>, and the probe that maps every exception to \<open>False\<close>.\<close>

definition run_checked :: "'k tool \<Rightarrow> string list \<Rightarrow> ('k, completed) action" where
  "run_checked exec cmd k = (case exec cmd k of
      (None, k') \<Rightarrow> (Inl Os_error, k')
    | (Some c, k') \<Rightarrow> if returncode c = 0 then (Inr c, k') else (Inl (Called_process_error cmd), k'))"

definition run_unchecked :: "'k tool \<Rightarrow> string list \<Rightarrow> ('k, unit) action" where
  "run_unchecked exec cmd k = (case exec cmd k of
      (None, k') \<Rightarrow> (Inl Os_error, k') | (Some c, k') \<Rightarrow> (Inr (), k'))"

definition probe :: "'k tool \<Rightarrow> string list \<Rightarrow> 'k \<Rightarrow> bool \<times> 'k" where
  "probe exec cmd k = (case run_checked exec cmd k of (Inl _, k') \<Rightarrow> (False, k') | (Inr _, k') \<Rightarrow> (True, k'))"

end
