(* ===== verification/Ip_Address.thy ===== *)
theory Ip_Address
  imports Python_Text
begin

text \<open>
  Python's \<open>ipaddress\<close> module as the gateway agent uses it: \<open>ip_address\<close>, \<open>ip_network\<close> with
  \<open>strict=True\<close>, membership, prefix length and the text of a netmask, for IPv4 and IPv6. A failed
  parse is \<^term>\<open>None\<close> (or \<^term>\<open>Inl e\<close> for networks); the texts of the exceptions are not modelled.
  The lemmas show that parsed values are in range, that a network is an interval, and that
  printed IPv4 addresses read back.
\<close>

unbundle bit_operations_syntax

section \<open>Addresses\<close>

datatype version = V4 | V6

fun max_prefixlen :: "version \<Rightarrow> nat" where
  "max_prefixlen V4 = 32"
| "max_prefixlen V6 = 128"

record ip_addr =
  ip_version :: version
  ip_int :: int
  scope_id :: "string option"

definition parse_octet :: "string \<Rightarrow> int option" where
  "parse_octet s =
     (if s = [] \<or> \<not> list_all is_digit s \<or> 3 < length s \<or> s \<noteq> ''0'' \<and> hd s = CHR ''0'' \<or> 255 < dec_val s
      then None else Some (dec_val s))"

definition v4_int :: "string \<Rightarrow> int option" where
  "v4_int s = (case map parse_octet (split_on CHR ''.'' s) of
     [Some a, Some b, Some c, Some d] \<Rightarrow> Some (((a * 256 + b) * 256 + c) * 256 + d)
   | _ \<Rightarrow> None)"

definition parse_hextet :: "string \<Rightarrow> int option" where
  "parse_hextet s =
     (if s = [] \<or> \<not> list_all (\<lambda>c. hex_digit c \<noteq> None) s \<or> 4 < length s then None else Some (hex_val s))"

fun hextets_int :: "int \<Rightarrow> string list \<Rightarrow> int option" where
  "hextets_int acc [] = Some acc"
| "hextets_int acc (h # hs) =
     (case parse_hextet h of None \<Rightarrow> None | Some v \<Rightarrow> hextets_int (acc * 65536 + v) hs)"

text \<open>The parts of the address with an IPv4 suffix replaced by two hextets.\<close>

definition v6_parts :: "string \<Rightarrow> string list option" where
  "v6_parts s =
     (let parts = split_on CHR '':'' s in
      if length parts < 3 then None
      else if CHR ''.'' \<in> set (last parts)
      then case v4_int (last parts) of None \<Rightarrow> None
           | Some n \<Rightarrow> Some (butlast parts @ [hex_str (n div 65536 mod 65536), hex_str (n mod 65536)])
      else Some parts)"

definition v6_int :: "string \<Rightarrow> int option" where
  "v6_int s =
     (case v6_parts s of None \<Rightarrow> None | Some parts \<Rightarrow>
      if 9 < length parts then None
      else case filter (\<lambda>i. parts ! i = []) [1..<length parts - 1] of
        [] \<Rightarrow> if length parts \<noteq> 8 \<or> hd parts = [] \<or> last parts = [] then None
              else hextets_int 0 parts
      | [skip] \<Rightarrow>
          (let hi = (if hd parts = [] then skip - 1 else skip);
               lo = (if last parts = [] then length parts - skip - 2 else length parts - skip - 1) in
           if hd parts = [] \<and> hi \<noteq> 0 \<or> last parts = [] \<and> lo \<noteq> 0 \<or> 8 < hi + lo + 1 then None
           else case hextets_int 0 (take hi parts) of None \<Rightarrow> None
                | Some n \<Rightarrow> hextets_int (n * 65536 ^ (8 - (hi + lo))) (drop (length parts - lo) parts))
      | _ \<Rightarrow> None)"

definition ipv4_address :: "string \<Rightarrow> ip_addr option" where
  "ipv4_address s = (case v4_int s of None \<Rightarrow> None
     | Some n \<Rightarrow> Some \<lparr>ip_version = V4, ip_int = n, scope_id = None\<rparr>)"

definition ipv6_address :: "string \<Rightarrow> ip_addr option" where
  "ipv6_address s =
     (if CHR ''/'' \<in> set s then None
      else case split_on CHR ''%'' s of
        [ad] \<Rightarrow> map_option (\<lambda>n. \<lparr>ip_version = V6, ip_int = n, scope_id = None\<rparr>) (v6_int ad)
      | [ad, scope] \<Rightarrow> if scope = [] then None
          else map_option (\<lambda>n. \<lparr>ip_version = V6, ip_int = n, scope_id = Some scope\<rparr>) (v6_int ad)
      | _ \<Rightarrow> None)"

definition ip_address :: "string \<Rightarrow> ip_addr option" where
  "ip_address s = (case ipv4_address s of Some a \<Rightarrow> Some a | None \<Rightarrow> ipv6_address s)"

section \<open>Networks\<close>

record ip_net =
  network_address :: ip_addr
  prefixlen :: nat

definition all_ones :: "version \<Rightarrow> int" where
  "all_ones v = 2 ^ max_prefixlen v - 1"

text \<open>\<open>_ip_int_from_prefix\<close>.\<close>

definition netmask_int :: "version \<Rightarrow> nat \<Rightarrow> int" where
  "netmask_int v p = all_ones v XOR (drop_bit p (all_ones v))"

definition prefix_from_prefix_string :: "version \<Rightarrow> string \<Rightarrow> nat option" where
  "prefix_from_prefix_string v s =
     (if s = [] \<or> \<not> list_all is_digit s \<or> int (max_prefixlen v) < dec_val s then None
      else Some (nat (dec_val s)))"

fun count_zero_bits :: "nat \<Rightarrow> int \<Rightarrow> nat" where
  "count_zero_bits 0 n = 0"
| "count_zero_bits (Suc bits) n = (if n mod 2 = 1 then 0 else Suc (count_zero_bits bits (n div 2)))"

definition prefix_from_ip_int :: "int \<Rightarrow> nat option" where
  "prefix_from_ip_int n =
     (let tz = count_zero_bits 32 n; p = 32 - tz
      in if n div 2 ^ tz = 2 ^ p - 1 then Some p else None)"

definition prefix_from_ip_string :: "string \<Rightarrow> nat option" where
  "prefix_from_ip_string s =
     (case v4_int s of None \<Rightarrow> None
      | Some n \<Rightarrow> (case prefix_from_ip_int n of Some p \<Rightarrow> Some p
          | None \<Rightarrow> prefix_from_ip_int (2 ^ 32 - 1 - n)))"

fun make_netmask :: "version \<Rightarrow> string \<Rightarrow> nat option" where
  "make_netmask V4 s = (case prefix_from_prefix_string V4 s of Some p \<Rightarrow> Some p
     | None \<Rightarrow> prefix_from_ip_string s)"
| "make_netmask V6 s = prefix_from_prefix_string V6 s"

datatype net_error = Invalid_address | Host_bits_set

definition ip_network_of ::
  "version \<Rightarrow> (string \<Rightarrow> ip_addr option) \<Rightarrow> string \<Rightarrow> net_error + ip_net" where
  "ip_network_of v parse s =
     (let build = (\<lambda>ad p. case ad of None \<Rightarrow> Inl Invalid_address | Some a \<Rightarrow>
        (case p of None \<Rightarrow> Inl Invalid_address | Some p \<Rightarrow>
           if ip_int a AND netmask_int v p = ip_int a
           then Inr \<lparr>network_address = a, prefixlen = p\<rparr> else Inl Host_bits_set)) in
      case split_on CHR ''/'' s of
        [ad] \<Rightarrow> build (parse ad) (Some (max_prefixlen v))
      | [ad, msk] \<Rightarrow> build (parse ad) (make_netmask v msk)
      | _ \<Rightarrow> Inl Invalid_address)"

text \<open>\<open>ip_network(s, strict=True)\<close>: host bits set raise at once, other failures try IPv6.\<close>

definition ip_network :: "string \<Rightarrow> net_error + ip_net" where
  "ip_network s =
     (case ip_network_of V4 ipv4_address s of
        Inr n \<Rightarrow> Inr n
      | Inl Host_bits_set \<Rightarrow> Inl Host_bits_set
      | Inl Invalid_address \<Rightarrow> ip_network_of V6 ipv6_address s)"

definition in_network :: "ip_addr \<Rightarrow> ip_net \<Rightarrow> bool" where
  "in_network a n \<longleftrightarrow> ip_version a = ip_version (network_address n) \<and>
     ip_int a AND netmask_int (ip_version a) (prefixlen n) = ip_int (network_address n)"

text \<open>\<open>str\<close> of an address.\<close>

text \<open>The longest run of zero hextets (the first of equal ones), as its start and length.\<close>

fun zero_run :: "nat \<Rightarrow> nat \<times> nat \<Rightarrow> nat \<times> nat \<Rightarrow> string list \<Rightarrow> nat \<times> nat" where
  "zero_run i cur best [] = best"
| "zero_run i cur best (h # hs) =
     (if h = ''0''
      then let cur' = (if snd cur = 0 then i else fst cur, Suc (snd cur))
           in zero_run (Suc i) cur' (if snd best < snd cur' then cur' else best) hs
      else zero_run (Suc i) (0, 0) best hs)"

definition compress_hextets :: "string list \<Rightarrow> string list" where
  "compress_hextets hs =
     (case zero_run 0 (0, 0) (0, 0) hs of (start, len) \<Rightarrow>
      if 1 < len
      then (if start = 0 then [[]] else []) @ take start hs @ [[]] @ drop (start + len) hs @
           (if start + len = length hs then [[]] else [])
      else hs)"

definition v6_str :: "int \<Rightarrow> string" where
  "v6_str n = join '':'' (compress_hextets
     (map (\<lambda>k. hex_str (n div 65536 ^ k mod 65536)) [7, 6, 5, 4, 3, 2, 1, 0]))"

definition v4_str :: "int \<Rightarrow> string" where
  "v4_str n = join ''.'' (map int_str [n div 16777216 mod 256, n div 65536 mod 256, n div 256 mod 256, n mod 256])"


definition netmask_str :: "ip_net \<Rightarrow> string" where
  "netmask_str n =
     (let m = netmask_int (ip_version (network_address n)) (prefixlen n) in
      case ip_version (network_address n) of V4 \<Rightarrow> v4_str m | V6 \<Rightarrow> v6_str m)"

section \<open>Addresses are in range\<close>

definition valid_addr :: "ip_addr \<Rightarrow> bool" where
  "valid_addr a \<longleftrightarrow> 0 \<le> ip_int a \<and> ip_int a < 2 ^ max_prefixlen (ip_version a)"

lemma parse_octet_range: "parse_octet s = Some n \<Longrightarrow> 0 \<le> n \<and> n < 256"
proof -
  assume a: "parse_octet s = Some n"
  then have "\<forall>c \<in> set s. 0 \<le> digit_val c \<and> digit_val c < 10"
    by (auto simp: parse_octet_def list_all_iff is_digit_def digit_val_def split: if_splits)
  from foldl_digits_bound [OF this, of 0] a show ?thesis
    by (auto simp: parse_octet_def dec_val_def split: if_splits)
qed

lemma v4_int_range:
  assumes "v4_int s = Some n"
  shows "0 \<le> n \<and> n < 2 ^ 32"
proof -
  from assms obtain a b c d where "map parse_octet (split_on CHR ''.'' s) = [Some a, Some b, Some c, Some d]"
    and n: "n = ((a * 256 + b) * 256 + c) * 256 + d"
    by (auto simp: v4_int_def split: list.splits option.splits)
  then have "0 \<le> a \<and> a < 256" "0 \<le> b \<and> b < 256" "0 \<le> c \<and> c < 256" "0 \<le> d \<and> d < 256"
    by (auto dest!: parse_octet_range)
  with n show ?thesis by simp
qed

lemma parse_hextet_range: "parse_hextet s = Some n \<Longrightarrow> 0 \<le> n \<and> n < 65536"
proof -
  assume a: "parse_hextet s = Some n"
  then have s: "\<forall>c \<in> set s. 0 \<le> the (hex_digit c) \<and> the (hex_digit c) < 16" "length s \<le> 4"
    by (auto simp: parse_hextet_def list_all_iff Let_def split: if_splits)
  have "(16 :: int) ^ length s \<le> 16 ^ 4" by (rule power_increasing [OF s(2)]) simp
  with foldl_digits_bound [OF s(1), of 0] a show ?thesis
    by (auto simp: parse_hextet_def hex_val_def split: if_splits)
qed

lemma hextets_int_range:
  "hextets_int acc hs = Some n \<Longrightarrow> 0 \<le> acc \<Longrightarrow>
     acc * 65536 ^ length hs \<le> n \<and> n < (acc + 1) * 65536 ^ length hs"
proof (induction acc hs rule: hextets_int.induct)
  case (2 acc h hs)
  then obtain v where v: "parse_hextet h = Some v" by (auto split: option.splits)
  note r = parse_hextet_range [OF this]
  with 2 v have "(acc * 65536 + v) * 65536 ^ length hs \<le> n" "n < (acc * 65536 + v + 1) * 65536 ^ length hs"
    by auto
  note 1 = this
  have le: "acc * 65536 * 65536 ^ length hs \<le> (acc * 65536 + v) * 65536 ^ length hs"
    "(acc * 65536 + v + 1) * 65536 ^ length hs \<le> (acc + 1) * 65536 * 65536 ^ length hs"
    using r by (intro mult_right_mono; simp)+
  have eq: "x * 65536 ^ length (h # hs) = x * 65536 * 65536 ^ length hs" for x :: int by simp
  show ?case unfolding eq using 1 order_trans [OF le(1)] less_le_trans [OF _ le(2)] by blast
qed simp

lemma v6_int_range:
  assumes "v6_int s = Some n"
  shows "0 \<le> n \<and> n < 2 ^ 128"
proof -
  have big: "(65536 :: int) ^ 8 = 2 ^ 128" by simp
  obtain parts where parts: "v6_parts s = Some parts" "\<not> 9 < length parts"
    using assms by (auto simp: v6_int_def split: option.splits if_splits)
  consider (full) "length parts = 8" "hextets_int 0 parts = Some n"
    | (skip) skip hi lo m where "skip \<in> {1..<length parts - 1}" "hi \<le> skip" "lo \<le> length parts - skip - 1"
        "hi + lo + 1 \<le> 8"
        "hextets_int 0 (take hi parts) = Some m"
        "hextets_int (m * 65536 ^ (8 - (hi + lo))) (drop (length parts - lo) parts) = Some n"
  proof (cases "filter (\<lambda>i. parts ! i = []) [1..<length parts - 1]")
    case Nil
    with assms parts full show thesis by (auto simp: v6_int_def split: if_splits)
  next
    case (Cons k ks)
    then have "k \<in> set (filter (\<lambda>i. parts ! i = []) [1..<length parts - 1])" by simp
    then have k: "k \<in> {1..<length parts - 1}" by simp
    let ?hi = "if hd parts = [] then k - 1 else k"
    let ?lo = "if last parts = [] then length parts - k - 2 else length parts - k - 1"
    from assms parts Cons obtain m where "?hi + ?lo + 1 \<le> 8" "hextets_int 0 (take ?hi parts) = Some m"
      "hextets_int (m * 65536 ^ (8 - (?hi + ?lo))) (drop (length parts - ?lo) parts) = Some n"
      by (auto simp: v6_int_def Let_def split: list.splits if_splits option.splits)
    with k show thesis by (intro skip [of k ?hi ?lo m]) auto
  qed
  then show ?thesis
  proof cases
    case full
    with hextets_int_range [OF full(2)] big show ?thesis by simp
  next
    case skip
    let ?k = "8 - (hi + lo)"
    have "length (take hi parts) = hi" using skip(1,2) by auto
    then have m: "0 \<le> m" "m + 1 \<le> 65536 ^ hi"
      using hextets_int_range [OF skip(5)] by auto
    then have n: "0 \<le> n" "n < (m * 65536 ^ ?k + 1) * 65536 ^ lo"
      using hextets_int_range [OF skip(6)] skip(1,3) by (auto intro: order_trans [rotated])
    have "m * 65536 ^ ?k + 1 \<le> (m + 1) * 65536 ^ ?k" by (simp add: algebra_simps)
    also have "\<dots> \<le> 65536 ^ hi * 65536 ^ ?k" using m(2) by (rule mult_right_mono) simp
    finally have "(m * 65536 ^ ?k + 1) * 65536 ^ lo \<le> 65536 ^ hi * 65536 ^ ?k * 65536 ^ lo"
      by (rule mult_right_mono) simp
    also have "\<dots> = 65536 ^ (hi + ?k + lo)" by (simp only: power_add)
    also have "hi + ?k + lo = 8" using skip(4) by simp
    finally show ?thesis using n big by simp
  qed
qed

lemma ip_address_valid: "ip_address s = Some a \<Longrightarrow> valid_addr a"
  by (auto simp: ip_address_def ipv4_address_def ipv6_address_def valid_addr_def
      dest!: v4_int_range v6_int_range split: option.splits list.splits if_splits)

section \<open>Networks are intervals\<close>

lemma all_ones_mask: "all_ones v = mask (max_prefixlen v)"
  by (simp add: all_ones_def mask_eq_exp_minus_1)

lemma and_netmask:
  assumes "0 \<le> x" and "x < 2 ^ max_prefixlen v" and "p \<le> max_prefixlen v"
  shows "x AND netmask_int v p = x - x mod 2 ^ (max_prefixlen v - p)"
proof -
  let ?w = "max_prefixlen v"
  have x: "take_bit ?w x = x" using assms by (simp add: take_bit_int_eq_self_iff)
  have "x AND netmask_int v p = x AND NOT (mask (?w - p))"
  proof (rule bit_eqI)
    fix n
    have "bit x n \<Longrightarrow> n < ?w" using x by (metis bit_take_bit_iff)
    then show "bit (x AND netmask_int v p) n = bit (x AND NOT (mask (?w - p))) n"
      using assms(3) by (auto simp: netmask_int_def all_ones_mask bit_simps)
  qed
  also have "\<dots> = push_bit (?w - p) (drop_bit (?w - p) x)"
    by (rule bit_eqI) (auto simp: bit_simps)
  also have "\<dots> = x - take_bit (?w - p) x"
    using bits_ident [of "?w - p" x] by simp
  finally show ?thesis by (simp add: take_bit_eq_mod)
qed

text \<open>A network that \<open>ip_network\<close> accepts: its address is aligned to the prefix.\<close>

definition valid_net :: "ip_net \<Rightarrow> bool" where
  "valid_net n \<longleftrightarrow> valid_addr (network_address n) \<and>
     prefixlen n \<le> max_prefixlen (ip_version (network_address n)) \<and>
     ip_int (network_address n) mod
       2 ^ (max_prefixlen (ip_version (network_address n)) - prefixlen n) = 0"

lemma count_zero_bits_le: "count_zero_bits bits n \<le> bits"
  by (induction bits n rule: count_zero_bits.induct) auto

lemma make_netmask_le: "make_netmask v s = Some p \<Longrightarrow> p \<le> max_prefixlen v"
  by (cases v) (auto simp: prefix_from_prefix_string_def prefix_from_ip_string_def
      prefix_from_ip_int_def Let_def split: if_splits option.splits)

lemma ip_network_of_valid:
  assumes "ip_network_of v parse s = Inr n"
    and "\<And>t a. parse t = Some a \<Longrightarrow> valid_addr a \<and> ip_version a = v"
  shows "valid_net n \<and> ip_version (network_address n) = v"
proof -
  from assms(1) obtain t a p where a: "parse t = Some a" and p: "p \<le> max_prefixlen v"
    and strict: "ip_int a AND netmask_int v p = ip_int a"
    and n: "n = \<lparr>network_address = a, prefixlen = p\<rparr>"
    by (auto simp: ip_network_of_def Let_def make_netmask_le split: list.splits option.splits if_splits)
  from assms(2) [OF a] have v: "valid_addr a" "ip_version a = v" by simp_all
  then have "ip_int a AND netmask_int v p = ip_int a - ip_int a mod 2 ^ (max_prefixlen v - p)"
    using p by (intro and_netmask) (auto simp: valid_addr_def)
  with strict p v n show ?thesis by (simp add: valid_net_def)
qed

lemma ip_network_valid: "ip_network s = Inr n \<Longrightarrow> valid_net n"
proof -
  assume n: "ip_network s = Inr n"
  have v4: "ipv4_address t = Some a \<Longrightarrow> valid_addr a \<and> ip_version a = V4" for t a
    by (auto simp: ipv4_address_def valid_addr_def dest!: v4_int_range split: option.splits)
  have v6: "ipv6_address t = Some a \<Longrightarrow> valid_addr a \<and> ip_version a = V6" for t a
    by (auto simp: ipv6_address_def valid_addr_def dest!: v6_int_range
        split: option.splits list.splits if_splits)
  from n show ?thesis
    using ip_network_of_valid [OF _ v4] ip_network_of_valid [OF _ v6]
    by (auto simp: ip_network_def split: sum.splits net_error.splits)
qed

text \<open>The addresses of a network are an interval that starts at the network address.\<close>

lemma in_network_iff:
  assumes "valid_net n" and "valid_addr a"
  shows "in_network a n \<longleftrightarrow> ip_version a = ip_version (network_address n) \<and>
    ip_int (network_address n) \<le> ip_int a \<and>
    ip_int a < ip_int (network_address n) + 2 ^ (max_prefixlen (ip_version a) - prefixlen n)"
proof (cases "ip_version a = ip_version (network_address n)")
  case True
  let ?b = "ip_int (network_address n)" and ?x = "ip_int a"
  let ?m = "2 ^ (max_prefixlen (ip_version a) - prefixlen n) :: int"
  have "?x AND netmask_int (ip_version a) (prefixlen n) = ?x - ?x mod ?m"
    using assms True by (intro and_netmask) (auto simp: valid_addr_def valid_net_def)
  moreover obtain q where q: "?b = ?m * q" using assms(1) True by (auto simp: valid_net_def)
  moreover have "?x - ?x mod ?m = ?m * (?x div ?m)" by (simp add: minus_mod_eq_mult_div)
  moreover have m: "0 < ?m" by simp
  have "?m * (?x div ?m) = ?m * q \<longleftrightarrow> ?m * q \<le> ?x \<and> ?x < ?m * q + ?m"
  proof
    assume "?m * (?x div ?m) = ?m * q"
    with m show "?m * q \<le> ?x \<and> ?x < ?m * q + ?m"
      by (metis add.commute add_less_cancel_left mult_div_mod_eq pos_mod_bound pos_mod_sign le_add_same_cancel1)
  next
    assume "?m * q \<le> ?x \<and> ?x < ?m * q + ?m"
    then have "?x div ?m = q"
      using m by (intro int_div_pos_eq [of _ _ _ "?x - ?m * q"]) auto
    then show "?m * (?x div ?m) = ?m * q" by simp
  qed
  ultimately show ?thesis using True by (simp add: in_network_def)
qed (simp add: in_network_def)

section \<open>Printing\<close>

lemma octet_roundtrip:
  assumes "0 \<le> k" and "k < 256"
  shows "parse_octet (int_str k) = Some k" and "CHR ''.'' \<notin> set (int_str k)"
proof -
  obtain n where n: "k = int n" "n < 256" using assms zero_le_imp_eq_int by fastforce
  have "length (nat_str n) \<le> 3" using nat_str_length [of n 3] n by simp
  moreover have "n = 0 \<Longrightarrow> nat_str n = ''0''"
    using digit_char_props(3) [of 0] by (simp add: nat_str.simps)
  ultimately show "parse_octet (int_str k) = Some k"
    using nat_str_digits [of n] n by (auto simp: parse_octet_def int_str_def)
  show "CHR ''.'' \<notin> set (int_str k)"
    using nat_str_digits [of n] n by (auto simp: int_str_def list_all_iff is_digit_def)
qed

lemma v4_roundtrip:
  assumes "0 \<le> n" and "n < 2 ^ 32"
  shows "v4_int (v4_str n) = Some n"
proof -
  let ?o = "[n div 16777216 mod 256, n div 65536 mod 256, n div 256 mod 256, n mod 256]"
  have "split_on CHR ''.'' (v4_str n) = map int_str ?o"
    unfolding v4_str_def by (rule split_on_join) (auto simp: octet_roundtrip)
  then have "map parse_octet (split_on CHR ''.'' (v4_str n)) = map Some ?o"
    by (simp add: octet_roundtrip)
  moreover have "((n div 16777216 mod 256 * 256 + n div 65536 mod 256) * 256 + n div 256 mod 256) * 256 +
      n mod 256 = n"
  proof -
    have "n div 65536 = n div 256 div 256" "n div 16777216 = n div 65536 div 256"
      using zdiv_zmult2_eq [of 256 n 256] zdiv_zmult2_eq [of 256 n 65536] by simp_all
    moreover have "n div 16777216 mod 256 = n div 16777216" using assms by simp
    ultimately show ?thesis by (simp only: div_mult_mod_eq)
  qed
  ultimately show ?thesis by (simp only: v4_int_def list.map list.case option.case)
qed

lemma v4_chars: "v4_int s = Some n \<Longrightarrow> c \<in> set s \<Longrightarrow> is_digit c \<or> c = CHR ''.''"
proof -
  assume a: "v4_int s = Some n" and c: "c \<in> set s"
  from a obtain x y z w where "map parse_octet (split_on CHR ''.'' s) = [Some x, Some y, Some z, Some w]"
    by (auto simp: v4_int_def split: list.splits option.splits)
  then have "\<forall>t \<in> set (split_on CHR ''.'' s). parse_octet t \<noteq> None" by auto
  then have "\<forall>t \<in> set (split_on CHR ''.'' s). list_all is_digit t"
    by (auto simp: parse_octet_def split: if_splits)
  with c set_split_on [of s "CHR ''.''"] show ?thesis by (fastforce simp: list_all_iff)
qed

lemma v4_address_chars:
  assumes "ip_address s = Some a" and "ip_version a = V4" and "c \<in> set s"
  shows "is_digit c \<or> c = CHR ''.''"
proof -
  have "ipv6_address s = Some a \<Longrightarrow> ip_version a = V6"
    by (auto simp: ipv6_address_def split: list.splits if_splits)
  with assms obtain n where "v4_int s = Some n"
    by (auto simp: ip_address_def ipv4_address_def split: option.splits)
  with assms(3) show ?thesis by (rule v4_chars [rotated])
qed

lemma netmask_bounds: "0 \<le> netmask_int v p \<and> netmask_int v p < 2 ^ max_prefixlen v"
proof -
  have "take_bit (max_prefixlen v) (netmask_int v p) = netmask_int v p"
    by (rule bit_eqI) (auto simp: netmask_int_def all_ones_mask bit_simps)
  then show ?thesis by (simp add: take_bit_int_eq_self_iff)
qed

lemma netmask_str_v4:
  assumes "ip_version (network_address net) = V4"
  shows "v4_int (netmask_str net) = Some (netmask_int V4 (prefixlen net))"
  using v4_roundtrip [of "netmask_int V4 (prefixlen net)"] netmask_bounds [of V4 "prefixlen net"] assms
  by (simp add: netmask_str_def)

end
