(* ===== verification/Gateway_Config.thy ===== *)
theory Gateway_Config
  imports Host Ip_Address
begin

text \<open>
  The gateway agent's configuration (\<open>src/images/gateway-agent/app/models.py\<close>), its validation
  (\<open>validate.py\<close>) and the files rendered from it (\<open>render.py\<close>).
\<close>

section \<open>Configuration\<close>

record wifi_config =
  ssid :: string
  psk :: string
  country_code :: string
  channel :: int
  ap_interface :: string
  upstream_interface :: string
  subnet_cidr :: string
  gateway_ip :: string
  dhcp_range_start :: string
  dhcp_range_end :: string
  enabled :: bool

definition default_config :: "string \<Rightarrow> string \<Rightarrow> wifi_config" where
  "default_config s p = \<lparr>ssid = s, psk = p, country_code = ''PL'', channel = 6,
     ap_interface = ''wlan0'', upstream_interface = ''eth0'', subnet_cidr = ''192.168.50.0/24'',
     gateway_ip = ''192.168.50.1'', dhcp_range_start = ''192.168.50.100'',
     dhcp_range_end = ''192.168.50.200'', enabled = True\<rparr>"

text \<open>The field constraints pydantic enforces on every \<open>WifiConfig\<close>.\<close>

definition wifi_fields_ok :: "wifi_config \<Rightarrow> bool" where
  "wifi_fields_ok c \<longleftrightarrow> 1 \<le> length (ssid c) \<and> length (ssid c) \<le> 32 \<and>
     8 \<le> length (psk c) \<and> length (psk c) \<le> 63 \<and> length (country_code c) = 2 \<and>
     1 \<le> channel c \<and> channel c \<le> 165 \<and> 1 \<le> length (ap_interface c) \<and> 1 \<le> length (upstream_interface c)"

text \<open>One constructor per message; the texts of caught exceptions are not modelled.\<close>

datatype issue =
    Ap_equals_upstream
  | Ap_not_found string
  | Upstream_not_found string
  | Invalid_subnet_cidr
  | Gateway_not_in_subnet
  | Invalid_gateway_ip
  | Dhcp_not_in_subnet
  | Dhcp_start_after_end
  | Gateway_in_dhcp_range
  | Invalid_dhcp_range
  | Refusing_eth0
  | Not_installed string

record validation_result =
  vr_ok :: bool
  vr_issues :: "issue list"

section \<open>Validation\<close>

definition iface_exists :: "'k tool \<Rightarrow> string \<Rightarrow> 'k \<Rightarrow> bool \<times> 'k" where
  "iface_exists exec name = probe exec [''ip'', ''link'', ''show'', name]"

definition bin_exists :: "'k tool \<Rightarrow> string \<Rightarrow> 'k \<Rightarrow> bool \<times> 'k" where
  "bin_exists exec name = probe exec [''sh'', ''-c'', ''command -v '' @ name]"

text \<open>\<open>a <= b\<close> on addresses: \<^term>\<open>None\<close> when it raises because the versions differ.\<close>

definition addr_le :: "ip_addr \<Rightarrow> ip_addr \<Rightarrow> bool option" where
  "addr_le a b = (if ip_version a \<noteq> ip_version b then None
     else Some (ip_int a < ip_int b \<or> ip_int a = ip_int b \<and> scope_id a = scope_id b))"

definition between :: "ip_addr \<Rightarrow> ip_addr \<Rightarrow> ip_addr \<Rightarrow> bool option" where
  "between start gw stop = (case addr_le start gw of
      None \<Rightarrow> None | Some False \<Rightarrow> Some False | Some True \<Rightarrow> addr_le gw stop)"

definition gateway_issues :: "ip_net \<Rightarrow> ip_addr option \<Rightarrow> issue list" where
  "gateway_issues net gw = (case gw of
      None \<Rightarrow> [Invalid_gateway_ip]
    | Some a \<Rightarrow> if in_network a net then [] else [Gateway_not_in_subnet])"

definition dhcp_issues :: "ip_net \<Rightarrow> ip_addr option \<Rightarrow> ip_addr option \<Rightarrow> ip_addr option \<Rightarrow> issue list" where
  "dhcp_issues net gw start stop =
     (case (start, stop) of
        (Some s, Some e) \<Rightarrow>
          (if \<not> in_network s net \<or> \<not> in_network e net then [Dhcp_not_in_subnet] else []) @
          (if ip_int e < ip_int s then [Dhcp_start_after_end] else []) @
          (case gw of None \<Rightarrow> []
           | Some g \<Rightarrow> (case between s g e of None \<Rightarrow> [Invalid_dhcp_range]
               | Some True \<Rightarrow> [Gateway_in_dhcp_range] | Some False \<Rightarrow> []))
      | _ \<Rightarrow> [Invalid_dhcp_range])"

definition validate_config :: "'k tool \<Rightarrow> wifi_config \<Rightarrow> 'k \<Rightarrow> validation_result \<times> 'k" where
  "validate_config exec cfg k0 =
     (if \<not> enabled cfg then (\<lparr>vr_ok = True, vr_issues = []\<rparr>, k0)
      else
        let i1 = (if ap_interface cfg = upstream_interface cfg then [Ap_equals_upstream] else []);
            (ap, k1) = iface_exists exec (ap_interface cfg) k0;
            i2 = (if ap then [] else [Ap_not_found (ap_interface cfg)]);
            (up, k2) = iface_exists exec (upstream_interface cfg) k1;
            i3 = (if up then [] else [Upstream_not_found (upstream_interface cfg)])
        in case ip_network (subnet_cidr cfg) of
             Inl _ \<Rightarrow> (\<lparr>vr_ok = False, vr_issues = i1 @ i2 @ i3 @ [Invalid_subnet_cidr]\<rparr>, k2)
           | Inr net \<Rightarrow>
               let gw = ip_address (gateway_ip cfg);
                   i4 = gateway_issues net gw;
                   i5 = dhcp_issues net gw (ip_address (dhcp_range_start cfg)) (ip_address (dhcp_range_end cfg));
                   i6 = (if ap_interface cfg = ''eth0'' then [Refusing_eth0] else []);
                   (b1, k3) = bin_exists exec ''hostapd'' k2;
                   i7 = (if b1 then [] else [Not_installed ''hostapd'']);
                   (b2, k4) = bin_exists exec ''dnsmasq'' k3;
                   i8 = (if b2 then [] else [Not_installed ''dnsmasq'']);
                   (b3, k5) = bin_exists exec ''iptables'' k4;
                   i9 = (if b3 then [] else [Not_installed ''iptables'']);
                   issues = i1 @ i2 @ i3 @ i4 @ i5 @ i6 @ i7 @ i8 @ i9
               in (\<lparr>vr_ok = (length issues = 0), vr_issues = issues\<rparr>, k5))"

section \<open>Rendering\<close>

definition newline :: string where
  "newline = [CHR 0x0A]"

definition hostapd_lines :: "wifi_config \<Rightarrow> string list" where
  "hostapd_lines cfg =
     [''interface='' @ ap_interface cfg,
      ''driver=nl80211'',
      ''ctrl_interface=/var/run/hostapd'',
      ''ctrl_interface_group=0'',
      ''ssid='' @ ssid cfg,
      ''country_code='' @ country_code cfg,
      ''channel='' @ int_str (channel cfg),
      ''hw_mode=g'',
      ''ieee80211n=1'',
      ''wmm_enabled=1'',
      ''ignore_broadcast_ssid=0'',
      ''auth_algs=1'',
      ''wpa=2'',
      ''wpa_passphrase='' @ psk cfg,
      ''wpa_key_mgmt=WPA-PSK'',
      ''rsn_pairwise=CCMP'',
      newline]"

definition render_hostapd :: "wifi_config \<Rightarrow> string" where
  "render_hostapd cfg = join newline (hostapd_lines cfg)"

definition dnsmasq_lines :: "wifi_config \<Rightarrow> ip_net \<Rightarrow> string list" where
  "dnsmasq_lines cfg net =
     [''# Managed by gateway-agent'',
      ''domain-needed'',
      ''bogus-priv'',
      ''no-resolv'',
      ''dhcp-authoritative'',
      ''server=1.1.1.1'',
      ''server=8.8.8.8'',
      ''log-dhcp'',
      ''log-queries'',
      ''interface='' @ ap_interface cfg,
      ''bind-interfaces'',
      ''except-interface=lo'',
      ''dhcp-leasefile=/data/dnsmasq.leases'',
      ''dhcp-range='' @ dhcp_range_start cfg @ '','' @ dhcp_range_end cfg @ '','' @ netmask_str net @ '',12h'',
      ''dhcp-option=option:router,'' @ gateway_ip cfg,
      ''dhcp-option=option:dns-server,'' @ gateway_ip cfg,
      newline]"

definition render_dnsmasq :: "wifi_config \<Rightarrow> net_error + string" where
  "render_dnsmasq cfg = (case ip_network (subnet_cidr cfg) of
      Inl e \<Rightarrow> Inl e | Inr net \<Rightarrow> Inr (join newline (dnsmasq_lines cfg net)))"

text \<open>The values of a key in a rendered file, in order.\<close>

definition conf_values :: "string \<Rightarrow> string \<Rightarrow> string list" where
  "conf_values key text = map (drop (length key + 1))
     (filter (\<lambda>l. starts_with l (key @ ''='')) (split_on CHR 0x0A text))"

section \<open>What validation checks\<close>

lemma validate_accepts:
  assumes "validate_config exec cfg k = (res, k')" and "vr_ok res" and "enabled cfg"
  shows "\<exists>net gw s e. ip_network (subnet_cidr cfg) = Inr net \<and>
    ap_interface cfg \<noteq> upstream_interface cfg \<and> ap_interface cfg \<noteq> ''eth0'' \<and>
    ip_address (gateway_ip cfg) = Some gw \<and> in_network gw net \<and>
    ip_address (dhcp_range_start cfg) = Some s \<and> ip_address (dhcp_range_end cfg) = Some e \<and>
    in_network s net \<and> in_network e net \<and> ip_int s \<le> ip_int e \<and> between s gw e = Some False"
proof -
  from assms obtain net where net: "ip_network (subnet_cidr cfg) = Inr net"
    and g: "gateway_issues net (ip_address (gateway_ip cfg)) = []"
    and d: "dhcp_issues net (ip_address (gateway_ip cfg)) (ip_address (dhcp_range_start cfg))
        (ip_address (dhcp_range_end cfg)) = []"
    and rest: "ap_interface cfg \<noteq> upstream_interface cfg" "ap_interface cfg \<noteq> ''eth0''"
    by (auto simp: validate_config_def Let_def split: sum.splits prod.splits if_splits)
  from g obtain gw where gw: "ip_address (gateway_ip cfg) = Some gw" "in_network gw net"
    by (auto simp: gateway_issues_def split: option.splits if_splits)
  from d gw obtain s e where se: "ip_address (dhcp_range_start cfg) = Some s"
    "ip_address (dhcp_range_end cfg) = Some e" "in_network s net" "in_network e net" "ip_int s \<le> ip_int e"
    "between s gw e = Some False"
    by (auto simp: dhcp_issues_def split: option.splits if_splits bool.splits)
  from net rest gw se show ?thesis by blast
qed

section \<open>Example inputs\<close>

text \<open>A host on which every program succeeds.\<close>

definition ex_tool :: "unit tool" where
  "ex_tool cmd k = (Some \<lparr>returncode = 0, stdout = [], stderr = []\<rparr>, k)"

definition ex_config :: wifi_config where
  "ex_config = default_config ''iot'' ''correct horse''"

lemma ex_addresses:
  "ip_network ''192.168.50.0/24'' = Inr \<lparr>network_address = \<lparr>ip_version = V4, ip_int = 3232248320,
     scope_id = None\<rparr>, prefixlen = 24\<rparr>"
  "ip_address ''192.168.50.1'' = Some \<lparr>ip_version = V4, ip_int = 3232248321, scope_id = None\<rparr>"
  "ip_address ''192.168.50.100'' = Some \<lparr>ip_version = V4, ip_int = 3232248420, scope_id = None\<rparr>"
  "ip_address ''192.168.50.200'' = Some \<lparr>ip_version = V4, ip_int = 3232248520, scope_id = None\<rparr>"
  by code_simp+

lemma ex_validate: "vr_ok (fst (validate_config ex_tool ex_config ()))"
  by code_simp

section \<open>Properties\<close>

text \<open>
  C12: a configuration that validation accepts and that is enabled is safe to apply: the AP
  interface differs from the upstream interface and is not \<open>eth0\<close>; the subnet parses as an aligned
  network; gateway and DHCP range ends parse, lie in the interval of the subnet's addresses and
  have its version; the range is not empty; and (unless scope ids differ) the gateway is outside it.
\<close>

theorem validate_sound:
  assumes "validate_config exec cfg k = (res, k')" and "vr_ok res" and "enabled cfg"
  shows "ap_interface cfg \<noteq> upstream_interface cfg \<and> ap_interface cfg \<noteq> ''eth0'' \<and>
    (\<exists>net gw s e. ip_network (subnet_cidr cfg) = Inr net \<and> ip_address (gateway_ip cfg) = Some gw \<and>
       ip_address (dhcp_range_start cfg) = Some s \<and> ip_address (dhcp_range_end cfg) = Some e \<and>
       (\<forall>a \<in> {gw, s, e}. ip_version a = ip_version (network_address net) \<and>
          ip_int (network_address net) \<le> ip_int a \<and>
          ip_int a < ip_int (network_address net) + 2 ^ (max_prefixlen (ip_version a) - prefixlen net)) \<and>
       ip_int s \<le> ip_int e \<and>
       (scope_id s = scope_id gw \<and> scope_id e = scope_id gw \<longrightarrow> ip_int gw < ip_int s \<or> ip_int e < ip_int gw))"
proof -
  obtain net gw s e where net: "ip_network (subnet_cidr cfg) = Inr net"
    and rest: "ap_interface cfg \<noteq> upstream_interface cfg" "ap_interface cfg \<noteq> ''eth0''"
    and gw: "ip_address (gateway_ip cfg) = Some gw" "in_network gw net"
    and se: "ip_address (dhcp_range_start cfg) = Some s" "ip_address (dhcp_range_end cfg) = Some e"
      "in_network s net" "in_network e net" "ip_int s \<le> ip_int e" "between s gw e = Some False"
    using validate_accepts [OF assms] by blast
  have iv: "ip_version a = ip_version (network_address net) \<and> ip_int (network_address net) \<le> ip_int a \<and>
      ip_int a < ip_int (network_address net) + 2 ^ (max_prefixlen (ip_version a) - prefixlen net)"
    if "a \<in> {gw, s, e}" for a
    using that gw se in_network_iff [OF ip_network_valid [OF net], of a] ip_address_valid by auto
  moreover have "scope_id s = scope_id gw \<and> scope_id e = scope_id gw \<longrightarrow> ip_int gw < ip_int s \<or> ip_int e < ip_int gw"
    using se(6) by (auto simp: between_def addr_le_def split: if_splits option.splits bool.splits)
  ultimately show ?thesis using net gw se rest by blast
qed


theorem validate_sound_witness:
  "vr_ok (fst (validate_config ex_tool ex_config ())) \<and>
     (\<exists>net gw. ip_network (subnet_cidr ex_config) = Inr net \<and> ip_address (gateway_ip ex_config) = Some gw \<and>
        ip_int (network_address net) \<le> ip_int gw)"
proof -
  obtain res k where v: "validate_config ex_tool ex_config () = (res, k)"
    by (cases "validate_config ex_tool ex_config ()")
  have "enabled ex_config" by (simp add: ex_config_def default_config_def)
  with validate_sound [OF v] ex_validate v show ?thesis by fastforce
qed

text \<open>
  When no field contains a line break, \<open>hostapd\<close>'s file has each setting exactly once with the
  configured value: interface, SSID, country code, channel and passphrase read back.
\<close>

theorem hostapd_settings:
  assumes "\<forall>t \<in> {ap_interface cfg, ssid cfg, country_code cfg, psk cfg}. CHR 0x0A \<notin> set t"
  shows "conf_values ''interface'' (render_hostapd cfg) = [ap_interface cfg] \<and>
    conf_values ''ssid'' (render_hostapd cfg) = [ssid cfg] \<and>
    conf_values ''country_code'' (render_hostapd cfg) = [country_code cfg] \<and>
    conf_values ''channel'' (render_hostapd cfg) = [int_str (channel cfg)] \<and>
    conf_values ''wpa'' (render_hostapd cfg) = [''2''] \<and>
    conf_values ''wpa_passphrase'' (render_hostapd cfg) = [psk cfg]"
proof -
  have "CHR 0x0A \<notin> set (int_str (channel cfg))"
    using set_int_str [of "CHR 0x0A" "channel cfg"] by (auto simp: is_digit_def)
  with assms have "\<forall>w \<in> set (butlast (hostapd_lines cfg)). CHR 0x0A \<notin> set w"
    by (simp add: hostapd_lines_def)
  moreover have "hostapd_lines cfg = butlast (hostapd_lines cfg) @ [newline]"
    by (simp add: hostapd_lines_def)
  ultimately have "split_on CHR 0x0A (render_hostapd cfg) = butlast (hostapd_lines cfg) @ [[], []]"
    unfolding render_hostapd_def newline_def by (metis split_on_join_last)
  then show ?thesis by (simp add: conf_values_def starts_with_def hostapd_lines_def)
qed

theorem hostapd_settings_witness:
  "conf_values ''ssid'' (render_hostapd ex_config) = [''iot'']"
  using hostapd_settings [of ex_config] by (simp add: ex_config_def default_config_def)

text \<open>
  Nothing keeps line breaks out. For every text without a line break that is short enough, there
  is a configuration whose fields satisfy all their constraints, that differs from an accepted one only
  in the SSID, and whose rendered \<open>hostapd\<close> file contains the text as a line of its own.
\<close>

theorem hostapd_line_injection:
  assumes "wifi_fields_ok cfg" and "CHR 0x0A \<notin> set line" and "length line \<le> 30"
  shows "\<exists>name. let bad = cfg\<lparr>ssid := name\<rparr> in wifi_fields_ok bad \<and>
    (\<forall>exec k. validate_config exec bad k = validate_config exec cfg k) \<and>
    line \<in> set (split_on CHR 0x0A (render_hostapd bad))"
proof -
  let ?bad = "cfg\<lparr>ssid := CHR ''x'' # CHR 0x0A # line\<rparr>"
  have "wifi_fields_ok ?bad" using assms by (simp add: wifi_fields_ok_def)
  moreover have "validate_config exec ?bad k = validate_config exec cfg k"
    for exec :: "'k tool" and k
    by (cases cfg) (simp only: validate_config_def wifi_config.simps)
  moreover have "line \<in> set (split_on CHR 0x0A (render_hostapd ?bad))"
  proof -
    let ?pre = "join newline (take 4 (hostapd_lines cfg)) @ newline @ ''ssid=x''"
    let ?post = "join newline (drop 5 (hostapd_lines cfg))"
    have "render_hostapd ?bad = ?pre @ CHR 0x0A # line @ CHR 0x0A # ?post"
      by (simp add: render_hostapd_def hostapd_lines_def newline_def)
    then obtain pre post where "render_hostapd ?bad = pre @ CHR 0x0A # line @ CHR 0x0A # post" by blast
    then show ?thesis using assms(2) by (simp add: split_on_mid split_on_plain)
  qed
  ultimately show ?thesis by (auto simp: Let_def)
qed

theorem hostapd_line_injection_witness:
  "\<exists>name. wifi_fields_ok (ex_config\<lparr>ssid := name\<rparr>) \<and>
     vr_ok (fst (validate_config ex_tool (ex_config\<lparr>ssid := name\<rparr>) ())) \<and>
     ''wpa=0'' \<in> set (split_on CHR 0x0A (render_hostapd (ex_config\<lparr>ssid := name\<rparr>)))"
proof -
  have "wifi_fields_ok ex_config"
    by (simp add: ex_config_def default_config_def wifi_fields_ok_def)
  then obtain name where n: "wifi_fields_ok (ex_config\<lparr>ssid := name\<rparr>)"
    "\<forall>exec k. validate_config exec (ex_config\<lparr>ssid := name\<rparr>) (k :: unit) = validate_config exec ex_config k"
    "''wpa=0'' \<in> set (split_on CHR 0x0A (render_hostapd (ex_config\<lparr>ssid := name\<rparr>)))"
    using hostapd_line_injection [where ?'a = unit, of ex_config "''wpa=0''"] by (auto simp: Let_def)
  then show ?thesis using ex_validate by (intro exI [of _ name]) simp
qed

text \<open>
  C35: for an accepted IPv4 configuration whose AP interface name has no line break, \<open>dnsmasq\<close>'s file
  renders, serves exactly the configured interface, and its DHCP range is the two configured
  addresses with the dotted netmask of the subnet's prefix.
\<close>

theorem dnsmasq_settings:
  assumes "validate_config exec cfg k = (res, k')" and "vr_ok res" and "enabled cfg"
    and "ip_network (subnet_cidr cfg) = Inr net" and "ip_version (network_address net) = V4"
    and "CHR 0x0A \<notin> set (ap_interface cfg)"
  shows "\<exists>text mask. render_dnsmasq cfg = Inr text \<and>
    conf_values ''interface'' text = [ap_interface cfg] \<and>
    map (split_on CHR '','') (conf_values ''dhcp-range'' text) =
      [[dhcp_range_start cfg, dhcp_range_end cfg, mask, ''12h'']] \<and>
    v4_int mask = Some (netmask_int V4 (prefixlen net))"
proof -
  let ?mask = "netmask_str net" and ?lines = "butlast (dnsmasq_lines cfg net)"
  from validate_accepts [OF assms(1-3)] assms(4,5) obtain gw s e where
    "ip_address (gateway_ip cfg) = Some gw" "ip_version gw = V4"
    "ip_address (dhcp_range_start cfg) = Some s" "ip_version s = V4"
    "ip_address (dhcp_range_end cfg) = Some e" "ip_version e = V4"
    by (auto simp: in_network_def)
  note chars = v4_address_chars [OF this(1,2)] v4_address_chars [OF this(3,4)] v4_address_chars [OF this(5,6)]
    v4_chars [OF netmask_str_v4 [OF assms(5)]]
  have plain: "c \<notin> set t" if "t \<in> {gateway_ip cfg, dhcp_range_start cfg, dhcp_range_end cfg, ?mask}"
      "c \<in> {CHR 0x0A, CHR '',''}" for t c
    using that chars [of c] by (auto simp: is_digit_def)
  have "\<forall>w \<in> set ?lines. CHR 0x0A \<notin> set w"
    using assms(6) plain by (simp add: dnsmasq_lines_def)
  moreover have "dnsmasq_lines cfg net = ?lines @ [newline]" by (simp add: dnsmasq_lines_def)
  ultimately have "split_on CHR 0x0A (join newline (dnsmasq_lines cfg net)) = ?lines @ [[], []]"
    unfolding newline_def by (metis split_on_join_last)
  then have "conf_values ''interface'' (join newline (dnsmasq_lines cfg net)) = [ap_interface cfg]"
    "conf_values ''dhcp-range'' (join newline (dnsmasq_lines cfg net)) =
       [dhcp_range_start cfg @ CHR '','' # dhcp_range_end cfg @ CHR '','' # ?mask @ CHR '','' # ''12h'']"
    by (simp_all add: conf_values_def starts_with_def dnsmasq_lines_def)
  then show ?thesis
    using assms(4) plain netmask_str_v4 [OF assms(5)]
    by (auto simp: render_dnsmasq_def split_on_append)
qed

theorem dnsmasq_settings_witness:
  "\<exists>text mask. render_dnsmasq ex_config = Inr text \<and>
     map (split_on CHR '','') (conf_values ''dhcp-range'' text) =
       [[''192.168.50.100'', ''192.168.50.200'', mask, ''12h'']]"
proof -
  obtain res k where v: "validate_config ex_tool ex_config () = (res, k)"
    by (cases "validate_config ex_tool ex_config ()")
  let ?net = "\<lparr>network_address = \<lparr>ip_version = V4, ip_int = 3232248320, scope_id = None\<rparr>, prefixlen = 24\<rparr>"
  have "ip_network (subnet_cidr ex_config) = Inr ?net" "enabled ex_config"
    "CHR 0x0A \<notin> set (ap_interface ex_config)"
    by (simp_all add: ex_config_def default_config_def ex_addresses)
  with dnsmasq_settings [OF v, of ?net] ex_validate v show ?thesis
    by (auto simp: ex_config_def default_config_def)
qed

end
