(* ===== verification/Iptables.thy ===== *)
theory Iptables
  imports Gateway_Config
begin

text \<open>
  The gateway agent's firewall operations (\<open>src/images/gateway-agent/app/iptables.py\<close>): chains, jumps,
  forwarding rules, teardown and device blocks. \<open>iptables\<close> itself is a parameter; the locale
  \<open>iptables_tool\<close> states its documented behaviour, the agent's operations are shown inside it to refine
  operations on abstract tables, and a kernel model meets it.
\<close>

section \<open>Operations\<close>

definition NAT_TABLE :: string where "NAT_TABLE = ''nat''"
definition FILTER_TABLE :: string where "FILTER_TABLE = ''filter''"
definition NAT_CHAIN :: string where "NAT_CHAIN = ''IOT_GATEWAY_NAT''"
definition FWD_CHAIN :: string where "FWD_CHAIN = ''IOT_GATEWAY_FWD''"
definition BLOCK_CHAIN :: string where "BLOCK_CHAIN = ''IOT_DEVICE_BLOCK''"

type_synonym rule = "string list"

definition ipt :: "string \<Rightarrow> string list \<Rightarrow> string list" where
  "ipt t args = ''iptables'' # ''-t'' # t # args"

definition jump :: "string \<Rightarrow> rule" where
  "jump c = [''-j'', c]"

definition nat_rule :: "string \<Rightarrow> string \<Rightarrow> rule" where
  "nat_rule subnet upstream = [''-s'', subnet, ''-o'', upstream, ''-j'', ''MASQUERADE'']"

definition out_rule :: "string \<Rightarrow> string \<Rightarrow> rule" where
  "out_rule ap upstream = [''-i'', ap, ''-o'', upstream, ''-j'', ''ACCEPT'']"

definition back_rule :: "string \<Rightarrow> string \<Rightarrow> rule" where
  "back_rule ap upstream = [''-i'', upstream, ''-o'', ap, ''-m'', ''conntrack'', ''--ctstate'',
     ''RELATED,ESTABLISHED'', ''-j'', ''ACCEPT'']"

definition drop_rule :: "string \<Rightarrow> rule" where
  "drop_rule mac = [''-m'', ''mac'', ''--mac-source'', mac, ''-j'', ''DROP'']"

text \<open>\<open>if not _exists(cmd): action\<close>, and \<open>_run\<close> with its result dropped.\<close>

definition unless_exists :: "'k tool \<Rightarrow> string list \<Rightarrow> ('k, unit) action \<Rightarrow> ('k, unit) action" where
  "unless_exists exec cmd act k = (case probe exec cmd k of (found, k') \<Rightarrow> if found then (Inr (), k') else act k')"

definition do_run :: "'k tool \<Rightarrow> string list \<Rightarrow> ('k, unit) action" where
  "do_run exec cmd = andthen (run_checked exec cmd) (\<lambda>_. returns ())"

definition ensure_chains :: "'k tool \<Rightarrow> ('k, unit) action" where
  "ensure_chains exec = run_all
     [unless_exists exec (ipt NAT_TABLE [''-S'', NAT_CHAIN])
        (run_unchecked exec (ipt NAT_TABLE [''-N'', NAT_CHAIN])),
      unless_exists exec (ipt FILTER_TABLE [''-S'', FWD_CHAIN])
        (run_unchecked exec (ipt FILTER_TABLE [''-N'', FWD_CHAIN])),
      unless_exists exec (ipt FILTER_TABLE [''-S'', BLOCK_CHAIN])
        (run_unchecked exec (ipt FILTER_TABLE [''-N'', BLOCK_CHAIN]))]"

definition ensure_jump_rules :: "'k tool \<Rightarrow> ('k, unit) action" where
  "ensure_jump_rules exec = run_all
     [unless_exists exec (ipt NAT_TABLE (''-C'' # ''POSTROUTING'' # jump NAT_CHAIN))
        (do_run exec (ipt NAT_TABLE (''-A'' # ''POSTROUTING'' # jump NAT_CHAIN))),
      unless_exists exec (ipt FILTER_TABLE (''-C'' # ''FORWARD'' # jump FWD_CHAIN))
        (do_run exec (ipt FILTER_TABLE (''-A'' # ''FORWARD'' # jump FWD_CHAIN))),
      unless_exists exec (ipt FILTER_TABLE (''-C'' # ''FORWARD'' # jump BLOCK_CHAIN))
        (do_run exec (ipt FILTER_TABLE (''-I'' # ''FORWARD'' # ''1'' # jump BLOCK_CHAIN)))]"

definition ensure_nat_rules :: "'k tool \<Rightarrow> string \<Rightarrow> string \<Rightarrow> string \<Rightarrow> ('k, unit) action" where
  "ensure_nat_rules exec subnet ap upstream = run_all
     [unless_exists exec (ipt NAT_TABLE (''-C'' # NAT_CHAIN # nat_rule subnet upstream))
        (do_run exec (ipt NAT_TABLE (''-A'' # NAT_CHAIN # nat_rule subnet upstream))),
      unless_exists exec (ipt FILTER_TABLE (''-C'' # FWD_CHAIN # out_rule ap upstream))
        (do_run exec (ipt FILTER_TABLE (''-A'' # FWD_CHAIN # out_rule ap upstream))),
      unless_exists exec (ipt FILTER_TABLE (''-C'' # FWD_CHAIN # back_rule ap upstream))
        (do_run exec (ipt FILTER_TABLE (''-A'' # FWD_CHAIN # back_rule ap upstream)))]"

definition teardown :: "'k tool \<Rightarrow> ('k, unit) action" where
  "teardown exec = run_all (map (run_unchecked exec)
     [ipt NAT_TABLE (''-D'' # ''POSTROUTING'' # jump NAT_CHAIN),
      ipt FILTER_TABLE (''-D'' # ''FORWARD'' # jump FWD_CHAIN),
      ipt FILTER_TABLE (''-D'' # ''FORWARD'' # jump BLOCK_CHAIN),
      ipt NAT_TABLE [''-F'', NAT_CHAIN],
      ipt FILTER_TABLE [''-F'', FWD_CHAIN],
      ipt FILTER_TABLE [''-F'', BLOCK_CHAIN],
      ipt NAT_TABLE [''-X'', NAT_CHAIN],
      ipt FILTER_TABLE [''-X'', FWD_CHAIN],
      ipt FILTER_TABLE [''-X'', BLOCK_CHAIN]])"

text \<open>The pattern of \<open>_MAC_RE\<close>: six groups of two hexadecimal digits, separated by colons.\<close>

definition mac_re :: "string \<Rightarrow> bool" where
  "mac_re s = (let gs = split_on CHR '':'' s in
     length gs = 6 \<and> list_all (\<lambda>g. length g = 2 \<and> list_all (\<lambda>c. hex_digit c \<noteq> None) g) gs)"

definition validate_mac :: "string \<Rightarrow> host_error + string" where
  "validate_mac mac = (let m = lower (strip mac) in
     if mac_re m then Inr m else Inl (Value_error (''Invalid MAC address: '' @ m)))"

definition block_device :: "'k tool \<Rightarrow> string \<Rightarrow> ('k, bool) action" where
  "block_device exec mac k = (case validate_mac mac of Inl e \<Rightarrow> (Inl e, k) | Inr m \<Rightarrow>
     (case probe exec (ipt FILTER_TABLE (''-C'' # BLOCK_CHAIN # drop_rule m)) k of (found, k') \<Rightarrow>
        if found then (Inr False, k')
        else andthen (do_run exec (ipt FILTER_TABLE (''-A'' # BLOCK_CHAIN # drop_rule m))) (\<lambda>_. returns True) k'))"

definition unblock_device :: "'k tool \<Rightarrow> string \<Rightarrow> ('k, bool) action" where
  "unblock_device exec mac k = (case validate_mac mac of Inl e \<Rightarrow> (Inl e, k) | Inr m \<Rightarrow>
     (case probe exec (ipt FILTER_TABLE (''-C'' # BLOCK_CHAIN # drop_rule m)) k of (found, k') \<Rightarrow>
        if \<not> found then (Inr False, k')
        else andthen (do_run exec (ipt FILTER_TABLE (''-D'' # BLOCK_CHAIN # drop_rule m))) (\<lambda>_. returns True) k'))"

text \<open>The address in one line of \<open>iptables -S\<close>, if the line is a drop rule for one.\<close>

definition blocked_mac :: "string \<Rightarrow> string list" where
  "blocked_mac line =
     (if contains ''--mac-source'' line \<and> contains ''-j DROP'' line
      then case dropWhile (\<lambda>p. p \<noteq> ''--mac-source'') (split_ws line) of
             _ # m # _ \<Rightarrow> [lower m] | _ \<Rightarrow> []
      else [])"

definition list_blocked :: "'k tool \<Rightarrow> ('k, string list) action" where
  "list_blocked exec k = (case run_checked exec (ipt FILTER_TABLE [''-S'', BLOCK_CHAIN]) k of
      (Inl (Called_process_error _), k') \<Rightarrow> (Inr [], k')
    | (Inl e, k') \<Rightarrow> (Inl e, k')
    | (Inr r, k') \<Rightarrow> (Inr (concat (map blocked_mac (splitlines (stdout r)))), k'))"

section \<open>Text lemmas\<close>

lemma lower_char_idem: "lower_char (lower_char c) = lower_char c"
  by (auto simp: lower_char_def Let_def)

lemma lower_idem: "lower (lower s) = lower s"
  by (simp add: lower_def lower_char_idem)

lemma validate_mac_ok:
  "validate_mac mac = Inr m \<Longrightarrow> mac_re m \<and> lower m = m \<and> m = lower (strip mac)"
  by (auto simp: validate_mac_def Let_def lower_idem split: if_splits)

lemma split_ws_word:
  assumes "w \<noteq> []" and "\<forall>c \<in> set w. \<not> is_space c"
  shows "split_ws (w @ CHR '' '' # s) = w # split_ws s" and "split_ws w = [w]"
proof -
  obtain c cs where w: "w = c # cs" using assms(1) by (cases w) auto
  have sp: "is_space CHR '' ''" by (simp add: is_space_def)
  have "dropWhile is_space (w @ CHR '' '' # s) = c # (cs @ CHR '' '' # s)" using assms w by simp
  moreover have "takeWhile (\<lambda>x. \<not> is_space x) (cs @ CHR '' '' # s) = cs"
    "dropWhile (\<lambda>x. \<not> is_space x) (cs @ CHR '' '' # s) = CHR '' '' # s"
    using assms w sp by (simp_all add: takeWhile_append dropWhile_append)
  ultimately have "split_ws (w @ CHR '' '' # s) = w # split_ws (CHR '' '' # s)"
    by (subst split_ws.simps) (simp only: list.case w)
  moreover have "split_ws (CHR '' '' # s) = split_ws s"
    using sp by (simp add: split_ws.simps [of "CHR '' '' # s"] split_ws.simps [of s])
  ultimately show "split_ws (w @ CHR '' '' # s) = w # split_ws s" by simp
  have "dropWhile is_space w = c # cs" "takeWhile (\<lambda>x. \<not> is_space x) cs = cs"
    "dropWhile (\<lambda>x. \<not> is_space x) cs = []"
    using assms w by (simp_all add: takeWhile_eq_all_conv)
  moreover have "split_ws [] = []" by (subst split_ws.simps) simp
  ultimately show "split_ws w = [w]" by (subst split_ws.simps) (simp only: list.case w)
qed

lemma split_ws_join:
  "\<forall>w \<in> set ws. w \<noteq> [] \<and> (\<forall>c \<in> set w. \<not> is_space c) \<Longrightarrow> split_ws (join '' '' ws) = ws"
  by (induction "'' ''" ws rule: join.induct)
    (auto simp: split_ws_word split_ws.simps [of "[]"])

lemma contains_middle: "contains sub (a @ sub @ b)"
proof (induction a)
  case Nil
  have "take (length sub) (sub @ b) = sub" by simp
  then show ?case by (cases "sub @ b") (auto simp: starts_with_def simp del: take_append)
qed auto

lemma mac_chars: "mac_re m \<Longrightarrow> c \<in> set m \<Longrightarrow> hex_digit c \<noteq> None \<or> c = CHR '':''"
  using set_split_on [of m "CHR '':''"] by (fastforce simp: mac_re_def Let_def list_all_iff)

lemma mac_plain: "mac_re m \<Longrightarrow> m \<noteq> [] \<and> (\<forall>c \<in> set m. \<not> is_space c)"
proof
  assume m: "mac_re m"
  then show "m \<noteq> []" by (auto simp: mac_re_def)
  have "hex_digit c \<noteq> None \<Longrightarrow> \<not> is_space c" for c
    by (auto simp: is_space_def Let_def split: if_splits)
  moreover have "\<not> is_space CHR '':''" by (simp add: is_space_def)
  ultimately show "\<forall>c \<in> set m. \<not> is_space c" using mac_chars [OF m] by metis
qed

text \<open>A listed drop rule yields its address.\<close>

lemma blocked_mac_drop:
  assumes "mac_re m"
  shows "blocked_mac (join '' '' (''-A'' # BLOCK_CHAIN # drop_rule m)) = [lower m]"
proof -
  let ?ws = "''-A'' # BLOCK_CHAIN # drop_rule m"
  have "\<forall>w \<in> set ?ws. w \<noteq> [] \<and> (\<forall>c \<in> set w. \<not> is_space c)"
    using mac_plain [OF assms] by (auto simp: drop_rule_def BLOCK_CHAIN_def is_space_def)
  then have ws: "split_ws (join '' '' ?ws) = ?ws" by (rule split_ws_join)
  have line: "join '' '' ?ws = ''-A IOT_DEVICE_BLOCK -m mac '' @ ''--mac-source'' @ '' '' @ m @ '' -j DROP''"
    by (simp add: drop_rule_def BLOCK_CHAIN_def)
  have "contains ''--mac-source'' (join '' '' ?ws)"
    unfolding line by (rule contains_middle)
  moreover have "contains ''-j DROP'' (join '' '' ?ws)"
    using contains_middle [of "''-j DROP''" "''-A IOT_DEVICE_BLOCK -m mac '' @ ''--mac-source'' @ '' '' @ m @ '' ''" "[]"]
    unfolding line by simp
  ultimately show ?thesis
    unfolding blocked_mac_def ws by (simp add: drop_rule_def BLOCK_CHAIN_def)
qed

lemma blocked_mac_header: "blocked_mac (''-N '' @ BLOCK_CHAIN) = []"
  by (simp add: blocked_mac_def BLOCK_CHAIN_def starts_with_def)

section \<open>The contract of \<open>iptables\<close>\<close>

text \<open>
  What the agent relies on, as documented in \<open>iptables(8)\<close>: \<open>view\<close> is the rules of each chain of each
  table, \<open>accepts\<close> whether a rule can be added, \<open>shown\<close> how a rule is listed. A command that fails
  changes nothing, and nothing else changes the tables between two commands.
\<close>

definition refers :: "rule \<Rightarrow> string \<Rightarrow> bool" where
  "refers r c = (drop (length r - 2) r = jump c)"

type_synonym tables = "string \<times> string \<Rightarrow> rule list option"

text \<open>The same operations on the abstract tables.\<close>

definition with_chain :: "string \<Rightarrow> string \<Rightarrow> tables \<Rightarrow> tables" where
  "with_chain t c V = (if V (t, c) = None then V((t, c) \<mapsto> []) else V)"

definition with_last :: "string \<Rightarrow> string \<Rightarrow> rule \<Rightarrow> tables \<Rightarrow> tables" where
  "with_last t c r V = (case V (t, c) of None \<Rightarrow> V
     | Some rs \<Rightarrow> if r \<in> set rs then V else V((t, c) \<mapsto> rs @ [r]))"

definition with_first :: "string \<Rightarrow> string \<Rightarrow> rule \<Rightarrow> tables \<Rightarrow> tables" where
  "with_first t c r V = (case V (t, c) of None \<Rightarrow> V
     | Some rs \<Rightarrow> if r \<in> set rs then V else V((t, c) \<mapsto> r # rs))"

definition without :: "string \<Rightarrow> string \<Rightarrow> rule \<Rightarrow> tables \<Rightarrow> tables" where
  "without t c r V = (case V (t, c) of None \<Rightarrow> V | Some rs \<Rightarrow> V((t, c) \<mapsto> remove1 r rs))"

definition emptied :: "string \<Rightarrow> string \<Rightarrow> tables \<Rightarrow> tables" where
  "emptied t c V = (if V (t, c) = None then V else V((t, c) \<mapsto> []))"

definition unreferenced :: "string \<Rightarrow> string \<Rightarrow> tables \<Rightarrow> bool" where
  "unreferenced t c V \<longleftrightarrow> (\<forall>c' rs r. V (t, c') = Some rs \<longrightarrow> r \<in> set rs \<longrightarrow> \<not> refers r c)"

definition dropped :: "string \<Rightarrow> string \<Rightarrow> tables \<Rightarrow> tables" where
  "dropped t c V = (if V (t, c) = Some [] \<and> unreferenced t c V then V((t, c) := None) else V)"

definition fw_chains :: "tables \<Rightarrow> tables" where
  "fw_chains V = with_chain FILTER_TABLE BLOCK_CHAIN (with_chain FILTER_TABLE FWD_CHAIN
     (with_chain NAT_TABLE NAT_CHAIN V))"

definition fw_jumps :: "tables \<Rightarrow> tables" where
  "fw_jumps V = with_first FILTER_TABLE ''FORWARD'' (jump BLOCK_CHAIN)
     (with_last FILTER_TABLE ''FORWARD'' (jump FWD_CHAIN)
       (with_last NAT_TABLE ''POSTROUTING'' (jump NAT_CHAIN) V))"

definition fw_teardown :: "tables \<Rightarrow> tables" where
  "fw_teardown V =
     dropped FILTER_TABLE BLOCK_CHAIN (dropped FILTER_TABLE FWD_CHAIN (dropped NAT_TABLE NAT_CHAIN
       (emptied FILTER_TABLE BLOCK_CHAIN (emptied FILTER_TABLE FWD_CHAIN (emptied NAT_TABLE NAT_CHAIN
         (without FILTER_TABLE ''FORWARD'' (jump BLOCK_CHAIN)
           (without FILTER_TABLE ''FORWARD'' (jump FWD_CHAIN)
             (without NAT_TABLE ''POSTROUTING'' (jump NAT_CHAIN) V))))))))"

lemmas chain_names = NAT_TABLE_def FILTER_TABLE_def NAT_CHAIN_def FWD_CHAIN_def BLOCK_CHAIN_def

locale iptables_tool =
  fixes exec :: "'k tool"
    and view :: "'k \<Rightarrow> string \<times> string \<Rightarrow> rule list option"
    and accepts :: "'k \<Rightarrow> string \<Rightarrow> rule \<Rightarrow> bool"
    and shown :: "rule \<Rightarrow> rule"
  assumes starts: "exec (ipt t args) k = (res, k') \<Longrightarrow> res \<noteq> None"
    and show_chain: "exec (ipt t [''-S'', c]) k = (Some p, k') \<Longrightarrow>
      view k' = view k \<and> (returncode p = 0 \<longleftrightarrow> view k (t, c) \<noteq> None)"
    and show_rules: "exec (ipt FILTER_TABLE [''-S'', BLOCK_CHAIN]) k = (Some p, k') \<Longrightarrow>
      view k (FILTER_TABLE, BLOCK_CHAIN) = Some (map drop_rule ms) \<Longrightarrow> \<forall>m \<in> set ms. mac_re m \<Longrightarrow>
      splitlines (stdout p) = (''-N '' @ BLOCK_CHAIN) #
        map (\<lambda>m. join '' '' (''-A'' # BLOCK_CHAIN # shown (drop_rule m))) ms"
    and new_chain: "exec (ipt t [''-N'', c]) k = (Some p, k') \<Longrightarrow>
      view k' = (if view k (t, c) = None then (view k)((t, c) \<mapsto> []) else view k)"
    and check: "exec (ipt t (''-C'' # c # r)) k = (Some p, k') \<Longrightarrow>
      view k' = view k \<and> (returncode p = 0 \<longleftrightarrow> (\<exists>rs. view k (t, c) = Some rs \<and> r \<in> set rs))"
    and append: "exec (ipt t (''-A'' # c # r)) k = (Some p, k') \<Longrightarrow>
      (case view k (t, c) of
         Some rs \<Rightarrow> if accepts k t r then returncode p = 0 \<and> view k' = (view k)((t, c) \<mapsto> rs @ [r])
                    else returncode p \<noteq> 0 \<and> view k' = view k
       | None \<Rightarrow> returncode p \<noteq> 0 \<and> view k' = view k)"
    and insert_first: "exec (ipt t (''-I'' # c # ''1'' # r)) k = (Some p, k') \<Longrightarrow>
      (case view k (t, c) of
         Some rs \<Rightarrow> if accepts k t r then returncode p = 0 \<and> view k' = (view k)((t, c) \<mapsto> r # rs)
                    else returncode p \<noteq> 0 \<and> view k' = view k
       | None \<Rightarrow> returncode p \<noteq> 0 \<and> view k' = view k)"
    and delete: "exec (ipt t (''-D'' # c # r)) k = (Some p, k') \<Longrightarrow>
      (case view k (t, c) of
         Some rs \<Rightarrow> if r \<in> set rs then returncode p = 0 \<and> view k' = (view k)((t, c) \<mapsto> remove1 r rs)
                    else returncode p \<noteq> 0 \<and> view k' = view k
       | None \<Rightarrow> returncode p \<noteq> 0 \<and> view k' = view k)"
    and flush: "exec (ipt t [''-F'', c]) k = (Some p, k') \<Longrightarrow>
      view k' = (if view k (t, c) = None then view k else (view k)((t, c) \<mapsto> []))"
    and delete_chain: "exec (ipt t [''-X'', c]) k = (Some p, k') \<Longrightarrow>
      view k' = (if view k (t, c) = Some [] \<and>
          (\<forall>c' rs r. view k (t, c') = Some rs \<longrightarrow> r \<in> set rs \<longrightarrow> \<not> refers r c)
        then (view k)((t, c) := None) else view k)"
    and accepts_jump: "c \<in> {NAT_CHAIN, FWD_CHAIN, BLOCK_CHAIN} \<Longrightarrow> accepts k t (jump c) \<longleftrightarrow> view k (t, c) \<noteq> None"
    and accepts_drop: "mac_re m \<Longrightarrow> accepts k FILTER_TABLE (drop_rule m)"
    and shown_drop: "mac_re m \<Longrightarrow> lower m = m \<Longrightarrow>
      \<exists>m'. shown (drop_rule m) = drop_rule m' \<and> mac_re m' \<and> lower m' = m"
begin

lemma spawned: obtains p k' where "exec (ipt t args) k = (Some p, k')"
proof -
  obtain res k' where e: "exec (ipt t args) k = (res, k')" by fastforce
  with starts [OF e] that show thesis by auto
qed

text \<open>The effect of each guarded command on the tables.\<close>

lemma probe_rule:
  "probe exec (ipt t (''-C'' # c # r)) k = (found, k') \<Longrightarrow>
     view k' = view k \<and> (found \<longleftrightarrow> (\<exists>rs. view k (t, c) = Some rs \<and> r \<in> set rs))"
  using starts [of t "''-C'' # c # r" k] check [of t c r k]
  by (auto simp: probe_def run_checked_def split: prod.splits option.splits if_splits)

lemma probe_chain:
  "probe exec (ipt t [''-S'', c]) k = (found, k') \<Longrightarrow> view k' = view k \<and> (found \<longleftrightarrow> view k (t, c) \<noteq> None)"
  using starts [of t "[''-S'', c]" k] show_chain [of t c k]
  by (auto simp: probe_def run_checked_def split: prod.splits option.splits if_splits)

lemma ensure_chain:
  "\<exists>k'. unless_exists exec (ipt t [''-S'', c]) (run_unchecked exec (ipt t [''-N'', c])) k = (Inr (), k') \<and>
     view k' = with_chain t c (view k)"
proof -
  obtain found k1 where p: "probe exec (ipt t [''-S'', c]) k = (found, k1)" by fastforce
  obtain q k2 where n: "exec (ipt t [''-N'', c]) k1 = (Some q, k2)" by (rule spawned)
  show ?thesis
    using probe_chain [OF p] new_chain [OF n] p n
    by (cases found) (auto simp: unless_exists_def run_unchecked_def with_chain_def)
qed

lemma do_append:
  assumes "view k (t, c) = Some rs" and "accepts k t r"
  shows "\<exists>k'. do_run exec (ipt t (''-A'' # c # r)) k = (Inr (), k') \<and> view k' = (view k)((t, c) \<mapsto> rs @ [r])"
proof -
  obtain q k2 where n: "exec (ipt t (''-A'' # c # r)) k = (Some q, k2)" by (rule spawned)
  with append [OF n] assms show ?thesis
    by (auto simp: do_run_def run_checked_def andthen_def returns_def)
qed

lemma do_insert:
  assumes "view k (t, c) = Some rs" and "accepts k t r"
  shows "\<exists>k'. do_run exec (ipt t (''-I'' # c # ''1'' # r)) k = (Inr (), k') \<and> view k' = (view k)((t, c) \<mapsto> r # rs)"
proof -
  obtain q k2 where n: "exec (ipt t (''-I'' # c # ''1'' # r)) k = (Some q, k2)" by (rule spawned)
  with insert_first [OF n] assms show ?thesis
    by (auto simp: do_run_def run_checked_def andthen_def returns_def)
qed

lemma do_delete:
  assumes "view k (t, c) = Some rs" and "r \<in> set rs"
  shows "\<exists>k'. do_run exec (ipt t (''-D'' # c # r)) k = (Inr (), k') \<and> view k' = (view k)((t, c) \<mapsto> remove1 r rs)"
proof -
  obtain q k2 where n: "exec (ipt t (''-D'' # c # r)) k = (Some q, k2)" by (rule spawned)
  with delete [OF n] assms show ?thesis
    by (auto simp: do_run_def run_checked_def andthen_def returns_def)
qed

lemma ensure_last:
  assumes "view k (t, c) \<noteq> None" and "c' \<in> {NAT_CHAIN, FWD_CHAIN, BLOCK_CHAIN}" and "view k (t, c') \<noteq> None"
  shows "\<exists>k'. unless_exists exec (ipt t (''-C'' # c # jump c')) (do_run exec (ipt t (''-A'' # c # jump c'))) k = (Inr (), k') \<and>
     view k' = with_last t c (jump c') (view k)"
proof -
  obtain found k1 where p: "probe exec (ipt t (''-C'' # c # jump c')) k = (found, k1)" by fastforce
  note same = probe_rule [OF p]
  obtain rs where rs: "view k (t, c) = Some rs" using assms(1) by auto
  show ?thesis
  proof (cases found)
    case True
    with p same rs show ?thesis by (auto simp: unless_exists_def with_last_def)
  next
    case False
    have "accepts k1 t (jump c')" using assms(2,3) accepts_jump same by auto
    with do_append [of k1 t c rs "jump c'"] rs same p False show ?thesis
      by (auto simp: unless_exists_def with_last_def)
  qed
qed

lemma ensure_first:
  assumes "view k (t, c) \<noteq> None" and "c' \<in> {NAT_CHAIN, FWD_CHAIN, BLOCK_CHAIN}" and "view k (t, c') \<noteq> None"
  shows "\<exists>k'. unless_exists exec (ipt t (''-C'' # c # jump c')) (do_run exec (ipt t (''-I'' # c # ''1'' # jump c'))) k = (Inr (), k') \<and>
     view k' = with_first t c (jump c') (view k)"
proof -
  obtain found k1 where p: "probe exec (ipt t (''-C'' # c # jump c')) k = (found, k1)" by fastforce
  note same = probe_rule [OF p]
  obtain rs where rs: "view k (t, c) = Some rs" using assms(1) by auto
  show ?thesis
  proof (cases found)
    case True
    with p same rs show ?thesis by (auto simp: unless_exists_def with_first_def)
  next
    case False
    have "accepts k1 t (jump c')" using assms(2,3) accepts_jump same by auto
    with do_insert [of k1 t c rs "jump c'"] rs same p False show ?thesis
      by (auto simp: unless_exists_def with_first_def)
  qed
qed

lemma ensure_rule:
  assumes "view k (t, c) \<noteq> None" and "\<And>k. accepts k t r"
  shows "\<exists>k'. unless_exists exec (ipt t (''-C'' # c # r)) (do_run exec (ipt t (''-A'' # c # r))) k = (Inr (), k') \<and>
     view k' = with_last t c r (view k)"
proof -
  obtain found k1 where p: "probe exec (ipt t (''-C'' # c # r)) k = (found, k1)" by fastforce
  note same = probe_rule [OF p]
  obtain rs where rs: "view k (t, c) = Some rs" using assms(1) by auto
  show ?thesis
    using p same rs do_append [of k1 t c rs r] assms(2)
    by (cases found) (auto simp: unless_exists_def with_last_def)
qed

text \<open>The agent's operations refine the operations on tables.\<close>

lemma ensure_chains_refines:
  "\<exists>k'. ensure_chains exec k = (Inr (), k') \<and> view k' = fw_chains (view k)"
proof -
  obtain k1 where 1: "unless_exists exec (ipt NAT_TABLE [''-S'', NAT_CHAIN])
      (run_unchecked exec (ipt NAT_TABLE [''-N'', NAT_CHAIN])) k = (Inr (), k1)"
    "view k1 = with_chain NAT_TABLE NAT_CHAIN (view k)" using ensure_chain by blast
  obtain k2 where 2: "unless_exists exec (ipt FILTER_TABLE [''-S'', FWD_CHAIN])
      (run_unchecked exec (ipt FILTER_TABLE [''-N'', FWD_CHAIN])) k1 = (Inr (), k2)"
    "view k2 = with_chain FILTER_TABLE FWD_CHAIN (view k1)" using ensure_chain by blast
  obtain k3 where 3: "unless_exists exec (ipt FILTER_TABLE [''-S'', BLOCK_CHAIN])
      (run_unchecked exec (ipt FILTER_TABLE [''-N'', BLOCK_CHAIN])) k2 = (Inr (), k3)"
    "view k3 = with_chain FILTER_TABLE BLOCK_CHAIN (view k2)" using ensure_chain by blast
  from 1 2 3 show ?thesis
    by (auto simp: ensure_chains_def andthen_def returns_def fw_chains_def)
qed

lemma ensure_jump_rules_refines:
  assumes "view k (NAT_TABLE, ''POSTROUTING'') \<noteq> None" and "view k (FILTER_TABLE, ''FORWARD'') \<noteq> None"
    and "view k (NAT_TABLE, NAT_CHAIN) \<noteq> None" and "view k (FILTER_TABLE, FWD_CHAIN) \<noteq> None"
    and "view k (FILTER_TABLE, BLOCK_CHAIN) \<noteq> None"
  shows "\<exists>k'. ensure_jump_rules exec k = (Inr (), k') \<and> view k' = fw_jumps (view k)"
proof -
  have keeps: "with_last t c r V (t', c') = None \<longleftrightarrow> V (t', c') = None" for t c r V t' c'
    by (auto simp: with_last_def split: option.splits)
  obtain k1 where 1: "unless_exists exec (ipt NAT_TABLE (''-C'' # ''POSTROUTING'' # jump NAT_CHAIN))
      (do_run exec (ipt NAT_TABLE (''-A'' # ''POSTROUTING'' # jump NAT_CHAIN))) k = (Inr (), k1)"
    "view k1 = with_last NAT_TABLE ''POSTROUTING'' (jump NAT_CHAIN) (view k)"
    using ensure_last [of k NAT_TABLE "''POSTROUTING''" NAT_CHAIN, OF assms(1) _ assms(3)] by blast
  have there1: "view k1 (FILTER_TABLE, ''FORWARD'') \<noteq> None" "view k1 (FILTER_TABLE, FWD_CHAIN) \<noteq> None"
    "view k1 (FILTER_TABLE, BLOCK_CHAIN) \<noteq> None"
    using assms by (simp_all only: 1(2) keeps not_False_eq_True)
  obtain k2 where 2: "unless_exists exec (ipt FILTER_TABLE (''-C'' # ''FORWARD'' # jump FWD_CHAIN))
      (do_run exec (ipt FILTER_TABLE (''-A'' # ''FORWARD'' # jump FWD_CHAIN))) k1 = (Inr (), k2)"
    "view k2 = with_last FILTER_TABLE ''FORWARD'' (jump FWD_CHAIN) (view k1)"
    using ensure_last [of k1 FILTER_TABLE "''FORWARD''" FWD_CHAIN, OF there1(1) _ there1(2)] by blast
  have there2: "view k2 (FILTER_TABLE, ''FORWARD'') \<noteq> None" "view k2 (FILTER_TABLE, BLOCK_CHAIN) \<noteq> None"
    using there1 by (simp_all only: 2(2) keeps not_False_eq_True)
  obtain k3 where 3: "unless_exists exec (ipt FILTER_TABLE (''-C'' # ''FORWARD'' # jump BLOCK_CHAIN))
      (do_run exec (ipt FILTER_TABLE (''-I'' # ''FORWARD'' # ''1'' # jump BLOCK_CHAIN))) k2 = (Inr (), k3)"
    "view k3 = with_first FILTER_TABLE ''FORWARD'' (jump BLOCK_CHAIN) (view k2)"
    using ensure_first [of k2 FILTER_TABLE "''FORWARD''" BLOCK_CHAIN, OF there2(1) _ there2(2)] by blast
  from 1 2 3 show ?thesis
    by (auto simp: ensure_jump_rules_def andthen_def returns_def fw_jumps_def)
qed

lemma ensure_nat_rules_refines:
  assumes "view k (NAT_TABLE, NAT_CHAIN) = Some ns" and "view k (FILTER_TABLE, FWD_CHAIN) = Some fs"
    and "\<And>k. accepts k NAT_TABLE (nat_rule subnet up)" and "\<And>k. accepts k FILTER_TABLE (out_rule ap up)"
    and "\<And>k. accepts k FILTER_TABLE (back_rule ap up)"
  shows "\<exists>k'. ensure_nat_rules exec subnet ap up k = (Inr (), k') \<and>
    view k' = with_last FILTER_TABLE FWD_CHAIN (back_rule ap up) (with_last FILTER_TABLE FWD_CHAIN (out_rule ap up)
      (with_last NAT_TABLE NAT_CHAIN (nat_rule subnet up) (view k)))"
proof -
  have keeps: "with_last t c r V (t', c') = None \<longleftrightarrow> V (t', c') = None" for t c r V t' c'
    by (auto simp: with_last_def split: option.splits)
  obtain k1 where 1: "unless_exists exec (ipt NAT_TABLE (''-C'' # NAT_CHAIN # nat_rule subnet up))
      (do_run exec (ipt NAT_TABLE (''-A'' # NAT_CHAIN # nat_rule subnet up))) k = (Inr (), k1)"
    "view k1 = with_last NAT_TABLE NAT_CHAIN (nat_rule subnet up) (view k)"
    using ensure_rule [of k NAT_TABLE NAT_CHAIN "nat_rule subnet up"] assms(1,3) by auto
  have "view k1 (FILTER_TABLE, FWD_CHAIN) \<noteq> None" using assms(2) by (simp add: 1(2) keeps)
  then obtain k2 where 2: "unless_exists exec (ipt FILTER_TABLE (''-C'' # FWD_CHAIN # out_rule ap up))
      (do_run exec (ipt FILTER_TABLE (''-A'' # FWD_CHAIN # out_rule ap up))) k1 = (Inr (), k2)"
    "view k2 = with_last FILTER_TABLE FWD_CHAIN (out_rule ap up) (view k1)"
    using ensure_rule [of k1 FILTER_TABLE FWD_CHAIN "out_rule ap up"] assms(4) by auto
  have "view k2 (FILTER_TABLE, FWD_CHAIN) \<noteq> None" using assms(2) by (simp add: 1(2) 2(2) keeps)
  then obtain k3 where 3: "unless_exists exec (ipt FILTER_TABLE (''-C'' # FWD_CHAIN # back_rule ap up))
      (do_run exec (ipt FILTER_TABLE (''-A'' # FWD_CHAIN # back_rule ap up))) k2 = (Inr (), k3)"
    "view k3 = with_last FILTER_TABLE FWD_CHAIN (back_rule ap up) (view k2)"
    using ensure_rule [of k2 FILTER_TABLE FWD_CHAIN "back_rule ap up"] assms(5) by auto
  from 1 2 3 show ?thesis
    by (auto simp: ensure_nat_rules_def andthen_def returns_def)
qed

lemma unchecked_delete:
  "\<exists>k'. run_unchecked exec (ipt t (''-D'' # c # r)) k = (Inr (), k') \<and> view k' = without t c r (view k)"
proof -
  obtain q k2 where n: "exec (ipt t (''-D'' # c # r)) k = (Some q, k2)" by (rule spawned)
  have "view k2 = without t c r (view k)"
  proof (cases "view k (t, c)")
    case (Some rs)
    then have "r \<notin> set rs \<Longrightarrow> (view k)((t, c) \<mapsto> remove1 r rs) = view k"
      by (simp add: remove1_idem fun_upd_idem)
    with Some delete [OF n] show ?thesis by (auto simp: without_def split: if_splits)
  qed (use delete [OF n] in \<open>simp add: without_def\<close>)
  with n show ?thesis by (simp add: run_unchecked_def)
qed

lemma unchecked_flush:
  "\<exists>k'. run_unchecked exec (ipt t [''-F'', c]) k = (Inr (), k') \<and> view k' = emptied t c (view k)"
proof -
  obtain q k2 where n: "exec (ipt t [''-F'', c]) k = (Some q, k2)" by (rule spawned)
  with flush [OF n] show ?thesis by (simp add: run_unchecked_def emptied_def)
qed

lemma unchecked_delete_chain:
  "\<exists>k'. run_unchecked exec (ipt t [''-X'', c]) k = (Inr (), k') \<and> view k' = dropped t c (view k)"
proof -
  obtain q k2 where n: "exec (ipt t [''-X'', c]) k = (Some q, k2)" by (rule spawned)
  with delete_chain [OF n] show ?thesis
    by (simp add: run_unchecked_def dropped_def unreferenced_def)
qed

lemma run_all_refines:
  "list_all2 (\<lambda>m f. \<forall>k. \<exists>k'. m k = (Inr (), k') \<and> view k' = f (view k)) ms fs \<Longrightarrow>
     \<exists>k'. run_all ms k = (Inr (), k') \<and> view k' = fold (\<lambda>f. f) fs (view k)"
proof (induction ms fs arbitrary: k rule: list_all2_induct)
  case (Cons m ms f fs)
  then obtain k1 where "m k = (Inr (), k1)" "view k1 = f (view k)" by blast
  with Cons.IH [of k1] show ?case by (auto simp: andthen_def)
qed (simp add: returns_def)

lemma teardown_refines: "\<exists>k'. teardown exec k = (Inr (), k') \<and> view k' = fw_teardown (view k)"
proof -
  let ?fs = "[without NAT_TABLE ''POSTROUTING'' (jump NAT_CHAIN),
      without FILTER_TABLE ''FORWARD'' (jump FWD_CHAIN), without FILTER_TABLE ''FORWARD'' (jump BLOCK_CHAIN),
      emptied NAT_TABLE NAT_CHAIN, emptied FILTER_TABLE FWD_CHAIN, emptied FILTER_TABLE BLOCK_CHAIN,
      dropped NAT_TABLE NAT_CHAIN, dropped FILTER_TABLE FWD_CHAIN, dropped FILTER_TABLE BLOCK_CHAIN]"
  have "fw_teardown (view k) = fold (\<lambda>f. f) ?fs (view k)" by (simp add: fw_teardown_def)
  moreover have "\<exists>k'. teardown exec k = (Inr (), k') \<and> view k' = fold (\<lambda>f. f) ?fs (view k)"
    unfolding teardown_def
    by (rule run_all_refines)
      (simp only: list.map list_all2_Cons list_all2_Nil unchecked_delete unchecked_flush
        unchecked_delete_chain simp_thms)
  ultimately show ?thesis by simp
qed

text \<open>Device blocks.\<close>

lemma block_refines:
  assumes "validate_mac mac = Inr m" and "view k (FILTER_TABLE, BLOCK_CHAIN) = Some rs"
  shows "\<exists>k'. block_device exec mac k = (Inr (drop_rule m \<notin> set rs), k') \<and>
    view k' = with_last FILTER_TABLE BLOCK_CHAIN (drop_rule m) (view k)"
proof -
  obtain found k1 where p: "probe exec (ipt FILTER_TABLE (''-C'' # BLOCK_CHAIN # drop_rule m)) k = (found, k1)"
    by fastforce
  note same = probe_rule [OF p]
  have "accepts k1 FILTER_TABLE (drop_rule m)"
    using assms(1) by (intro accepts_drop) (auto simp: validate_mac_def Let_def split: if_splits)
  with same assms(2) obtain k2 where
    "do_run exec (ipt FILTER_TABLE (''-A'' # BLOCK_CHAIN # drop_rule m)) k1 = (Inr (), k2)"
    "view k2 = (view k)((FILTER_TABLE, BLOCK_CHAIN) \<mapsto> rs @ [drop_rule m])"
    using do_append [of k1 FILTER_TABLE BLOCK_CHAIN rs "drop_rule m"] by auto
  with p same assms show ?thesis
    by (cases found) (auto simp: block_device_def with_last_def andthen_def returns_def)
qed

lemma unblock_refines:
  assumes "validate_mac mac = Inr m" and "view k (FILTER_TABLE, BLOCK_CHAIN) = Some rs"
  shows "\<exists>k'. unblock_device exec mac k = (Inr (drop_rule m \<in> set rs), k') \<and>
    view k' = without FILTER_TABLE BLOCK_CHAIN (drop_rule m) (view k)"
proof -
  obtain found k1 where p: "probe exec (ipt FILTER_TABLE (''-C'' # BLOCK_CHAIN # drop_rule m)) k = (found, k1)"
    by fastforce
  note same = probe_rule [OF p]
  show ?thesis
  proof (cases found)
    case True
    with same assms(2) obtain k2 where
      "do_run exec (ipt FILTER_TABLE (''-D'' # BLOCK_CHAIN # drop_rule m)) k1 = (Inr (), k2)"
      "view k2 = (view k)((FILTER_TABLE, BLOCK_CHAIN) \<mapsto> remove1 (drop_rule m) rs)"
      using do_delete [of k1 FILTER_TABLE BLOCK_CHAIN rs "drop_rule m"] by auto
    with True p same assms show ?thesis
      by (auto simp: unblock_device_def without_def andthen_def returns_def)
  next
    case False
    with same assms(2) have "remove1 (drop_rule m) rs = rs" "drop_rule m \<notin> set rs"
      by (auto simp: remove1_idem)
    with False p same assms show ?thesis
      by (auto simp: unblock_device_def without_def fun_upd_idem)
  qed
qed

lemma list_refines:
  assumes "view k (FILTER_TABLE, BLOCK_CHAIN) = Some (map drop_rule ms)"
    and "\<forall>m \<in> set ms. mac_re m \<and> lower m = m"
  shows "\<exists>k'. list_blocked exec k = (Inr ms, k') \<and> view k' = view k"
proof -
  obtain p k' where e: "exec (ipt FILTER_TABLE [''-S'', BLOCK_CHAIN]) k = (Some p, k')" by (rule spawned)
  have line: "blocked_mac (join '' '' (''-A'' # BLOCK_CHAIN # shown (drop_rule m))) = [m]" if "m \<in> set ms" for m
    using shown_drop [of m] assms(2) that blocked_mac_drop by fastforce
  have "\<forall>m \<in> set ms. mac_re m" using assms(2) by blast
  note rules = show_rules [OF e assms(1) this]
  have "concat (map blocked_mac (splitlines (stdout p))) = ms"
  proof -
    have "concat (map (\<lambda>m. blocked_mac (join '' '' (''-A'' # BLOCK_CHAIN # shown (drop_rule m)))) ms) =
        concat (map (\<lambda>m. [m]) ms)"
      using line by (metis (no_types, lifting) map_eq_conv)
    then show ?thesis
      by (simp add: rules blocked_mac_header [simplified] comp_def del: join.simps)
  qed
  with e show_chain [OF e] assms(1) show ?thesis
    by (auto simp: list_blocked_def run_checked_def)
qed

lemma list_no_chain:
  "view k (FILTER_TABLE, BLOCK_CHAIN) = None \<Longrightarrow> \<exists>k'. list_blocked exec k = (Inr [], k') \<and> view k' = view k"
proof -
  assume none: "view k (FILTER_TABLE, BLOCK_CHAIN) = None"
  obtain p k' where e: "exec (ipt FILTER_TABLE [''-S'', BLOCK_CHAIN]) k = (Some p, k')" by (rule spawned)
  with show_chain [OF e] none show ?thesis by (auto simp: list_blocked_def run_checked_def)
qed

end

section \<open>A kernel that meets the contract\<close>

text \<open>
  Tables as an association list from table and chain to rules, and the subset of the command's
  options the agent uses; other programs succeed and leave the tables alone. It shows that the contract can
  be met and evaluates the examples.
\<close>

type_synonym kernel = "((string \<times> string) \<times> rule list) list"

definition kernel_accepts :: "kernel \<Rightarrow> string \<Rightarrow> rule \<Rightarrow> bool" where
  "kernel_accepts k t r = (case r of [j, c] \<Rightarrow> map_of k (t, c) \<noteq> None | _ \<Rightarrow> True)"

definition kernel_unreferenced :: "kernel \<Rightarrow> string \<Rightarrow> string \<Rightarrow> bool" where
  "kernel_unreferenced k t c = list_all (\<lambda>(t', c'). t' = t \<longrightarrow>
     (case map_of k (t', c') of None \<Rightarrow> True | Some rs \<Rightarrow> list_all (\<lambda>r. \<not> refers r c) rs)) (map fst k)"

definition chain_text :: "string \<Rightarrow> rule list \<Rightarrow> string" where
  "chain_text c rs = concat (map (\<lambda>l. l @ newline)
     ((''-N '' @ c) # map (\<lambda>r. join '' '' (''-A'' # c # r)) rs))"

fun kernel_command :: "string \<Rightarrow> string list \<Rightarrow> kernel \<Rightarrow> bool \<times> string \<times> kernel" where
  "kernel_command t (opt # c # args) k =
     (case map_of k (t, c) of
        None \<Rightarrow> if opt = ''-N'' \<and> args = [] then (True, [], AList.update (t, c) [] k) else (False, [], k)
      | Some rs \<Rightarrow>
          if opt = ''-S'' then (True, chain_text c rs, k)
          else if opt = ''-C'' then (args \<in> set rs, [], k)
          else if opt = ''-A'' \<and> kernel_accepts k t args then (True, [], AList.update (t, c) (rs @ [args]) k)
          else if opt = ''-I'' \<and> kernel_accepts k t (tl args) then (True, [], AList.update (t, c) (tl args # rs) k)
          else if opt = ''-D'' \<and> args \<in> set rs then (True, [], AList.update (t, c) (remove1 args rs) k)
          else if opt = ''-F'' then (True, [], AList.update (t, c) [] k)
          else if opt = ''-X'' \<and> rs = [] \<and> kernel_unreferenced k t c then (True, [], AList.delete (t, c) k)
          else (False, [], k))"
| "kernel_command t args k = (False, [], k)"

fun kernel_exec :: "kernel tool" where
  "kernel_exec (prog # flag # t # args) k =
     (if prog \<noteq> ''iptables'' then (Some \<lparr>returncode = 0, stdout = [], stderr = []\<rparr>, k)
      else case kernel_command t args k of
        (ok, out, k') \<Rightarrow> (Some \<lparr>returncode = if ok then 0 else 1, stdout = out, stderr = []\<rparr>, k'))"
| "kernel_exec cmd k = (Some \<lparr>returncode = 0, stdout = [], stderr = []\<rparr>, k)"

lemma kernel_unreferenced_iff:
  "kernel_unreferenced k t c \<longleftrightarrow>
     (\<forall>c' rs r. map_of k (t, c') = Some rs \<longrightarrow> r \<in> set rs \<longrightarrow> \<not> refers r c)"
proof
  assume l: "kernel_unreferenced k t c"
  show "\<forall>c' rs r. map_of k (t, c') = Some rs \<longrightarrow> r \<in> set rs \<longrightarrow> \<not> refers r c"
  proof (intro allI impI)
    fix c' rs r
    assume m: "map_of k (t, c') = Some rs" and "r \<in> set rs"
    then have "(t, c') \<in> set (map fst k)" by (force dest: map_of_SomeD)
    with l m \<open>r \<in> set rs\<close> show "\<not> refers r c"
      unfolding kernel_unreferenced_def list_all_iff by fastforce
  qed
qed (auto simp: kernel_unreferenced_def list_all_iff split: option.splits)

lemma splitlines_lines:
  "\<forall>l \<in> set ls. \<forall>c \<in> set l. \<not> is_linebreak c \<Longrightarrow> splitlines (concat (map (\<lambda>l. l @ newline) ls)) = ls"
proof -
  have word: "splitlines_acc cur (l @ CHR 0x0A # rest) = (rev cur @ l) # splitlines_acc [] rest"
    if "\<forall>c \<in> set l. \<not> is_linebreak c" for cur l rest
    using that
  proof (induction l arbitrary: cur)
    case Nil
    show ?case by (simp add: is_linebreak_def)
  next
    case (Cons c l)
    then have "c \<noteq> CHR 0x0D" by (auto simp: is_linebreak_def)
    with Cons show ?case by simp
  qed
  assume "\<forall>l \<in> set ls. \<forall>c \<in> set l. \<not> is_linebreak c"
  then have "splitlines_acc [] (concat (map (\<lambda>l. l @ newline) ls)) = ls"
    by (induction ls) (auto simp: newline_def word)
  then show ?thesis by (simp add: splitlines_def)
qed

lemma linebreak_space: "\<not> is_space c \<Longrightarrow> \<not> is_linebreak c"
  by (auto simp: is_space_def is_linebreak_def Let_def)

lemma set_join: "c \<in> set (join sep ws) \<Longrightarrow> c \<in> set sep \<or> (\<exists>w \<in> set ws. c \<in> set w)"
  by (induction sep ws rule: join.induct) auto

lemma kernel_list:
  assumes "\<forall>m \<in> set ms. mac_re m"
  shows "splitlines (chain_text BLOCK_CHAIN (map drop_rule ms)) =
    (''-N '' @ BLOCK_CHAIN) # map (\<lambda>m. join '' '' (''-A'' # BLOCK_CHAIN # drop_rule m)) ms"
proof -
  have "\<not> is_linebreak c" if "m \<in> set ms" "c \<in> set (join '' '' (''-A'' # BLOCK_CHAIN # drop_rule m))" for m c
  proof (cases "c = CHR '' ''")
    case True
    then show ?thesis by (simp add: is_linebreak_def)
  next
    case False
    with set_join [OF that(2)] mac_plain [of m] assms that(1) have "\<not> is_space c"
      by (auto simp: drop_rule_def BLOCK_CHAIN_def is_space_def)
    then show ?thesis by (rule linebreak_space)
  qed
  moreover have "\<forall>c \<in> set (''-N '' @ BLOCK_CHAIN). \<not> is_linebreak c"
    by (simp add: BLOCK_CHAIN_def is_linebreak_def)
  ultimately show ?thesis
    unfolding chain_text_def by (subst splitlines_lines) (auto simp del: join.simps)
qed

interpretation kernel: iptables_tool kernel_exec map_of kernel_accepts "\<lambda>r. r"
proof (unfold_locales, goal_cases)
  case (3 k p k' ms)
  then show ?case by (auto simp: ipt_def kernel_list)
next
  case (10 t c k p k')
  then show ?case
    by (auto simp: ipt_def kernel_unreferenced_iff delete_conv' split: option.splits if_splits)
qed (auto simp: ipt_def update_conv' kernel_accepts_def jump_def drop_rule_def
      split: option.splits prod.splits if_splits)

section \<open>Properties of the tables\<close>

lemma jump_inj [simp]: "jump a = jump b \<longleftrightarrow> a = b"
  by (simp add: jump_def)

lemma drop_rule_inj [simp]: "drop_rule a = drop_rule b \<longleftrightarrow> a = b"
  by (simp add: drop_rule_def)

lemma fw_chains_there:
  "fw_chains V (NAT_TABLE, NAT_CHAIN) \<noteq> None" "fw_chains V (FILTER_TABLE, FWD_CHAIN) \<noteq> None"
  "fw_chains V (FILTER_TABLE, BLOCK_CHAIN) \<noteq> None"
  "(t, c) \<notin> {(NAT_TABLE, NAT_CHAIN), (FILTER_TABLE, FWD_CHAIN), (FILTER_TABLE, BLOCK_CHAIN)} \<Longrightarrow>
     fw_chains V (t, c) = V (t, c)"
  by (auto simp: fw_chains_def with_chain_def chain_names)

lemma fw_chains_id:
  "V (NAT_TABLE, NAT_CHAIN) \<noteq> None \<Longrightarrow> V (FILTER_TABLE, FWD_CHAIN) \<noteq> None \<Longrightarrow>
     V (FILTER_TABLE, BLOCK_CHAIN) \<noteq> None \<Longrightarrow> fw_chains V = V"
  by (auto simp: fw_chains_def with_chain_def)

lemma fw_jumps_forward:
  assumes "V (FILTER_TABLE, ''FORWARD'') = Some fw"
  shows "fw_jumps V (FILTER_TABLE, ''FORWARD'') =
    Some (let f = (if jump FWD_CHAIN \<in> set fw then fw else fw @ [jump FWD_CHAIN])
          in if jump BLOCK_CHAIN \<in> set f then f else jump BLOCK_CHAIN # f)"
    and "(t, c) \<notin> {(NAT_TABLE, ''POSTROUTING''), (FILTER_TABLE, ''FORWARD'')} \<Longrightarrow> fw_jumps V (t, c) = V (t, c)"
    and "V (NAT_TABLE, ''POSTROUTING'') = Some pr \<Longrightarrow> fw_jumps V (NAT_TABLE, ''POSTROUTING'') =
      Some (if jump NAT_CHAIN \<in> set pr then pr else pr @ [jump NAT_CHAIN])"
  using assms
  by (auto simp: fw_jumps_def with_last_def with_first_def chain_names Let_def split: option.splits)

lemma fw_jumps_id:
  assumes "V (FILTER_TABLE, ''FORWARD'') = Some fw" and "jump FWD_CHAIN \<in> set fw" and "jump BLOCK_CHAIN \<in> set fw"
    and "V (NAT_TABLE, ''POSTROUTING'') = Some pr" and "jump NAT_CHAIN \<in> set pr"
  shows "fw_jumps V = V"
  using assms by (simp add: fw_jumps_def with_last_def with_first_def)

text \<open>The agent's preparation of the tables: chains, then jumps.\<close>

definition prepare :: "'k tool \<Rightarrow> ('k, unit) action" where
  "prepare exec = andthen (ensure_chains exec) (\<lambda>_. ensure_jump_rules exec)"

lemma prepare_refines:
  assumes "iptables_tool exec view accepts shown"
    and "view k (NAT_TABLE, ''POSTROUTING'') = Some pr" and "view k (FILTER_TABLE, ''FORWARD'') = Some fw"
  shows "\<exists>k'. prepare exec k = (Inr (), k') \<and> view k' = fw_jumps (fw_chains (view k))"
proof -
  obtain k1 where 1: "ensure_chains exec k = (Inr (), k1)" "view k1 = fw_chains (view k)"
    using iptables_tool.ensure_chains_refines [OF assms(1)] by blast
  have "view k1 (NAT_TABLE, ''POSTROUTING'') \<noteq> None" "view k1 (FILTER_TABLE, ''FORWARD'') \<noteq> None"
    using assms(2,3) 1(2) by (simp_all add: fw_chains_there(4) chain_names)
  then obtain k2 where "ensure_jump_rules exec k1 = (Inr (), k2)" "view k2 = fw_jumps (view k1)"
    using iptables_tool.ensure_jump_rules_refines [OF assms(1), of k1] 1(2) fw_chains_there by fastforce
  with 1 show ?thesis by (auto simp: prepare_def andthen_def)
qed

lemma takeWhile_block:
  assumes "jump BLOCK_CHAIN \<in> set fw \<longrightarrow> jump BLOCK_CHAIN \<in> set (takeWhile (\<lambda>r. r \<noteq> jump FWD_CHAIN) fw)"
  shows "jump BLOCK_CHAIN \<in> set (takeWhile (\<lambda>r. r \<noteq> jump FWD_CHAIN)
      (let f = (if jump FWD_CHAIN \<in> set fw then fw else fw @ [jump FWD_CHAIN])
       in if jump BLOCK_CHAIN \<in> set f then f else jump BLOCK_CHAIN # f))"
proof -
  have ne: "BLOCK_CHAIN \<noteq> FWD_CHAIN" by (simp add: chain_names)
  have "takeWhile (\<lambda>r. r \<noteq> jump FWD_CHAIN) (fw @ [jump FWD_CHAIN]) = fw" if "jump FWD_CHAIN \<notin> set fw"
    using that by (subst takeWhile_append2) auto
  with assms ne show ?thesis by (auto simp: Let_def)
qed

text \<open>
  C4: applying a configuration prepares the firewall so that blocked devices stay blocked: on a host
  whose \<open>POSTROUTING\<close> and \<open>FORWARD\<close> chains exist and where no jump to the block chain was placed behind
  the accepting one, creating the chains and jumps succeeds, the jump to the block chain precedes
  the first jump to the accepting chain, no other chain changes, and doing it again changes nothing.
\<close>

theorem block_before_accept:
  assumes "iptables_tool exec view accepts shown"
    and "view k (NAT_TABLE, ''POSTROUTING'') = Some pr" and "view k (FILTER_TABLE, ''FORWARD'') = Some fw"
    and "jump BLOCK_CHAIN \<in> set fw \<longrightarrow> jump BLOCK_CHAIN \<in> set (takeWhile (\<lambda>r. r \<noteq> jump FWD_CHAIN) fw)"
  shows "\<exists>k' k'' rs. prepare exec k = (Inr (), k') \<and> view k' (FILTER_TABLE, ''FORWARD'') = Some rs \<and>
    jump FWD_CHAIN \<in> set rs \<and> jump BLOCK_CHAIN \<in> set (takeWhile (\<lambda>r. r \<noteq> jump FWD_CHAIN) rs) \<and>
    (\<forall>t c. (t, c) \<notin> {(NAT_TABLE, ''POSTROUTING''), (FILTER_TABLE, ''FORWARD''), (NAT_TABLE, NAT_CHAIN),
        (FILTER_TABLE, FWD_CHAIN), (FILTER_TABLE, BLOCK_CHAIN)} \<longrightarrow> view k' (t, c) = view k (t, c)) \<and>
    prepare exec k' = (Inr (), k'') \<and> view k'' = view k'"
proof -
  obtain k' where 1: "prepare exec k = (Inr (), k')" "view k' = fw_jumps (fw_chains (view k))"
    using prepare_refines [where view = view and k = k, OF assms(1-3)] by blast
  let ?V = "fw_chains (view k)"
  have base: "?V (NAT_TABLE, ''POSTROUTING'') = Some pr" "?V (FILTER_TABLE, ''FORWARD'') = Some fw"
    using assms(2,3) by (simp_all add: fw_chains_there(4) chain_names)
  let ?f = "let f = (if jump FWD_CHAIN \<in> set fw then fw else fw @ [jump FWD_CHAIN])
            in if jump BLOCK_CHAIN \<in> set f then f else jump BLOCK_CHAIN # f"
  let ?p = "if jump NAT_CHAIN \<in> set pr then pr else pr @ [jump NAT_CHAIN]"
  have rs: "view k' (FILTER_TABLE, ''FORWARD'') = Some ?f" "view k' (NAT_TABLE, ''POSTROUTING'') = Some ?p"
    using fw_jumps_forward [where V = ?V, OF base(2)] base 1(2) by simp_all
  have in_f: "jump FWD_CHAIN \<in> set ?f" "jump BLOCK_CHAIN \<in> set ?f" "jump NAT_CHAIN \<in> set ?p"
    by (simp_all add: Let_def)
  have own: "view k' (NAT_TABLE, NAT_CHAIN) \<noteq> None" "view k' (FILTER_TABLE, FWD_CHAIN) \<noteq> None"
    "view k' (FILTER_TABLE, BLOCK_CHAIN) \<noteq> None"
    using fw_chains_there(1-3) [of "view k"] fw_jumps_forward(2) [where V = ?V, OF base(2)] 1(2) by (simp_all add: chain_names)
  obtain k'' where "prepare exec k' = (Inr (), k'')" "view k'' = fw_jumps (fw_chains (view k'))"
    using prepare_refines [where view = view and k = k', OF assms(1) rs(2,1)] by blast
  moreover have "fw_jumps (fw_chains (view k')) = view k'"
    using fw_chains_id [where V = "view k'", OF own] fw_jumps_id [where V = "view k'", OF rs(1) in_f(1,2) rs(2) in_f(3)] by simp
  ultimately show ?thesis
    using 1 rs in_f takeWhile_block [OF assms(4)] fw_jumps_forward(2) [where V = ?V, OF base(2)] fw_chains_there(4)
    by (intro exI [of _ k'] exI [of _ k''] exI [of _ ?f]) simp
qed

definition ex_kernel :: kernel where
  "ex_kernel = [((''nat'', ''POSTROUTING''), []), ((''filter'', ''FORWARD''), [[''-i'', ''cni0'', ''-j'', ''ACCEPT'']])]"

theorem block_before_accept_witness:
  "\<exists>k'. prepare kernel_exec ex_kernel = (Inr (), k') \<and>
     (\<exists>rs. map_of k' (FILTER_TABLE, ''FORWARD'') = Some rs \<and>
        jump BLOCK_CHAIN \<in> set (takeWhile (\<lambda>r. r \<noteq> jump FWD_CHAIN) rs))"
proof -
  have "map_of ex_kernel (NAT_TABLE, ''POSTROUTING'') = Some []"
    "map_of ex_kernel (FILTER_TABLE, ''FORWARD'') = Some [[''-i'', ''cni0'', ''-j'', ''ACCEPT'']]"
    by (simp_all add: ex_kernel_def chain_names)
  from block_before_accept [where view = map_of and k = ex_kernel, OF kernel.iptables_tool_axioms this] show ?thesis
    by (auto simp: jump_def)
qed

text \<open>
  Blocking a device is listed. On a host whose block chain holds drop rules for normalised
  addresses, blocking a well-formed address reports whether it was new, and the listing afterwards is
  the earlier one with the lower-case address appended if new; unblocking it reports that it was there
  and, if it was new, puts the tables back as they were.
\<close>

theorem block_list_unblock:
  assumes "iptables_tool exec view accepts shown"
    and "view k (FILTER_TABLE, BLOCK_CHAIN) = Some (map drop_rule ms)"
    and "\<forall>m \<in> set ms. mac_re m \<and> lower m = m" and "validate_mac mac = Inr m"
  shows "\<exists>k1 k2 k3. block_device exec mac k = (Inr (m \<notin> set ms), k1) \<and>
    list_blocked exec k1 = (Inr (if m \<in> set ms then ms else ms @ [m]), k2) \<and> view k2 = view k1 \<and>
    unblock_device exec mac k1 = (Inr True, k3) \<and> (m \<notin> set ms \<longrightarrow> view k3 = view k)"
proof -
  let ?ms = "if m \<in> set ms then ms else ms @ [m]"
  obtain k1 where 1: "block_device exec mac k = (Inr (drop_rule m \<notin> set (map drop_rule ms)), k1)"
    "view k1 = with_last FILTER_TABLE BLOCK_CHAIN (drop_rule m) (view k)"
    using iptables_tool.block_refines [where view = view and k = k, OF assms(1,4,2)] by blast
  then have rs: "view k1 (FILTER_TABLE, BLOCK_CHAIN) = Some (map drop_rule ?ms)"
    using assms(2) by (auto simp: with_last_def)
  have "\<forall>m \<in> set ?ms. mac_re m \<and> lower m = m" using assms(3) validate_mac_ok [OF assms(4)] by auto
  from iptables_tool.list_refines [where view = view and k = k1, OF assms(1) rs this] obtain k2 where
    2: "list_blocked exec k1 = (Inr ?ms, k2)" "view k2 = view k1" by blast
  obtain k3 where 3: "unblock_device exec mac k1 = (Inr (drop_rule m \<in> set (map drop_rule ?ms)), k3)"
    "view k3 = without FILTER_TABLE BLOCK_CHAIN (drop_rule m) (view k1)"
    using iptables_tool.unblock_refines [where view = view and k = k1, OF assms(1,4) rs] by blast
  have "view k3 = view k" if "m \<notin> set ms"
  proof -
    have "remove1 (drop_rule m) (map drop_rule (ms @ [m])) = map drop_rule ms"
      using that by (simp add: remove1_append image_iff)
    with that 1(2) 3(2) assms(2) show ?thesis
      by (auto simp: with_last_def without_def fun_upd_idem)
  qed
  with 1 2 3 show ?thesis by (auto simp: image_iff)
qed

theorem block_list_unblock_witness:
  "\<exists>k1 k2. block_device kernel_exec ''AA:BB:CC:00:11:22'' [((''filter'', ''IOT_DEVICE_BLOCK''), [])] = (Inr True, k1) \<and>
     list_blocked kernel_exec k1 = (Inr [''aa:bb:cc:00:11:22''], k2)"
proof -
  have "validate_mac ''AA:BB:CC:00:11:22'' = Inr ''aa:bb:cc:00:11:22''" by code_simp
  moreover have "map_of [((''filter'', ''IOT_DEVICE_BLOCK''), [])] (FILTER_TABLE, BLOCK_CHAIN) = Some (map drop_rule [])"
    by (simp add: chain_names)
  ultimately show ?thesis
    using block_list_unblock [where view = map_of and ms = "[]" and
        k = "[((''filter'', ''IOT_DEVICE_BLOCK''), [])]", OF kernel.iptables_tool_axioms] by fastforce
qed

definition own_chains :: "(string \<times> string) set" where
  "own_chains = {(NAT_TABLE, NAT_CHAIN), (FILTER_TABLE, FWD_CHAIN), (FILTER_TABLE, BLOCK_CHAIN)}"

definition jumps_as_placed :: "tables \<Rightarrow> bool" where
  "jumps_as_placed V \<longleftrightarrow>
     (\<forall>t c rs r x. V (t, c) = Some rs \<longrightarrow> r \<in> set rs \<longrightarrow> (t, x) \<in> own_chains \<longrightarrow> refers r x \<longrightarrow>
        (t, c) \<in> own_chains \<or>
        r = jump x \<and> (t, c) \<in> {(NAT_TABLE, ''POSTROUTING''), (FILTER_TABLE, ''FORWARD'')} \<and> count_list rs r \<le> 1)"

lemma remove1_once: "count_list xs x \<le> 1 \<Longrightarrow> x \<notin> set (remove1 x xs)"
proof (induction xs)
  case (Cons a xs)
  then show ?case by (auto simp: count_list_0_iff)
qed simp

text \<open>The tables once the jumps are removed and the chains flushed.\<close>

definition flushed :: "tables \<Rightarrow> tables" where
  "flushed V =
     emptied FILTER_TABLE BLOCK_CHAIN (emptied FILTER_TABLE FWD_CHAIN (emptied NAT_TABLE NAT_CHAIN
       (without FILTER_TABLE ''FORWARD'' (jump BLOCK_CHAIN)
         (without FILTER_TABLE ''FORWARD'' (jump FWD_CHAIN)
           (without NAT_TABLE ''POSTROUTING'' (jump NAT_CHAIN) V)))))"

lemma emptied_apply:
  "emptied t c V x = (if x = (t, c) then map_option (\<lambda>_. []) (V x) else V x)"
  by (auto simp: emptied_def)

lemma without_apply:
  "without t c r V x = (if x = (t, c) then map_option (remove1 r) (V x) else V x)"
  by (auto simp: without_def split: option.splits)

lemma flushed_own: "x \<in> own_chains \<Longrightarrow> flushed V x = map_option (\<lambda>_. []) (V x)"
  by (auto simp: flushed_def emptied_apply without_apply own_chains_def chain_names)

lemma flushed_postrouting:
  "flushed V (NAT_TABLE, ''POSTROUTING'') = map_option (remove1 (jump NAT_CHAIN)) (V (NAT_TABLE, ''POSTROUTING''))"
  by (simp add: flushed_def emptied_apply without_apply chain_names)

lemma flushed_forward:
  "flushed V (FILTER_TABLE, ''FORWARD'') =
     map_option (remove1 (jump BLOCK_CHAIN) \<circ> remove1 (jump FWD_CHAIN)) (V (FILTER_TABLE, ''FORWARD''))"
  by (simp add: flushed_def emptied_apply without_apply chain_names option.map_comp)

lemma flushed_other:
  "x \<notin> own_chains \<Longrightarrow> x \<notin> {(NAT_TABLE, ''POSTROUTING''), (FILTER_TABLE, ''FORWARD'')} \<Longrightarrow> flushed V x = V x"
  by (auto simp: flushed_def emptied_apply without_apply own_chains_def)

lemma jumps_as_placedD:
  assumes "jumps_as_placed V" and "V (t, c) = Some rs" and "r \<in> set rs" and "(t, x) \<in> own_chains" and "refers r x"
  shows "(t, c) \<in> own_chains \<or>
    r = jump x \<and> (t, c) \<in> {(NAT_TABLE, ''POSTROUTING''), (FILTER_TABLE, ''FORWARD'')} \<and> count_list rs r \<le> 1"
  using assms unfolding jumps_as_placed_def by blast

lemma flushed_unreferenced:
  assumes "jumps_as_placed V" and "(t, x) \<in> own_chains"
  shows "unreferenced t x (flushed V)"
  unfolding unreferenced_def
proof (intro allI impI notI)
  fix c rs r
  assume F: "flushed V (t, c) = Some rs" "r \<in> set rs" "refers r x"
  then have c: "(t, c) \<notin> own_chains" by (auto simp: flushed_own)
  consider (post) "(t, c) = (NAT_TABLE, ''POSTROUTING'')" | (fwd) "(t, c) = (FILTER_TABLE, ''FORWARD'')"
    | (other) "flushed V (t, c) = V (t, c)" "(t, c) \<notin> {(NAT_TABLE, ''POSTROUTING''), (FILTER_TABLE, ''FORWARD'')}"
    using flushed_other [OF c] by blast
  then show False
  proof cases
    case post
    with F obtain rs0 where V: "V (t, c) = Some rs0" "rs = remove1 (jump NAT_CHAIN) rs0"
      by (auto simp: flushed_postrouting)
    with F(2) have "r \<in> set rs0" by (meson set_remove1_subset subsetD)
    from jumps_as_placedD [OF assms(1) V(1) this assms(2) F(3)] c
    have "r = jump x" "count_list rs0 r \<le> 1" by auto
    moreover have "x = NAT_CHAIN" using post assms(2) by (auto simp: own_chains_def chain_names)
    ultimately show False using remove1_once [of rs0 r] F(2) V(2) by simp
  next
    case fwd
    with F obtain rs0 where V: "V (t, c) = Some rs0"
      "rs = remove1 (jump BLOCK_CHAIN) (remove1 (jump FWD_CHAIN) rs0)"
      by (auto simp: flushed_forward)
    with F(2) have "r \<in> set rs0" by (meson set_remove1_subset subsetD)
    from jumps_as_placedD [OF assms(1) V(1) this assms(2) F(3)] c
    have j: "r = jump x" "count_list rs0 r \<le> 1" by auto
    then have n: "r \<notin> set (remove1 r rs0)" by (intro remove1_once)
    have "x = FWD_CHAIN \<or> x = BLOCK_CHAIN" using fwd assms(2) by (auto simp: own_chains_def chain_names)
    then show False
    proof
      assume "x = FWD_CHAIN"
      then show False using n j(1) F(2) V(2) by (metis notin_set_remove1)
    next
      assume "x = BLOCK_CHAIN"
      moreover have "remove1 (jump BLOCK_CHAIN) (remove1 (jump FWD_CHAIN) rs0) =
          remove1 (jump FWD_CHAIN) (remove1 (jump BLOCK_CHAIN) rs0)" by (rule remove1_commute)
      ultimately show False using n j(1) F(2) V(2) by (metis notin_set_remove1)
    qed
  next
    case other
    with F jumps_as_placedD [OF assms(1) _ _ assms(2) F(3)] c show False by auto
  qed
qed

lemma dropped_unreferenced:
  assumes "unreferenced t x V" and "V (t, x) = None \<or> V (t, x) = Some []"
  shows "dropped t x V = V((t, x) := None)"
  using assms by (auto simp: dropped_def fun_upd_idem)

lemma unreferenced_less: "unreferenced t x V \<Longrightarrow> unreferenced t x (V(y := None))"
  by (auto simp: unreferenced_def)

lemma fw_teardown_eq:
  assumes "jumps_as_placed V"
  shows "fw_teardown V = (\<lambda>x. if x \<in> own_chains then None else flushed V x)"
proof -
  let ?F = "flushed V"
  have un: "unreferenced NAT_TABLE NAT_CHAIN ?F" "unreferenced FILTER_TABLE FWD_CHAIN ?F"
    "unreferenced FILTER_TABLE BLOCK_CHAIN ?F"
    using flushed_unreferenced [OF assms] by (simp_all add: own_chains_def)
  have em: "?F x = None \<or> ?F x = Some []" if "x \<in> own_chains" for x
    using flushed_own [OF that] by (cases "V x") auto
  let ?F1 = "?F((NAT_TABLE, NAT_CHAIN) := None)"
  let ?F2 = "?F1((FILTER_TABLE, FWD_CHAIN) := None)"
  have "dropped NAT_TABLE NAT_CHAIN ?F = ?F1"
    using un(1) em by (intro dropped_unreferenced) (auto simp: own_chains_def)
  moreover have "dropped FILTER_TABLE FWD_CHAIN ?F1 = ?F2"
    using un(2) em by (intro dropped_unreferenced unreferenced_less) (auto simp: own_chains_def)
  moreover have "dropped FILTER_TABLE BLOCK_CHAIN ?F2 = ?F2((FILTER_TABLE, BLOCK_CHAIN) := None)"
    using un(3) em by (intro dropped_unreferenced unreferenced_less) (auto simp: own_chains_def)
  moreover have "fw_teardown V = dropped FILTER_TABLE BLOCK_CHAIN (dropped FILTER_TABLE FWD_CHAIN
      (dropped NAT_TABLE NAT_CHAIN ?F))"
    by (simp add: fw_teardown_def flushed_def)
  ultimately show ?thesis by (auto simp: own_chains_def)
qed

text \<open>
  C30: disabling the gateway removes everything it added. If each jump into the gateway's chains
  occurs at most once and only as the agent placed it, tearing down succeeds, removes the three chains and the
  jumps, and leaves every other chain alone; the devices that were blocked no longer are.
\<close>

theorem teardown_removes:
  assumes "iptables_tool exec view accepts shown" and "jumps_as_placed (view k)"
  shows "\<exists>k' k''. teardown exec k = (Inr (), k') \<and> (\<forall>x \<in> own_chains. view k' x = None) \<and>
    (\<forall>x. x \<notin> own_chains \<longrightarrow> x \<notin> {(NAT_TABLE, ''POSTROUTING''), (FILTER_TABLE, ''FORWARD'')} \<longrightarrow>
       view k' x = view k x) \<and>
    view k' (NAT_TABLE, ''POSTROUTING'') =
      map_option (remove1 (jump NAT_CHAIN)) (view k (NAT_TABLE, ''POSTROUTING'')) \<and>
    view k' (FILTER_TABLE, ''FORWARD'') =
      map_option (remove1 (jump BLOCK_CHAIN) \<circ> remove1 (jump FWD_CHAIN)) (view k (FILTER_TABLE, ''FORWARD'')) \<and>
    list_blocked exec k' = (Inr [], k'')"
proof -
  obtain k' where k': "teardown exec k = (Inr (), k')" "view k' = fw_teardown (view k)"
    using iptables_tool.teardown_refines [OF assms(1)] by blast
  note eq = k'(2) [unfolded fw_teardown_eq [OF assms(2)]]
  have "view k' (FILTER_TABLE, BLOCK_CHAIN) = None" by (simp add: eq own_chains_def)
  from iptables_tool.list_no_chain [where view = view and k = k', OF assms(1) this]
  obtain k'' where k'': "list_blocked exec k' = (Inr [], k'')" by blast
  have "(NAT_TABLE, ''POSTROUTING'') \<notin> own_chains" "(FILTER_TABLE, ''FORWARD'') \<notin> own_chains"
    by (simp_all add: own_chains_def chain_names)
  with k'(1) k'' eq show ?thesis
    by (intro exI [of _ k'] exI [of _ k'']) (simp add: flushed_other flushed_postrouting flushed_forward)
qed

definition ex_blocked :: kernel where
  "ex_blocked =
     [((NAT_TABLE, ''POSTROUTING''), [jump NAT_CHAIN]),
      ((FILTER_TABLE, ''FORWARD''), [jump BLOCK_CHAIN, jump FWD_CHAIN]),
      ((NAT_TABLE, NAT_CHAIN), []), ((FILTER_TABLE, FWD_CHAIN), []),
      ((FILTER_TABLE, BLOCK_CHAIN), [drop_rule ''aa:bb:cc:00:11:22''])]"

lemma ex_blocked_placed: "jumps_as_placed (map_of ex_blocked)"
proof -
  have "map_of ex_blocked (t, c) = Some rs \<Longrightarrow> (t, c) \<notin> own_chains \<Longrightarrow>
      (t, c) = (NAT_TABLE, ''POSTROUTING'') \<and> rs = [jump NAT_CHAIN] \<or>
      (t, c) = (FILTER_TABLE, ''FORWARD'') \<and> rs = [jump BLOCK_CHAIN, jump FWD_CHAIN]" for t c rs
    by (auto simp: ex_blocked_def own_chains_def split: if_splits)
  then show ?thesis
    unfolding jumps_as_placed_def by (fastforce simp: refers_def jump_def chain_names)
qed

theorem teardown_removes_witness:
  "\<exists>k' k''. teardown kernel_exec ex_blocked = (Inr (), k') \<and> list_blocked kernel_exec k' = (Inr [], k'') \<and>
     map_of k' (FILTER_TABLE, ''FORWARD'') = Some []"
  using teardown_removes [where view = map_of, OF kernel.iptables_tool_axioms ex_blocked_placed]
  by (fastforce simp: ex_blocked_def chain_names)

lemma with_last_apply:
  "with_last t c r V x =
     (if x = (t, c) then map_option (\<lambda>rs. if r \<in> set rs then rs else rs @ [r]) (V x) else V x)"
  by (auto simp: with_last_def split: option.splits)

text \<open>
  The forwarding rules only accumulate. When \<open>iptables\<close> accepts the three rules, they are in the
  gateway's chains afterwards, each once, and every rule that was there, also one for an earlier subnet
  or interface, is still there in its place.
\<close>

theorem nat_rules_accumulate:
  assumes "iptables_tool exec view accepts shown"
    and "view k (NAT_TABLE, NAT_CHAIN) = Some ns" and "view k (FILTER_TABLE, FWD_CHAIN) = Some fs"
    and "\<And>k. accepts k NAT_TABLE (nat_rule subnet up) \<and> accepts k FILTER_TABLE (out_rule ap up) \<and>
      accepts k FILTER_TABLE (back_rule ap up)"
  shows "\<exists>k'. ensure_nat_rules exec subnet ap up k = (Inr (), k') \<and>
    view k' (NAT_TABLE, NAT_CHAIN) = Some (ns @ filter (\<lambda>r. r \<notin> set ns) [nat_rule subnet up]) \<and>
    view k' (FILTER_TABLE, FWD_CHAIN) = Some (fs @ filter (\<lambda>r. r \<notin> set fs) [out_rule ap up, back_rule ap up]) \<and>
    (\<forall>x. x \<notin> {(NAT_TABLE, NAT_CHAIN), (FILTER_TABLE, FWD_CHAIN)} \<longrightarrow> view k' x = view k x)"
proof -
  obtain k' where k': "ensure_nat_rules exec subnet ap up k = (Inr (), k')"
    "view k' = with_last FILTER_TABLE FWD_CHAIN (back_rule ap up) (with_last FILTER_TABLE FWD_CHAIN (out_rule ap up)
      (with_last NAT_TABLE NAT_CHAIN (nat_rule subnet up) (view k)))"
    using iptables_tool.ensure_nat_rules_refines [where view = view and k = k, OF assms(1-3)] assms(4) by blast
  have ne: "out_rule ap up \<noteq> back_rule ap up" "NAT_TABLE \<noteq> FILTER_TABLE"
    by (simp_all add: out_rule_def back_rule_def chain_names)
  have "view k' (NAT_TABLE, NAT_CHAIN) = Some (ns @ filter (\<lambda>r. r \<notin> set ns) [nat_rule subnet up])"
    using ne assms(2) by (simp add: k'(2) with_last_apply)
  moreover have "view k' (FILTER_TABLE, FWD_CHAIN) =
      Some (fs @ filter (\<lambda>r. r \<notin> set fs) [out_rule ap up, back_rule ap up])"
    using ne assms(3) by (simp add: k'(2) with_last_apply)
  ultimately show ?thesis using k'(1) by (intro exI [of _ k']) (simp add: k'(2) with_last_apply)
qed

theorem nat_rules_accumulate_witness:
  "\<exists>k'. ensure_nat_rules kernel_exec ''10.0.0.0/24'' ''wlan0'' ''eth0''
       [((''nat'', ''IOT_GATEWAY_NAT''), [nat_rule ''192.168.50.0/24'' ''eth0'']), ((''filter'', ''IOT_GATEWAY_FWD''), [])] = (Inr (), k') \<and>
     map_of k' (NAT_TABLE, NAT_CHAIN) = Some [nat_rule ''192.168.50.0/24'' ''eth0'', nat_rule ''10.0.0.0/24'' ''eth0'']"
proof -
  let ?k = "[((''nat'', ''IOT_GATEWAY_NAT''), [nat_rule ''192.168.50.0/24'' ''eth0'']), ((''filter'', ''IOT_GATEWAY_FWD''), [])]"
  have "map_of ?k (NAT_TABLE, NAT_CHAIN) = Some [nat_rule ''192.168.50.0/24'' ''eth0'']"
    "map_of ?k (FILTER_TABLE, FWD_CHAIN) = Some []" by (simp_all add: chain_names)
  moreover have "kernel_accepts k NAT_TABLE (nat_rule ''10.0.0.0/24'' ''eth0'') \<and>
      kernel_accepts k FILTER_TABLE (out_rule ''wlan0'' ''eth0'') \<and>
      kernel_accepts k FILTER_TABLE (back_rule ''wlan0'' ''eth0'')" for k
    by (simp add: kernel_accepts_def nat_rule_def out_rule_def back_rule_def)
  ultimately obtain k' where
    "ensure_nat_rules kernel_exec ''10.0.0.0/24'' ''wlan0'' ''eth0'' ?k = (Inr (), k')"
    "map_of k' (NAT_TABLE, NAT_CHAIN) = Some ([nat_rule ''192.168.50.0/24'' ''eth0''] @
       filter (\<lambda>r. r \<notin> set [nat_rule ''192.168.50.0/24'' ''eth0'']) [nat_rule ''10.0.0.0/24'' ''eth0''])"
    using nat_rules_accumulate [where view = map_of and k = ?k, OF kernel.iptables_tool_axioms] by blast
  then show ?thesis by (intro exI [of _ k']) (simp add: nat_rule_def)
qed

end
