(* ===== verification/Gateway_Runtime.thy ===== *)
theory Gateway_Runtime
  imports Iptables
begin

text \<open>
  The gateway agent's runtime (\<open>src/images/gateway-agent/app/state.py\<close>): applying, rolling back and restoring
  a configuration, the managed processes and the files under \<open>STATE_DIR\<close>; its status (\<open>status.py\<close>) and its
  HTTP endpoints (\<open>main.py\<close>, \<open>models.py\<close>). An operation is an action on the state of the agent; the lock
  makes apply, rollback, restore and stop whole. Writing to the state directory is taken to succeed.
\<close>

section \<open>State\<close>

text \<open>A managed process; \<open>pc_returncode\<close> is \<^term>\<open>None\<close> while it runs.\<close>

record managed_process =
  pc_name :: string
  pc_pid :: int
  pc_returncode :: "int option"

definition running :: "managed_process \<Rightarrow> bool" where
  "running p = (pc_returncode p = None)"

text \<open>
  The files under \<open>STATE_DIR\<close> by their texts (\<^term>\<open>None\<close> when missing). \<open>last_apply.json\<close> is kept as the
  two values read back from it.
\<close>

record files =
  f_config :: "string option"
  f_hostapd :: "string option"
  f_dnsmasq :: "string option"
  f_leases :: "string option"
  f_last_apply :: "(bool \<times> string) option"
  lkg_dir :: bool
  lkg_config :: "string option"
  lkg_hostapd :: "string option"
  lkg_dnsmasq :: "string option"

record 'k gateway =
  host :: 'k
  fs :: files
  hostapd :: "managed_process option"
  dnsmasq :: "managed_process option"
  hostapd_error :: "string option"
  dnsmasq_error :: "string option"

text \<open>
  What the host decides: \<open>tool\<close> runs a program to its end, \<open>spawn\<close> starts one and gives its process id,
  \<open>ends\<close> is the effect of terminating (if need be killing) a running process, and \<open>settle\<close> what has happened
  after the second the agent waits: which of the two new processes has exited with which code, and the
  error outputs that were read to their end meanwhile, in that order. \<open>dump\<close> and \<open>load\<close> are pydantic's JSON
  encoder and decoder of \<open>WifiConfig\<close>, \<open>exn_text\<close> the text of an exception, \<open>state_dir\<close> the directory.
\<close>

record settled =
  se_dnsmasq :: "int option"
  se_hostapd :: "int option"
  se_captured :: "(string \<times> string) list"

record 'k platform =
  tool :: "'k tool"
  spawn :: "string list \<Rightarrow> 'k \<Rightarrow> int option \<times> 'k"
  ends :: "managed_process \<Rightarrow> 'k \<Rightarrow> 'k"
  settle :: "'k \<Rightarrow> settled \<times> 'k"
  dump :: "wifi_config \<Rightarrow> string"
  load :: "string \<Rightarrow> wifi_config option"
  exn_text :: "host_error \<Rightarrow> string"
  state_dir :: string

section \<open>Paths and commands\<close>

definition path_in :: "string \<Rightarrow> string \<Rightarrow> string" where
  "path_in d name = (if d = ''.'' then name else if d = ''/'' then ''/'' @ name else d @ ''/'' @ name)"

definition build_hostapd_command :: "string \<Rightarrow> string list" where
  "build_hostapd_command config_path = [''hostapd'', config_path]"

definition build_dnsmasq_command :: "string \<Rightarrow> string list" where
  "build_dnsmasq_command config_path = [''dnsmasq'', ''--no-daemon'', ''--conf-file='' @ config_path]"

section \<open>Actions on the gateway\<close>

definition modify :: "('s \<Rightarrow> 's) \<Rightarrow> ('s, unit) action" where
  "modify f s = (Inr (), f s)"

definition on_host :: "('k, 'a) action \<Rightarrow> ('k gateway, 'a) action" where
  "on_host m s = (case m (host s) of (r, k) \<Rightarrow> (r, s\<lparr>host := k\<rparr>))"

text \<open>\<open>_run\<close> of \<open>state.py\<close>.\<close>

definition run_command :: "'k platform \<Rightarrow> string list \<Rightarrow> ('k, unit) action" where
  "run_command pf cmd k = (case tool pf cmd k of
      (None, k') \<Rightarrow> (Inl Os_error, k')
    | (Some c, k') \<Rightarrow> if returncode c \<noteq> 0 then (Inl (Runtime_error cmd (strip (stderr c))), k') else (Inr (), k'))"

definition terminate :: "'k platform \<Rightarrow> managed_process option \<Rightarrow> ('k, unit) action" where
  "terminate pf p k = (case p of None \<Rightarrow> (Inr (), k)
     | Some q \<Rightarrow> if pc_returncode q = None then (Inr (), ends pf q k) else (Inr (), k))"

definition stop_processes :: "'k platform \<Rightarrow> ('k gateway, unit) action" where
  "stop_processes pf s =
     andthen (on_host (terminate pf (hostapd s))) (\<lambda>_.
     andthen (on_host (terminate pf (dnsmasq s))) (\<lambda>_.
     modify (\<lambda>s. s\<lparr>hostapd := None, dnsmasq := None\<rparr>))) s"

definition start_hostapd :: "'k platform \<Rightarrow> ('k gateway, unit) action" where
  "start_hostapd pf s =
     (case spawn pf (build_hostapd_command (path_in (state_dir pf) ''hostapd.conf'')) (host s) of
        (None, k) \<Rightarrow> (Inl Os_error, s\<lparr>host := k\<rparr>)
      | (Some pid, k) \<Rightarrow> (Inr (), s\<lparr>host := k,
          hostapd := Some \<lparr>pc_name = ''hostapd'', pc_pid = pid, pc_returncode = None\<rparr>\<rparr>))"

definition start_dnsmasq :: "'k platform \<Rightarrow> ('k gateway, unit) action" where
  "start_dnsmasq pf s =
     (case spawn pf (build_dnsmasq_command (path_in (state_dir pf) ''dnsmasq.conf'')) (host s) of
        (None, k) \<Rightarrow> (Inl Os_error, s\<lparr>host := k\<rparr>)
      | (Some pid, k) \<Rightarrow> (Inr (), s\<lparr>host := k,
          dnsmasq := Some \<lparr>pc_name = ''dnsmasq'', pc_pid = pid, pc_returncode = None\<rparr>\<rparr>))"

text \<open>The end of a capturing task: \<open>data\<close> is all the process wrote to its error output.\<close>

definition capture_process_error :: "string \<Rightarrow> string \<Rightarrow> 'k gateway \<Rightarrow> 'k gateway" where
  "capture_process_error name data s =
     (let msg = (if data = [] then None else Some (strip data))
      in if name = ''hostapd'' then s\<lparr>hostapd_error := msg\<rparr> else s\<lparr>dnsmasq_error := msg\<rparr>)"

definition wait_second :: "'k platform \<Rightarrow> ('k gateway, unit) action" where
  "wait_second pf s =
     (case settle pf (host s) of (e, k) \<Rightarrow>
      (Inr (), fold (\<lambda>(name, data). capture_process_error name data) (se_captured e)
        (s\<lparr>host := k,
           dnsmasq := map_option (\<lambda>p. p\<lparr>pc_returncode := se_dnsmasq e\<rparr>) (dnsmasq s),
           hostapd := map_option (\<lambda>p. p\<lparr>pc_returncode := se_hostapd e\<rparr>) (hostapd s)\<rparr>)))"

definition write_last_apply :: "bool \<Rightarrow> string \<Rightarrow> ('k gateway, unit) action" where
  "write_last_apply ok message = modify (\<lambda>s. s\<lparr>fs := (fs s)\<lparr>f_last_apply := Some (ok, message)\<rparr>\<rparr>)"

definition finish :: "bool \<Rightarrow> string \<Rightarrow> ('k gateway, bool \<times> string) action" where
  "finish ok msg = andthen (write_last_apply ok msg) (\<lambda>_. returns (ok, msg))"

section \<open>Apply\<close>

definition write_intent :: "'k platform \<Rightarrow> wifi_config \<Rightarrow> ('k gateway, unit) action" where
  "write_intent pf cfg s =
     (let s1 = s\<lparr>hostapd_error := None, dnsmasq_error := None,
                 fs := (fs s)\<lparr>f_config := Some (dump pf cfg), f_hostapd := Some (render_hostapd cfg)\<rparr>\<rparr>
      in case render_dnsmasq cfg of
           Inl e \<Rightarrow> (Inl (Value_error (subnet_cidr cfg)), s1)
         | Inr text \<Rightarrow> (Inr (), s1\<lparr>fs := (fs s1)\<lparr>f_dnsmasq := Some text\<rparr>\<rparr>))"

definition disable :: "'k platform \<Rightarrow> wifi_config \<Rightarrow> ('k gateway, bool \<times> string) action" where
  "disable pf cfg =
     andthen (stop_processes pf) (\<lambda>_.
     andthen (on_host (teardown (tool pf))) (\<lambda>_.
     andthen (on_host (run_command pf [''ip'', ''-4'', ''addr'', ''flush'', ''dev'', ap_interface cfg])) (\<lambda>_.
     finish True ''gateway disabled'')))"

definition configure_network :: "'k platform \<Rightarrow> wifi_config \<Rightarrow> ip_net \<Rightarrow> ('k, unit) action" where
  "configure_network pf cfg net = run_all
     [run_command pf [''ip'', ''link'', ''set'', ap_interface cfg, ''up''],
      run_command pf [''ip'', ''addr'', ''replace'', gateway_ip cfg @ ''/'' @ nat_str (prefixlen net), ''dev'', ap_interface cfg],
      run_command pf [''sysctl'', ''-w'', ''net.ipv4.ip_forward=1''],
      ensure_chains (tool pf),
      ensure_jump_rules (tool pf),
      ensure_nat_rules (tool pf) (subnet_cidr cfg) (ap_interface cfg) (upstream_interface cfg)]"

definition save_last_known_good :: "'k gateway \<Rightarrow> 'k gateway" where
  "save_last_known_good s = s\<lparr>fs := (fs s)\<lparr>lkg_dir := True, lkg_config := f_config (fs s),
     lkg_hostapd := f_hostapd (fs s), lkg_dnsmasq := f_dnsmasq (fs s)\<rparr>\<rparr>"

definition is_running :: "managed_process option \<Rightarrow> bool" where
  "is_running p = (case p of None \<Rightarrow> False | Some q \<Rightarrow> running q)"

definition or_unknown :: "string option \<Rightarrow> string" where
  "or_unknown e = (case e of None \<Rightarrow> ''unknown error'' | Some t \<Rightarrow> if t = [] then ''unknown error'' else t)"

definition check_health :: "('k gateway, bool \<times> string) action" where
  "check_health s =
     (if \<not> is_running (dnsmasq s)
      then finish False (''dnsmasq failed to start: '' @ or_unknown (dnsmasq_error s)) s
      else if \<not> is_running (hostapd s)
      then finish False (''hostapd failed to start: '' @ or_unknown (hostapd_error s)) s
      else andthen (modify save_last_known_good) (\<lambda>_. finish True ''ap applied'') s)"

definition apply_locked :: "'k platform \<Rightarrow> wifi_config \<Rightarrow> ('k gateway, bool \<times> string) action" where
  "apply_locked pf cfg =
     andthen (write_intent pf cfg) (\<lambda>_.
     if \<not> enabled cfg then disable pf cfg
     else case ip_network (subnet_cidr cfg) of
            Inl e \<Rightarrow> raises (Value_error (subnet_cidr cfg))
          | Inr net \<Rightarrow>
              andthen (on_host (configure_network pf cfg net)) (\<lambda>_.
              andthen (stop_processes pf) (\<lambda>_.
              andthen (start_dnsmasq pf) (\<lambda>_.
              andthen (start_hostapd pf) (\<lambda>_.
              andthen (wait_second pf) (\<lambda>_. check_health))))))"

section \<open>Rollback, restore, stop\<close>

definition give_up :: "'k platform \<Rightarrow> string \<Rightarrow> ('k gateway, bool \<times> string) action" where
  "give_up pf msg =
     andthen (stop_processes pf) (\<lambda>_.
     andthen (on_host (teardown (tool pf))) (\<lambda>_. finish False msg))"

definition prefixed :: "string \<Rightarrow> ('s, bool \<times> string) action \<Rightarrow> ('s, bool \<times> string) action" where
  "prefixed p m = andthen m (\<lambda>(ok, msg). returns (ok, p @ msg))"

definition saved_lkg :: "'k platform \<Rightarrow> 'k gateway \<Rightarrow> wifi_config option" where
  "saved_lkg pf s = (case lkg_config (fs s) of None \<Rightarrow> None | Some text \<Rightarrow> load pf text)"

definition rollback_locked :: "'k platform \<Rightarrow> ('k gateway, bool \<times> string) action" where
  "rollback_locked pf s =
     (if \<not> lkg_dir (fs s) then give_up pf ''no last-known-good config; services stopped'' s
      else case saved_lkg pf s of
             None \<Rightarrow> give_up pf ''invalid last-known-good config; services stopped'' s
           | Some cfg \<Rightarrow> prefixed ''rollback: '' (apply_locked pf cfg) s)"

definition read_config :: "'k platform \<Rightarrow> 'k gateway \<Rightarrow> wifi_config option" where
  "read_config pf s = (case f_config (fs s) of None \<Rightarrow> None | Some text \<Rightarrow> load pf text)"

text \<open>\<open>try\<close> around an apply: an exception becomes a message.\<close>

definition catching :: "'k platform \<Rightarrow> string \<Rightarrow> ('k gateway, bool \<times> string) action \<Rightarrow> ('k gateway, bool \<times> string) action" where
  "catching pf what m s = (case m s of (Inl e, s') \<Rightarrow> (Inr (False, what @ exn_text pf e), s') | r \<Rightarrow> r)"

definition restore_from_disk :: "'k platform \<Rightarrow> ('k gateway, bool \<times> string) action" where
  "restore_from_disk pf s =
     (if lkg_dir (fs s) \<and> lkg_config (fs s) \<noteq> None
      then catching pf ''restore(lkg) failed: ''
             (case saved_lkg pf s of
                None \<Rightarrow> raises (Value_error ''wifi_config.json'')
              | Some cfg \<Rightarrow> prefixed ''restore(lkg): '' (apply_locked pf cfg)) s
      else case read_config pf s of
             None \<Rightarrow> (Inr (False, ''no saved config''), s)
           | Some cfg \<Rightarrow> catching pf ''restore(config) failed: ''
               (prefixed ''restore(config): '' (apply_locked pf cfg)) s)"

definition stop :: "'k platform \<Rightarrow> ('k gateway, unit) action" where
  "stop pf = stop_processes pf"

section \<open>Status\<close>

record process_view =
  ps_running :: bool
  ps_pid :: "int option"
  ps_exit_code :: "int option"
  ps_last_error :: "string option"

definition process_status :: "managed_process option \<Rightarrow> 'k gateway \<Rightarrow> process_view" where
  "process_status p s = (case p of
      None \<Rightarrow> \<lparr>ps_running = False, ps_pid = None, ps_exit_code = None, ps_last_error = None\<rparr>
    | Some q \<Rightarrow> \<lparr>ps_running = running q, ps_pid = Some (pc_pid q), ps_exit_code = pc_returncode q,
        ps_last_error = (if pc_name q = ''hostapd'' then hostapd_error s else dnsmasq_error s)\<rparr>)"

record lease =
  lease_expires_at :: string
  mac_address :: "string option"
  ip_address_text :: string
  hostname :: "string option"
  client_id :: "string option"

definition unless_star :: "string \<Rightarrow> string option" where
  "unless_star s = (if s = ''*'' then None else Some s)"

fun lease_of :: "string list \<Rightarrow> lease option" where
  "lease_of (expiry # mac # ip # name # cid # rest) =
     Some \<lparr>lease_expires_at = expiry, mac_address = unless_star mac, ip_address_text = ip,
           hostname = unless_star name, client_id = unless_star cid\<rparr>"
| "lease_of _ = None"

definition read_leases :: "'k gateway \<Rightarrow> lease list" where
  "read_leases s = (case f_leases (fs s) of None \<Rightarrow> []
     | Some text \<Rightarrow> List.map_filter (\<lambda>line. if strip line = [] then None else lease_of (split_ws (strip line)))
         (splitlines text))"

definition read_last_apply :: "'k gateway \<Rightarrow> bool option \<times> string option" where
  "read_last_apply s = (map_option fst (f_last_apply (fs s)), map_option snd (f_last_apply (fs s)))"

text \<open>The saved configuration without its passphrase.\<close>

record config_view =
  cv_ssid :: string
  cv_country_code :: string
  cv_channel :: int
  cv_ap_interface :: string
  cv_upstream_interface :: string
  cv_subnet_cidr :: string
  cv_gateway_ip :: string
  cv_dhcp_range_start :: string
  cv_dhcp_range_end :: string
  cv_enabled :: bool

definition without_psk :: "wifi_config \<Rightarrow> config_view" where
  "without_psk c = \<lparr>cv_ssid = ssid c, cv_country_code = country_code c,
     cv_channel = channel c, cv_ap_interface = ap_interface c, cv_upstream_interface = upstream_interface c,
     cv_subnet_cidr = subnet_cidr c, cv_gateway_ip = gateway_ip c,
     cv_dhcp_range_start = dhcp_range_start c, cv_dhcp_range_end = dhcp_range_end c,
     cv_enabled = enabled c\<rparr>"

definition active_config :: "'k platform \<Rightarrow> 'k gateway \<Rightarrow> config_view option" where
  "active_config pf s = map_option without_psk (read_config pf s)"

text \<open>Reading the host: every exception becomes the default.\<close>

definition read_stdout :: "'k tool \<Rightarrow> string list \<Rightarrow> 'k \<Rightarrow> string option \<times> 'k" where
  "read_stdout exec cmd k = (case run_checked exec cmd k of (Inl _, k') \<Rightarrow> (None, k') | (Inr c, k') \<Rightarrow> (Some (stdout c), k'))"

definition get_iface_ip :: "'k tool \<Rightarrow> string \<Rightarrow> 'k \<Rightarrow> string option \<times> 'k" where
  "get_iface_ip exec name k = (case read_stdout exec [''ip'', ''-4'', ''addr'', ''show'', name] k of
      (None, k') \<Rightarrow> (None, k')
    | (Some out, k') \<Rightarrow>
        (case filter (\<lambda>l. starts_with l ''inet '') (map strip (splitlines out)) of
           [] \<Rightarrow> (None, k')
         | l # _ \<Rightarrow> (case split_ws l of _ # a # _ \<Rightarrow> (Some a, k') | _ \<Rightarrow> (None, k'))))"

definition ip_forward_enabled :: "'k tool \<Rightarrow> 'k \<Rightarrow> bool option \<times> 'k" where
  "ip_forward_enabled exec k = (case read_stdout exec [''sysctl'', ''-n'', ''net.ipv4.ip_forward''] k of
      (None, k') \<Rightarrow> (None, k') | (Some out, k') \<Rightarrow> (Some (strip out = ''1''), k'))"

definition nat_rule_present :: "'k tool \<Rightarrow> 'k \<Rightarrow> bool option \<times> 'k" where
  "nat_rule_present exec k = (case read_stdout exec [''iptables'', ''-t'', ''nat'', ''-S''] k of
      (None, k') \<Rightarrow> (None, k') | (Some out, k') \<Rightarrow> (Some (contains ''MASQUERADE'' out), k'))"

text \<open>\<open>_iface_exists\<close> of \<open>status.py\<close> is that of \<open>validate.py\<close> again.\<close>

definition status_iface_exists :: "'k tool \<Rightarrow> string \<Rightarrow> 'k \<Rightarrow> bool \<times> 'k" where
  "status_iface_exists exec name = probe exec [''ip'', ''link'', ''show'', name]"

record base_status =
  gs_ap_interface_exists :: bool
  gs_upstream_interface_exists :: bool
  gs_ap_ip :: "string option"
  gs_ip_forward :: "bool option"
  gs_nat_rule_present :: "bool option"

definition get_status :: "'k tool \<Rightarrow> string \<Rightarrow> string \<Rightarrow> 'k \<Rightarrow> base_status \<times> 'k" where
  "get_status exec ap upstream k =
     (let (e1, k1) = status_iface_exists exec ap k;
          (e2, k2) = status_iface_exists exec upstream k1;
          (ip, k3) = get_iface_ip exec ap k2;
          (fwd, k4) = ip_forward_enabled exec k3;
          (masq, k5) = nat_rule_present exec k4
      in (\<lparr>gs_ap_interface_exists = e1, gs_upstream_interface_exists = e2, gs_ap_ip = ip,
           gs_ip_forward = fwd, gs_nat_rule_present = masq\<rparr>, k5))"

record gateway_status = base_status +
  gs_hostapd :: process_view
  gs_dnsmasq :: process_view
  gs_last_apply_ok :: "bool option"
  gs_last_apply_message :: "string option"
  gs_active_config :: "config_view option"
  gs_connected_clients :: "lease list"
  gs_lease_count :: nat
  gs_apply_enabled :: bool
  gs_auto_restore :: bool

section \<open>Endpoints\<close>

record env_vars =
  enable_apply_var :: "string option"
  auto_restore_var :: "string option"

definition bool_env :: "string option \<Rightarrow> bool \<Rightarrow> bool" where
  "bool_env v unset = (case v of None \<Rightarrow> unset | Some t \<Rightarrow> lower t = ''true'')"

definition apply_allowed :: "env_vars \<Rightarrow> bool" where
  "apply_allowed env = (lower (case enable_apply_var env of None \<Rightarrow> ''false'' | Some t \<Rightarrow> t) = ''true'')"

definition status :: "'k platform \<Rightarrow> env_vars \<Rightarrow> string \<Rightarrow> string \<Rightarrow> 'k gateway \<Rightarrow> gateway_status \<times> 'k gateway" where
  "status pf env ap upstream s =
     (let (base, k) = get_status (tool pf) ap upstream (host s);
          (ok, msg) = read_last_apply s;
          clients = read_leases s
      in (\<lparr>gs_ap_interface_exists = gs_ap_interface_exists base,
           gs_upstream_interface_exists = gs_upstream_interface_exists base, gs_ap_ip = gs_ap_ip base,
           gs_ip_forward = gs_ip_forward base, gs_nat_rule_present = gs_nat_rule_present base,
           gs_hostapd = process_status (hostapd s) s, gs_dnsmasq = process_status (dnsmasq s) s,
           gs_last_apply_ok = ok, gs_last_apply_message = msg, gs_active_config = active_config pf s,
           gs_connected_clients = clients, gs_lease_count = length clients,
           gs_apply_enabled = bool_env (enable_apply_var env) False,
           gs_auto_restore = bool_env (auto_restore_var env) True\<rparr>, s\<lparr>host := k\<rparr>))"

datatype 'a http =
    Http_ok 'a
  | Http_forbidden
  | Http_unprocessable
  | Http_bad_request "issue list"
  | Http_invalid string
  | Http_internal_error

definition post_apply :: "'k platform \<Rightarrow> env_vars \<Rightarrow> wifi_config \<Rightarrow> 'k gateway \<Rightarrow> (bool \<times> string) http \<times> 'k gateway" where
  "post_apply pf env cfg s =
     (if \<not> wifi_fields_ok cfg then (Http_unprocessable, s)
      else if \<not> apply_allowed env then (Http_forbidden, s)
      else case validate_config (tool pf) cfg (host s) of (res, k) \<Rightarrow>
        if \<not> vr_ok res then (Http_bad_request (vr_issues res), s\<lparr>host := k\<rparr>)
        else case apply_locked pf cfg (s\<lparr>host := k\<rparr>) of
               (Inl e, s') \<Rightarrow> (Http_internal_error, s')
             | (Inr r, s') \<Rightarrow> (Http_ok r, s'))"

definition post_rollback :: "'k platform \<Rightarrow> env_vars \<Rightarrow> 'k gateway \<Rightarrow> (bool \<times> string) http \<times> 'k gateway" where
  "post_rollback pf env s =
     (if \<not> apply_allowed env then (Http_forbidden, s)
      else case rollback_locked pf s of
             (Inl e, s') \<Rightarrow> (Http_internal_error, s')
           | (Inr r, s') \<Rightarrow> (Http_ok r, s'))"

record block_result =
  br_mac :: string
  br_blocked :: bool
  br_message :: string

definition block_request_ok :: "string \<Rightarrow> bool" where
  "block_request_ok mac = (length mac = 17)"

definition device_reply :: "(host_error + bool) \<times> 'k \<Rightarrow> string \<Rightarrow> bool \<Rightarrow> string \<Rightarrow> string \<Rightarrow> block_result http \<times> 'k" where
  "device_reply r mac blocked yes no = (case r of
      (Inl (Value_error t), k) \<Rightarrow> (Http_invalid t, k)
    | (Inl _, k) \<Rightarrow> (Http_internal_error, k)
    | (Inr changed, k) \<Rightarrow> (Http_ok \<lparr>br_mac = lower mac, br_blocked = blocked, br_message = if changed then yes else no\<rparr>, k))"

definition post_block :: "'k platform \<Rightarrow> string \<Rightarrow> 'k \<Rightarrow> block_result http \<times> 'k" where
  "post_block pf mac k =
     (if \<not> block_request_ok mac then (Http_unprocessable, k)
      else device_reply (block_device (tool pf) mac k) mac True ''blocked'' ''already blocked'')"

definition delete_block :: "'k platform \<Rightarrow> string \<Rightarrow> 'k \<Rightarrow> block_result http \<times> 'k" where
  "delete_block pf mac k =
     device_reply (unblock_device (tool pf) mac k) mac False ''unblocked'' ''was not blocked''"

definition get_blocked :: "'k platform \<Rightarrow> 'k \<Rightarrow> string list http \<times> 'k" where
  "get_blocked pf k = (case list_blocked (tool pf) k of
      (Inl e, k') \<Rightarrow> (Http_internal_error, k') | (Inr macs, k') \<Rightarrow> (Http_ok macs, k'))"

text \<open>The two halves of \<open>lifespan\<close>.\<close>

definition startup :: "'k platform \<Rightarrow> env_vars \<Rightarrow> 'k gateway \<Rightarrow> 'k gateway" where
  "startup pf env s =
     (if bool_env (enable_apply_var env) False \<and> bool_env (auto_restore_var env) True
      then snd (restore_from_disk pf s) else s)"

definition shutdown :: "'k platform \<Rightarrow> 'k gateway \<Rightarrow> 'k gateway" where
  "shutdown pf s = snd (stop pf s)"

text \<open>A new \<open>GatewayRuntime\<close> over the files that are on disk.\<close>

definition new_gateway :: "'k \<Rightarrow> files \<Rightarrow> 'k gateway" where
  "new_gateway k f = \<lparr>host = k, fs = f, hostapd = None, dnsmasq = None, hostapd_error = None, dnsmasq_error = None\<rparr>"

end
