(* ===== verification/Gateway_System.thy ===== *)
theory Gateway_System
  imports Gateway_Runtime
begin

text \<open>
  What an apply leaves behind on every branch, and the runs of the agent (requests, restarts and events of
  the host in any order) with their invariant: the files saved as last known good are those of the last
  configuration reported up.
\<close>

section \<open>What an apply changes\<close>

lemma andthen_result:
  assumes "andthen m f s = (r, s')"
  obtains (raised) e where "m s = (Inl e, s')" "r = Inl e" | (went_on) x s1 where "m s = (Inr x, s1)" "f x s1 = (r, s')"
  using assms by (auto simp: andthen_def split: prod.splits sum.splits)

lemma on_host_frame:
  assumes "on_host m s = (r, s')"
  shows "\<exists>k. s' = s\<lparr>host := k\<rparr>"
  using assms by (auto simp: on_host_def split: prod.splits)

lemma terminate_ok: "\<exists>k'. terminate pf p k = (Inr (), k')"
  by (simp add: terminate_def split: option.splits)

lemma stop_processes_spec:
  "\<exists>k. stop_processes pf s = (Inr (), s\<lparr>host := k, hostapd := None, dnsmasq := None\<rparr>)"
proof -
  obtain k1 where k1: "terminate pf (hostapd s) (host s) = (Inr (), k1)"
    using terminate_ok [of pf "hostapd s" "host s"] by blast
  obtain k2 where "terminate pf (dnsmasq s) k1 = (Inr (), k2)"
    using terminate_ok [of pf "dnsmasq s" k1] by blast
  with k1 have "stop_processes pf s = (Inr (), s\<lparr>host := k2, hostapd := None, dnsmasq := None\<rparr>)"
    by (simp add: stop_processes_def on_host_def modify_def andthen_def)
  then show ?thesis ..
qed

lemma start_frame:
  "start_dnsmasq pf s = (r, s') \<Longrightarrow> fs s' = fs s" "start_hostapd pf s = (r, s') \<Longrightarrow> fs s' = fs s"
  by (auto simp: start_dnsmasq_def start_hostapd_def split: option.splits prod.splits)

lemma capture_frame [simp]: "fs (capture_process_error name data s) = fs s"
  by (simp add: capture_process_error_def Let_def)

lemma wait_frame: "wait_second pf s = (r, s') \<Longrightarrow> fs s' = fs s \<and> r = Inr ()"
proof -
  have "fs (fold (\<lambda>(name, data). capture_process_error name data) cs s) = fs s" for cs :: "(string \<times> string) list" and s :: "'a gateway"
    by (induction cs arbitrary: s) auto
  then show "wait_second pf s = (r, s') \<Longrightarrow> fs s' = fs s \<and> r = Inr ()"
    by (auto simp: wait_second_def split: prod.splits)
qed

text \<open>The saved last-known-good files of a state, and those an apply of a configuration saves.\<close>

definition lkg_of :: "'k gateway \<Rightarrow> bool \<times> string option \<times> string option \<times> string option" where
  "lkg_of s = (lkg_dir (fs s), lkg_config (fs s), lkg_hostapd (fs s), lkg_dnsmasq (fs s))"

definition lkg_for :: "'k platform \<Rightarrow> wifi_config \<Rightarrow> bool \<times> string option \<times> string option \<times> string option" where
  "lkg_for pf cfg = (True, Some (dump pf cfg), Some (render_hostapd cfg),
     case render_dnsmasq cfg of Inl e \<Rightarrow> None | Inr text \<Rightarrow> Some text)"

definition written :: "'k platform \<Rightarrow> wifi_config \<Rightarrow> 'k gateway \<Rightarrow> bool" where
  "written pf cfg s \<longleftrightarrow> f_config (fs s) = Some (dump pf cfg) \<and> f_hostapd (fs s) = Some (render_hostapd cfg) \<and>
     (\<exists>text. render_dnsmasq cfg = Inr text \<and> f_dnsmasq (fs s) = Some text)"

lemma write_intent_spec:
  assumes "write_intent pf cfg s = (r, s')"
  shows "lkg_of s' = lkg_of s \<and> f_last_apply (fs s') = f_last_apply (fs s) \<and> f_config (fs s') = Some (dump pf cfg) \<and>
    hostapd s' = hostapd s \<and> dnsmasq s' = dnsmasq s \<and> (r = Inr () \<longrightarrow> written pf cfg s')"
  using assms by (auto simp: write_intent_def lkg_of_def written_def Let_def split: sum.splits)

lemma finish_spec: "finish ok msg s = (Inr (ok, msg), s\<lparr>fs := (fs s)\<lparr>f_last_apply := Some (ok, msg)\<rparr>\<rparr>)"
  by (simp add: finish_def write_last_apply_def modify_def andthen_def returns_def)

lemma disable_spec:
  assumes "disable pf cfg s = (r, s')"
  shows "lkg_of s' = lkg_of s \<and> f_config (fs s') = f_config (fs s) \<and> hostapd s' = None \<and> dnsmasq s' = None \<and>
    (case r of Inl e \<Rightarrow> f_last_apply (fs s') = f_last_apply (fs s)
     | Inr x \<Rightarrow> x = (True, ''gateway disabled'') \<and> f_last_apply (fs s') = Some x)"
proof -
  obtain k where st: "stop_processes pf s = (Inr (), s\<lparr>host := k, hostapd := None, dnsmasq := None\<rparr>)"
    using stop_processes_spec [of pf s] by blast
  show ?thesis
    using assms unfolding disable_def
    by (elim andthen_result; simp add: st finish_spec)
      (auto dest!: on_host_frame simp: lkg_of_def finish_spec)
qed

lemma check_health_spec:
  assumes "check_health s = (r, s')"
  shows "\<exists>ok msg. r = Inr (ok, msg) \<and> f_last_apply (fs s') = Some (ok, msg) \<and> f_config (fs s') = f_config (fs s) \<and>
    hostapd s' = hostapd s \<and> dnsmasq s' = dnsmasq s \<and> ok = (is_running (dnsmasq s) \<and> is_running (hostapd s)) \<and>
    (if ok then msg = ''ap applied'' \<and> lkg_of s' = (True, f_config (fs s), f_hostapd (fs s), f_dnsmasq (fs s))
     else lkg_of s' = lkg_of s)"
  using assms
  by (auto simp: check_health_def finish_spec save_last_known_good_def modify_def andthen_def lkg_of_def
      split: if_splits)


text \<open>What \<open>_apply_locked\<close> leaves behind, whatever the host did.\<close>

definition apply_outcome :: "'k platform \<Rightarrow> wifi_config \<Rightarrow> 'k gateway \<Rightarrow> host_error + bool \<times> string \<Rightarrow> 'k gateway \<Rightarrow> bool" where
  "apply_outcome pf cfg s r s' \<longleftrightarrow>
     f_config (fs s') = Some (dump pf cfg) \<and>
     (case r of
        Inl e \<Rightarrow> f_last_apply (fs s') = f_last_apply (fs s) \<and> lkg_of s' = lkg_of s
      | Inr (ok, msg) \<Rightarrow> f_last_apply (fs s') = Some (ok, msg) \<and>
          (if ok \<and> enabled cfg
           then msg = ''ap applied'' \<and> written pf cfg s' \<and> lkg_of s' = lkg_for pf cfg \<and> is_running (dnsmasq s') \<and> is_running (hostapd s')
           else lkg_of s' = lkg_of s \<and> (\<not> enabled cfg \<longrightarrow> ok \<and> msg = ''gateway disabled'' \<and> hostapd s' = None \<and> dnsmasq s' = None)))"

lemma lkg_of_written:
  assumes "written pf cfg s"
  shows "lkg_for pf cfg = (True, f_config (fs s), f_hostapd (fs s), f_dnsmasq (fs s))"
  using assms by (auto simp: lkg_for_def written_def)

lemma stop_processes_frame:
  assumes "stop_processes pf s = (r, s')"
  shows "r = Inr () \<and> fs s' = fs s \<and> hostapd s' = None \<and> dnsmasq s' = None"
  using assms stop_processes_spec [of pf s] by auto

lemma lkg_of_fs: "fs s' = fs s \<Longrightarrow> lkg_of s' = lkg_of s"
  by (simp add: lkg_of_def)

lemma check_health_after:
  assumes h: "check_health s1 = (r, s')" and fs: "fs s1 = fs s0" and w: "written pf cfg s0" "enabled cfg" and old: "lkg_of s0 = lkg_of s"
  shows "apply_outcome pf cfg s r s'"
proof -
  have "written pf cfg s1" "lkg_of s1 = lkg_of s"
    using fs w old by (simp_all add: written_def lkg_of_def)
  moreover have "written pf cfg s'" if "written pf cfg s1"
    using that h by (auto simp: written_def check_health_def finish_spec save_last_known_good_def modify_def andthen_def split: if_splits)
  ultimately show ?thesis
    using check_health_spec [OF h] lkg_of_written [of pf cfg s1] w(2)
    by (auto simp: apply_outcome_def written_def split: if_splits)
qed

lemma apply_locked_outcome:
  assumes "apply_locked pf cfg s = (r, s')"
  shows "apply_outcome pf cfg s r s'"
  using assms unfolding apply_locked_def
proof (cases rule: andthen_result)
  case (raised e)
  then show ?thesis
    using write_intent_spec [OF raised(1)] by (simp add: apply_outcome_def)
next
  case (went_on x s1)
  have w: "written pf cfg s1" "lkg_of s1 = lkg_of s" "f_last_apply (fs s1) = f_last_apply (fs s)"
    using write_intent_spec [OF went_on(1)] by auto
  have raise: "apply_outcome pf cfg s (Inl e) s2" if "fs s2 = fs s1" for e s2
    using that w by (simp add: apply_outcome_def written_def lkg_of_def)
  have host: "fs s2 = fs s1" if "on_host m s1 = (r2, s2)" for m :: "('a, 'b) action" and r2 s2
    using on_host_frame [OF that] by auto
  show ?thesis
  proof (cases "enabled cfg")
    case False
    then have "disable pf cfg s1 = (r, s')" using went_on(2) by simp
    from disable_spec [OF this] show ?thesis
      using False w by (auto simp: apply_outcome_def written_def split: sum.splits)
  next
    case True
    show ?thesis
    proof (cases "ip_network (subnet_cidr cfg)")
      case (Inl e)
      then show ?thesis using went_on(2) True raise by (auto simp: raises_def)
    next
      case (Inr net)
      with True went_on(2) show ?thesis
        by (auto elim!: andthen_result dest!: host start_frame stop_processes_frame wait_frame
            intro!: raise intro: check_health_after [OF _ _ w(1) True w(2)])
    qed
  qed
qed

lemma apply_locked_lkg:
  assumes "apply_locked pf cfg s = (r, s')"
  shows "lkg_of s' = (if r = Inr (True, ''ap applied'') then lkg_for pf cfg else lkg_of s)"
  using apply_locked_outcome [OF assms]
  by (auto simp: apply_outcome_def split: sum.splits if_splits)

lemma apply_locked_enabled:
  assumes "apply_locked pf cfg s = (Inr (True, ''ap applied''), s')"
  shows "enabled cfg"
  using apply_locked_outcome [OF assms] by (auto simp: apply_outcome_def split: if_splits)

lemma give_up_lkg:
  assumes "give_up pf msg s = (r, s')"
  shows "lkg_of s' = lkg_of s" and "r \<noteq> Inr (True, m)"
  using assms unfolding give_up_def
  by (auto elim!: andthen_result dest!: on_host_frame stop_processes_frame simp: finish_spec lkg_of_def)

lemma prefixed_result:
  assumes "prefixed p m s = (r, s')"
  obtains (raised) e where "m s = (Inl e, s')" "r = Inl e" | (returned) ok msg where "m s = (Inr (ok, msg), s')" "r = Inr (ok, p @ msg)"
  using assms unfolding prefixed_def by (auto elim!: andthen_result simp: returns_def split: prod.splits)

section \<open>Runs of the agent\<close>

text \<open>
  pydantic's JSON coding of \<open>WifiConfig\<close>: what is written reads back, and what is read satisfies the field
  constraints.
\<close>

definition json_codec :: "'k platform \<Rightarrow> bool" where
  "json_codec pf \<longleftrightarrow> (\<forall>c. wifi_fields_ok c \<longrightarrow> load pf (dump pf c) = Some c) \<and>
     (\<forall>text c. load pf text = Some c \<longrightarrow> wifi_fields_ok c)"

definition restores :: "env_vars \<Rightarrow> bool" where
  "restores env \<longleftrightarrow> bool_env (enable_apply_var env) False \<and> bool_env (auto_restore_var env) True"

text \<open>The configurations a restart brought up.\<close>

definition restored :: "'k platform \<Rightarrow> env_vars \<Rightarrow> 'k gateway \<Rightarrow> wifi_config list" where
  "restored pf env s =
     (if \<not> restores env then []
      else if fst (restore_from_disk pf s) = Inr (True, ''restore(lkg): ap applied'') then [the (saved_lkg pf s)]
      else if fst (restore_from_disk pf s) = Inr (True, ''restore(config): ap applied'') then [the (read_config pf s)]
      else [])"

text \<open>
  One step of the agent and the configurations it reports up: a request, a restart of the pod (whose files
  stay), a process that exits, a capturing task that ends, the lease file rewritten, or anything else on the
  host (the blocking endpoints and the probes of a status request among them).
\<close>

inductive gateway_step :: "'k platform \<Rightarrow> env_vars \<Rightarrow> 'k gateway \<Rightarrow> wifi_config list \<Rightarrow> 'k gateway \<Rightarrow> bool"
  for pf env where
  step_apply: "post_apply pf env cfg s = (r, s') \<Longrightarrow>
    gateway_step pf env s (if r = Http_ok (True, ''ap applied'') then [cfg] else []) s'"
| step_rollback: "post_rollback pf env s = (r, s') \<Longrightarrow>
    gateway_step pf env s (if r = Http_ok (True, ''rollback: ap applied'') then [the (saved_lkg pf s)] else []) s'"
| step_restart: "s1 = new_gateway k (fs s) \<Longrightarrow> gateway_step pf env s (restored pf env s1) (startup pf env s1)"
| step_exit: "gateway_step pf env s [] (s\<lparr>hostapd := map_option (\<lambda>p. p\<lparr>pc_returncode := a\<rparr>) (hostapd s),
    dnsmasq := map_option (\<lambda>p. p\<lparr>pc_returncode := b\<rparr>) (dnsmasq s)\<rparr>)"
| step_capture: "gateway_step pf env s [] (capture_process_error name data s)"
| step_leases: "gateway_step pf env s [] (s\<lparr>fs := (fs s)\<lparr>f_leases := t\<rparr>\<rparr>)"
| step_host: "gateway_step pf env s [] (s\<lparr>host := k\<rparr>)"

inductive gateway_run :: "'k platform \<Rightarrow> env_vars \<Rightarrow> 'k gateway \<Rightarrow> wifi_config list \<Rightarrow> 'k gateway \<Rightarrow> bool"
  for pf env s0 where
  run_start: "gateway_run pf env s0 [] s0"
| run_step: "gateway_run pf env s0 ups s \<Longrightarrow> gateway_step pf env s up s' \<Longrightarrow> gateway_run pf env s0 (ups @ up) s'"

text \<open>The saved configuration is that of the last one that came up.\<close>

definition saved_is :: "'k platform \<Rightarrow> wifi_config list \<Rightarrow> 'k gateway \<Rightarrow> bool" where
  "saved_is pf ups s \<longleftrightarrow>
     (if ups = [] then \<not> lkg_dir (fs s) else lkg_of s = lkg_for pf (last ups) \<and> wifi_fields_ok (last ups) \<and> enabled (last ups))"

lemma saved_lkg_is:
  assumes "json_codec pf" "saved_is pf ups s" "ups \<noteq> []"
  shows "lkg_dir (fs s) \<and> lkg_config (fs s) \<noteq> None \<and> saved_lkg pf s = Some (last ups)"
  using assms by (simp add: saved_is_def json_codec_def lkg_of_def lkg_for_def saved_lkg_def)

lemma lkg_dir_of: "lkg_dir (fs s) = fst (lkg_of s)"
  by (simp add: lkg_of_def)

lemma saved_is_lkg: "lkg_of s' = lkg_of s \<Longrightarrow> saved_is pf ups s \<Longrightarrow> saved_is pf ups s'"
  by (auto simp: saved_is_def lkg_dir_of split: if_splits)

text \<open>An apply, of a configuration with fields in range, keeps it when it is counted iff it came up.\<close>

lemma saved_is_apply:
  assumes "saved_is pf ups s" "apply_locked pf cfg s = (r, s')" "wifi_fields_ok cfg"
  shows "saved_is pf (ups @ (if r = Inr (True, ''ap applied'') then [cfg] else [])) s'"
  using assms(1,3) apply_locked_lkg [OF assms(2)] apply_locked_enabled [of pf cfg s s'] assms(2)
  by (auto simp: saved_is_lkg [of s' s] saved_is_def [of pf "ups @ [cfg]"])

lemma rollback_locked_cases:
  assumes "json_codec pf" "saved_is pf ups s"
  shows "rollback_locked pf s =
    (if ups = [] then give_up pf ''no last-known-good config; services stopped'' s
     else prefixed ''rollback: '' (apply_locked pf (last ups)) s)"
  using saved_lkg_is [OF assms] assms(2) by (auto simp: rollback_locked_def saved_is_def)

lemma saved_is_rollback:
  assumes j: "json_codec pf" and i: "saved_is pf ups s" and e: "rollback_locked pf s = (r, s')"
  shows "saved_is pf (ups @ (if r = Inr (True, ''rollback: ap applied'') then [the (saved_lkg pf s)] else [])) s'"
proof (cases "ups = []")
  case True
  then have "give_up pf ''no last-known-good config; services stopped'' s = (r, s')"
    using rollback_locked_cases [OF j i] e by simp
  from give_up_lkg [OF this] i show ?thesis by (auto intro: saved_is_lkg)
next
  case False
  then have "prefixed ''rollback: '' (apply_locked pf (last ups)) s = (r, s')"
    using rollback_locked_cases [OF j i] e by simp
  then show ?thesis
    using saved_is_apply [OF i, of "last ups"] saved_lkg_is [OF j i False] i False
    by (cases rule: prefixed_result) (force simp: saved_is_def)+
qed

lemma catching_result:
  assumes "catching pf what m s = (r, s')"
  obtains (caught) e where "m s = (Inl e, s')" "r = Inr (False, what @ exn_text pf e)" | (fine) x where "m s = (Inr x, s')" "r = Inr x"
  using assms by (auto simp: catching_def split: prod.splits sum.splits)

lemma saved_is_restart:
  assumes j: "json_codec pf" and i: "saved_is pf ups s"
  shows "saved_is pf (ups @ restored pf env s) (startup pf env s)"
proof (cases "restores env")
  case False
  then show ?thesis using i by (auto simp: restored_def startup_def restores_def)
next
  case True
  obtain r s' where e: "restore_from_disk pf s = (r, s')" by (cases "restore_from_disk pf s")
  have "saved_is pf (ups @ restored pf env s) s'"
  proof (cases "ups = []")
    case False
    note l = saved_lkg_is [OF j i False]
    then have c: "catching pf ''restore(lkg) failed: '' (prefixed ''restore(lkg): '' (apply_locked pf (last ups))) s = (r, s')"
      using e by (simp add: restore_from_disk_def)
    have f: "wifi_fields_ok (last ups)" using i False by (simp add: saved_is_def)
    from c show ?thesis
      using saved_is_apply [OF i _ f] l True
      by (cases rule: catching_result; elim prefixed_result) (force simp: restored_def e)+
  next
    case True
    then have n: "\<not> lkg_dir (fs s)" using i by (simp add: saved_is_def)
    show ?thesis
    proof (cases "read_config pf s")
      case None
      then show ?thesis using e n i by (auto simp: restore_from_disk_def restored_def)
    next
      case (Some cfg)
      then have f: "wifi_fields_ok cfg" using j by (auto simp: json_codec_def read_config_def split: option.splits)
      from Some have "catching pf ''restore(config) failed: '' (prefixed ''restore(config): '' (apply_locked pf cfg)) s = (r, s')"
        using e n by (simp add: restore_from_disk_def)
      then show ?thesis
        using saved_is_apply [OF i _ f] Some \<open>restores env\<close>
        by (cases rule: catching_result; elim prefixed_result) (force simp: restored_def e)+
    qed
  qed
  then show ?thesis using True e by (simp add: startup_def restores_def)
qed

lemma saved_is_step:
  assumes "gateway_step pf env s up s'" and j: "json_codec pf" and i: "saved_is pf ups s"
  shows "saved_is pf (ups @ up) s'"
  using assms(1)
proof cases
  case (step_apply cfg r)
  obtain res k where v: "validate_config (tool pf) cfg (host s) = (res, k)"
    by (cases "validate_config (tool pf) cfg (host s)")
  obtain r2 s2 where a: "apply_locked pf cfg (s\<lparr>host := k\<rparr>) = (r2, s2)"
    by (cases "apply_locked pf cfg (s\<lparr>host := k\<rparr>)")
  have h: "saved_is pf ups (s\<lparr>host := k\<rparr>)" using i by (rule saved_is_lkg [rotated]) (simp add: lkg_of_def)
  from saved_is_apply [OF h a] h i step_apply v a show ?thesis
    by (auto simp: post_apply_def split: if_splits sum.splits)
next
  case (step_rollback r)
  then show ?thesis
    using i saved_is_rollback [OF j i] by (auto simp: post_rollback_def split: if_splits prod.splits sum.splits)
next
  case (step_restart s1 k)
  moreover have "saved_is pf ups s1" using i step_restart by (auto intro: saved_is_lkg simp: lkg_of_def new_gateway_def)
  ultimately show ?thesis using saved_is_restart [OF j] by simp
qed (use i in \<open>auto intro: saved_is_lkg simp: lkg_of_def\<close>)

lemma saved_is_run:
  assumes "gateway_run pf env s0 ups s" "json_codec pf" "\<not> lkg_dir (fs s0)"
  shows "saved_is pf ups s"
  using assms
proof induction
  case run_start
  then show ?case by (simp add: saved_is_def)
next
  case (run_step ups s up s')
  then show ?case using saved_is_step by blast
qed

end
