(* ===== verification/Gateway_Properties.thy ===== *)
theory Gateway_Properties
  imports Gateway_System
begin

text \<open>
  The properties of the gateway agent's runtime and endpoints, over an example platform that shows their
  hypotheses can hold.
\<close>

section \<open>A host on which everything works\<close>

text \<open>Every program exits with code 0; and an action that cannot raise.\<close>

definition obliging :: "'k tool \<Rightarrow> bool" where
  "obliging exec \<longleftrightarrow> (\<forall>cmd k. \<exists>c k'. exec cmd k = (Some c, k') \<and> returncode c = 0)"

definition unfailing :: "('k, 'a) action \<Rightarrow> bool" where
  "unfailing m \<longleftrightarrow> (\<forall>k. \<exists>x k'. m k = (Inr x, k'))"

lemma unfailingI: "(\<And>k. \<exists>x k'. m k = (Inr x, k')) \<Longrightarrow> unfailing m"
  by (simp add: unfailing_def)

lemma unfailingE:
  assumes "unfailing m"
  obtains x k' where "m k = (Inr x, k')"
  using assms by (force simp: unfailing_def)

lemma obligingE:
  assumes "obliging exec"
  obtains c k' where "exec cmd k = (Some c, k')" "returncode c = 0"
  using assms by (force simp: obliging_def)

lemma unfailing_andthen:
  assumes m: "unfailing m" and f: "\<And>x. unfailing (f x)"
  shows "unfailing (andthen m f)"
proof (rule unfailingI)
  fix k
  obtain x k1 where 1: "m k = (Inr x, k1)" by (rule unfailingE [OF m])
  obtain y k2 where 2: "f x k1 = (Inr y, k2)" by (rule unfailingE [OF f])
  from 1 2 show "\<exists>x k'. andthen m f k = (Inr x, k')" by (simp add: andthen_def)
qed

lemma unfailing_returns: "unfailing (returns x)"
  by (simp add: unfailing_def returns_def)

lemma unfailing_run_all: "list_all unfailing ms \<Longrightarrow> unfailing (run_all ms)"
  by (induction ms) (simp_all add: unfailing_andthen unfailing_returns)

lemma unfailing_by_run:
  assumes "obliging exec" and "\<And>k c k'. exec cmd k = (Some c, k') \<Longrightarrow> returncode c = 0 \<Longrightarrow> \<exists>x k''. f k = (Inr x, k'')"
  shows "unfailing f"
proof (rule unfailingI)
  fix k
  obtain c k' where "exec cmd k = (Some c, k')" "returncode c = 0" by (rule obligingE [OF assms(1)])
  then show "\<exists>x k'. f k = (Inr x, k')" by (rule assms(2))
qed

lemma unfailing_commands:
  assumes "obliging exec"
  shows "unfailing (run_checked exec cmd)" "unfailing (run_unchecked exec cmd)" "unfailing (unless_exists exec cmd m)"
  by (rule unfailing_by_run [OF assms, of cmd]; simp add: run_checked_def run_unchecked_def unless_exists_def probe_def)+

lemma unfailing_run_command: "obliging (tool pf) \<Longrightarrow> unfailing (run_command pf cmd)"
  by (erule unfailing_by_run [of _ cmd]) (simp add: run_command_def)

lemma unfailing_configure:
  assumes "obliging (tool pf)"
  shows "unfailing (configure_network pf cfg net)"
  unfolding configure_network_def ensure_chains_def ensure_jump_rules_def ensure_nat_rules_def
  by (intro unfailing_run_all)
    (simp add: unfailing_run_all unfailing_run_command [OF assms] unfailing_commands [OF assms] del: run_all.simps)

lemma unfailing_teardown: "obliging exec \<Longrightarrow> unfailing (teardown exec)"
  unfolding teardown_def by (intro unfailing_run_all) (simp add: unfailing_commands)

lemma unfailing_on_host:
  assumes "unfailing m"
  obtains x k where "on_host m s = (Inr x, s\<lparr>host := k\<rparr>)"
proof -
  obtain x k where "m (host s) = (Inr x, k)" by (rule unfailingE [OF assms])
  then have "on_host m s = (Inr x, s\<lparr>host := k\<rparr>)" by (simp add: on_host_def)
  then show ?thesis by (rule that)
qed

text \<open>Processes start, and still run after the second the agent waits.\<close>

definition lasting :: "'k platform \<Rightarrow> bool" where
  "lasting pf \<longleftrightarrow> (\<forall>cmd k. fst (spawn pf cmd k) \<noteq> None) \<and>
     (\<forall>k. se_dnsmasq (fst (settle pf k)) = None \<and> se_hostapd (fst (settle pf k)) = None)"

lemma capture_processes:
  "dnsmasq (fold (\<lambda>(name, data). capture_process_error name data) cs s) = dnsmasq s \<and>
   hostapd (fold (\<lambda>(name, data). capture_process_error name data) cs s) = hostapd s"
  by (induction cs arbitrary: s) (auto simp: capture_process_error_def Let_def)

lemma processes_come_up:
  assumes "lasting pf"
  shows "\<exists>s'. andthen (start_dnsmasq pf) (\<lambda>_. andthen (start_hostapd pf) (\<lambda>_. andthen (wait_second pf) (\<lambda>_. check_health))) s =
    (Inr (True, ''ap applied''), s')"
proof -
  obtain d k1 where d: "spawn pf (build_dnsmasq_command (path_in (state_dir pf) ''dnsmasq.conf'')) (host s) = (Some d, k1)"
    using assms unfolding lasting_def by (metis option.exhaust prod.collapse)
  obtain h k2 where h: "spawn pf (build_hostapd_command (path_in (state_dir pf) ''hostapd.conf'')) k1 = (Some h, k2)"
    using assms unfolding lasting_def by (metis option.exhaust prod.collapse)
  obtain e k3 where e: "settle pf k2 = (e, k3)" "se_dnsmasq e = None" "se_hostapd e = None"
    using assms unfolding lasting_def by (metis prod.collapse)
  from d h e show ?thesis
    by (simp add: start_dnsmasq_def start_hostapd_def wait_second_def check_health_def andthen_def modify_def
        finish_spec capture_processes is_running_def running_def)
qed

lemma apply_locked_up:
  assumes host: "obliging (tool pf)" "lasting pf" and cfg: "enabled cfg" "ip_network (subnet_cidr cfg) = Inr net"
  shows "\<exists>s'. apply_locked pf cfg s = (Inr (True, ''ap applied''), s')"
proof -
  obtain s1 where 1: "write_intent pf cfg s = (Inr (), s1)"
    using cfg(2) by (simp add: write_intent_def render_dnsmasq_def Let_def)
  obtain x k where 2: "on_host (configure_network pf cfg net) s1 = (Inr x, s1\<lparr>host := k\<rparr>)"
    by (rule unfailing_on_host [OF unfailing_configure [OF host(1)]])
  obtain s3 where 3: "stop_processes pf (s1\<lparr>host := k\<rparr>) = (Inr (), s3)"
    using stop_processes_spec [of pf "s1\<lparr>host := k\<rparr>"] by blast
  from processes_come_up [OF host(2), of s3] 1 2 3 cfg show ?thesis
    by (simp add: apply_locked_def andthen_def [of "write_intent pf cfg"] andthen_def [of "on_host m" for m]
        andthen_def [of "stop_processes pf"])
qed

section \<open>An example platform\<close>

text \<open>A coding of configurations by length-prefixed fields, on a host where everything works.\<close>

definition put_field :: "string \<Rightarrow> string" where
  "put_field w = replicate (length w) CHR ''1'' @ CHR ''0'' # w"

definition get_field :: "string \<Rightarrow> (string \<times> string) option" where
  "get_field t = (let n = length (takeWhile (\<lambda>c. c = CHR ''1'') t); u = drop (Suc n) t
     in if n < length t \<and> n \<le> length u then Some (take n u, drop n u) else None)"

fun get_fields :: "nat \<Rightarrow> string \<Rightarrow> string list option" where
  "get_fields 0 t = (if t = [] then Some [] else None)"
| "get_fields (Suc n) t = (case get_field t of None \<Rightarrow> None
     | Some (w, u) \<Rightarrow> map_option (\<lambda>ws. w # ws) (get_fields n u))"

definition fields_of :: "wifi_config \<Rightarrow> string list" where
  "fields_of c = [ssid c, psk c, country_code c, replicate (nat (channel c)) CHR ''x'', ap_interface c,
     upstream_interface c, subnet_cidr c, gateway_ip c, dhcp_range_start c, dhcp_range_end c,
     if enabled c then ''y'' else []]"

fun config_of :: "string list \<Rightarrow> wifi_config option" where
  "config_of [a, b, c, d, e, f, g, h, i, j, k] =
     (let cfg = \<lparr>ssid = a, psk = b, country_code = c, channel = int (length d), ap_interface = e, upstream_interface = f,
        subnet_cidr = g, gateway_ip = h, dhcp_range_start = i, dhcp_range_end = j, enabled = (k \<noteq> [])\<rparr>
      in if wifi_fields_ok cfg then Some cfg else None)"
| "config_of _ = None"

definition ex_platform :: "unit platform" where
  "ex_platform = \<lparr>tool = ex_tool, spawn = (\<lambda>cmd k. (Some 7, k)), ends = (\<lambda>p k. k),
     settle = (\<lambda>k. (\<lparr>se_dnsmasq = None, se_hostapd = None, se_captured = []\<rparr>, k)),
     dump = (\<lambda>c. concat (map put_field (fields_of c))),
     load = (\<lambda>t. case get_fields 11 t of None \<Rightarrow> None | Some ws \<Rightarrow> config_of ws),
     exn_text = (\<lambda>e. []), state_dir = ''/data''\<rparr>"

lemma get_put_field: "get_field (put_field w @ u) = Some (w, u)"
proof -
  have "takeWhile (\<lambda>c. c = CHR ''1'') (replicate n CHR ''1'' @ CHR ''0'' # v) = replicate n CHR ''1''" for n v
    by (induction n) auto
  then show ?thesis by (simp add: get_field_def put_field_def Let_def)
qed

lemma get_put_fields: "get_fields (length ws) (concat (map put_field ws)) = Some ws"
  by (induction ws) (simp_all add: get_put_field)

lemma config_of_fields: "wifi_fields_ok c \<Longrightarrow> config_of (fields_of c) = Some c"
  by (cases c) (simp add: fields_of_def Let_def wifi_fields_ok_def)

lemma config_of_ok: "config_of ws = Some c \<Longrightarrow> wifi_fields_ok c"
  by (induction ws rule: config_of.induct) (auto simp: Let_def split: if_splits)

lemma ex_codec: "json_codec ex_platform"
proof -
  have "length (fields_of c) = 11" for c by (simp add: fields_of_def)
  then have "get_fields 11 (concat (map put_field (fields_of c))) = Some (fields_of c)" for c
    using get_put_fields [of "fields_of c"] by simp
  then show ?thesis
    by (auto simp: json_codec_def ex_platform_def config_of_fields intro: config_of_ok split: option.splits)
qed

lemma ex_host: "obliging (tool ex_platform)" "lasting ex_platform"
  by (simp_all add: obliging_def lasting_def ex_platform_def ex_tool_def)

definition ex_env :: env_vars where
  "ex_env = \<lparr>enable_apply_var = Some ''true'', auto_restore_var = None\<rparr>"

definition no_files :: files where
  "no_files = \<lparr>f_config = None, f_hostapd = None, f_dnsmasq = None, f_leases = None, f_last_apply = None,
     lkg_dir = False, lkg_config = None, lkg_hostapd = None, lkg_dnsmasq = None\<rparr>"

lemma ex_env_allows: "apply_allowed ex_env" "restores ex_env"
  by (simp_all add: ex_env_def apply_allowed_def restores_def bool_env_def lower_def lower_char_def)

lemma ex_config_ok: "wifi_fields_ok ex_config" "enabled ex_config"
  "ip_network (subnet_cidr ex_config) = Inr \<lparr>network_address = \<lparr>ip_version = V4, ip_int = 3232248320, scope_id = None\<rparr>, prefixlen = 24\<rparr>"
  by (simp_all add: ex_config_def default_config_def wifi_fields_ok_def ex_addresses)

text \<open>A request for the example configuration brings the access point up.\<close>

lemma ex_up:
  obtains s' where "post_apply ex_platform ex_env ex_config s = (Http_ok (True, ''ap applied''), s')"
proof -
  obtain res where v: "validate_config (tool ex_platform) ex_config (host s) = (res, ())" "vr_ok res"
    using ex_validate by (cases "validate_config ex_tool ex_config ()") (auto simp: ex_platform_def)
  obtain s' where "apply_locked ex_platform ex_config (s\<lparr>host := ()\<rparr>) = (Inr (True, ''ap applied''), s')"
    using apply_locked_up [OF ex_host ex_config_ok(2,3)] by blast
  then have "post_apply ex_platform ex_env ex_config s = (Http_ok (True, ''ap applied''), s')"
    using v by (simp add: post_apply_def ex_config_ok ex_env_allows)
  then show ?thesis by (rule that)
qed

lemma ex_run:
  obtains s where "gateway_run ex_platform ex_env (new_gateway () no_files) [ex_config] s"
proof -
  obtain s' where "post_apply ex_platform ex_env ex_config (new_gateway () no_files) = (Http_ok (True, ''ap applied''), s')"
    by (rule ex_up)
  from step_apply [OF this] have "gateway_step ex_platform ex_env (new_gateway () no_files) [ex_config] s'" by simp
  from run_step [OF run_start this] show ?thesis by (intro that) simp
qed

lemma apply_allowed_iff: "apply_allowed env = bool_env (enable_apply_var env) False"
  by (simp add: apply_allowed_def bool_env_def lower_def lower_char_def split: option.splits)

section \<open>Properties\<close>

text \<open>
  C5: after any sequence of requests, restarts and host events, a rollback re-applies the configuration that
  came up last, whose three files are what is saved as last known good; a configuration that failed, raised or
  disabled the gateway never takes its place. Before any configuration has come up a rollback stops the
  services and says so.
\<close>

theorem rollback_to_last_good:
  assumes "json_codec pf" and "gateway_run pf env s0 ups s" and "\<not> lkg_dir (fs s0)"
  shows "if ups = [] then rollback_locked pf s = give_up pf ''no last-known-good config; services stopped'' s
    else lkg_of s = lkg_for pf (last ups) \<and> enabled (last ups) \<and>
      rollback_locked pf s = prefixed ''rollback: '' (apply_locked pf (last ups)) s"
  using rollback_locked_cases [OF assms(1)] saved_is_run [OF assms(2,1,3)] by (auto simp: saved_is_def)

theorem rollback_to_last_good_witness:
  "\<exists>s. gateway_run ex_platform ex_env (new_gateway () no_files) [ex_config] s \<and>
     rollback_locked ex_platform s = prefixed ''rollback: '' (apply_locked ex_platform ex_config) s"
proof -
  obtain s where r: "gateway_run ex_platform ex_env (new_gateway () no_files) [ex_config] s" by (rule ex_run)
  from rollback_to_last_good [OF ex_codec r] r show ?thesis by (auto simp: new_gateway_def no_files_def)
qed

text \<open>
  C6: what applying a configuration leaves behind on every branch. The configuration file is always the new one.
  An exception leaves the record of the last apply and the last-known-good files as they were. A result is
  recorded; when the gateway came up, all three files are written and saved as last known good and both processes run;
  otherwise the saved files are untouched, and disabling leaves no process.
\<close>

theorem apply_outcomes:
  assumes "apply_locked pf cfg s = (r, s')"
  shows "f_config (fs s') = Some (dump pf cfg) \<and>
    (case r of
       Inl e \<Rightarrow> f_last_apply (fs s') = f_last_apply (fs s) \<and> lkg_of s' = lkg_of s
     | Inr (ok, msg) \<Rightarrow> f_last_apply (fs s') = Some (ok, msg) \<and>
         (if ok \<and> enabled cfg
          then msg = ''ap applied'' \<and> written pf cfg s' \<and> lkg_of s' = lkg_for pf cfg \<and> is_running (dnsmasq s') \<and> is_running (hostapd s')
          else lkg_of s' = lkg_of s \<and> (\<not> enabled cfg \<longrightarrow> ok \<and> msg = ''gateway disabled'' \<and> hostapd s' = None \<and> dnsmasq s' = None)))"
  using apply_locked_outcome [OF assms] unfolding apply_outcome_def .

theorem apply_outcomes_witness:
  "\<exists>s'. apply_locked ex_platform ex_config (new_gateway () no_files) = (Inr (True, ''ap applied''), s') \<and>
     lkg_of s' = lkg_for ex_platform ex_config \<and> is_running (dnsmasq s') \<and> is_running (hostapd s')"
proof -
  obtain s' where a: "apply_locked ex_platform ex_config (new_gateway () no_files) = (Inr (True, ''ap applied''), s')"
    using apply_locked_up [OF ex_host ex_config_ok(2,3)] by blast
  from apply_outcomes [OF a] a ex_config_ok(2) show ?thesis by auto
qed




text \<open>
  A restart does not keep the gateway disabled. After a configuration has come up, disabling the gateway succeeds and
  is written to the configuration file; but the next start re-applies the last configuration that came up
  and overwrites that file.
\<close>

theorem restart_enables_again:
  assumes "json_codec pf" and "gateway_run pf env s0 ups s" and "\<not> lkg_dir (fs s0)" and "ups \<noteq> []" and "restores env"
    and off: "post_apply pf env off s = (Http_ok (True, ''gateway disabled''), s1)"
  shows "\<not> enabled off \<and> f_config (fs s1) = Some (dump pf off) \<and> enabled (last ups) \<and>
    f_config (fs (startup pf env (new_gateway k (fs s1)))) = Some (dump pf (last ups)) \<and>
    read_config pf (startup pf env (new_gateway k (fs s1))) = Some (last ups)"
proof -
  note i = saved_is_run [OF assms(2,1,3)]
  obtain k1 where a: "apply_locked pf off (s\<lparr>host := k1\<rparr>) = (Inr (True, ''gateway disabled''), s1)"
    using off by (auto simp: post_apply_def split: if_splits prod.splits sum.splits)
  note out = apply_locked_outcome [OF a]
  have "gateway_run pf env s0 ups s1" using run_step [OF assms(2) step_apply [OF off]] by simp
  then have "saved_is pf ups (new_gateway k (fs s1))"
    using saved_is_run [OF _ assms(1,3)] by (auto intro: saved_is_lkg simp: new_gateway_def lkg_of_def)
  from saved_lkg_is [OF assms(1) this assms(4)] obtain r s2 where
    "catching pf ''restore(lkg) failed: '' (prefixed ''restore(lkg): '' (apply_locked pf (last ups))) (new_gateway k (fs s1)) = (r, s2)"
    "startup pf env (new_gateway k (fs s1)) = s2"
    using assms(5) by (cases "restore_from_disk pf (new_gateway k (fs s1))")
      (auto simp: startup_def restores_def restore_from_disk_def)
  then have "f_config (fs (startup pf env (new_gateway k (fs s1)))) = Some (dump pf (last ups))"
    by (elim catching_result prefixed_result) (auto dest!: apply_locked_outcome simp: apply_outcome_def)
  then show ?thesis
    using out i assms(1,4) by (auto simp: apply_outcome_def saved_is_def read_config_def json_codec_def split: if_splits)
qed

lemma disable_done:
  assumes "obliging (tool pf)"
  shows "\<exists>s'. disable pf cfg s = (Inr (True, ''gateway disabled''), s')"
proof -
  obtain s1 where 1: "stop_processes pf s = (Inr (), s1)" using stop_processes_spec [of pf s] by blast
  obtain x k where 2: "on_host (teardown (tool pf)) s1 = (Inr x, s1\<lparr>host := k\<rparr>)"
    by (rule unfailing_on_host [OF unfailing_teardown [OF assms]])
  obtain y k' where 3: "on_host (run_command pf [''ip'', ''-4'', ''addr'', ''flush'', ''dev'', ap_interface cfg]) (s1\<lparr>host := k\<rparr>) =
      (Inr y, s1\<lparr>host := k, host := k'\<rparr>)"
    by (rule unfailing_on_host [OF unfailing_run_command [OF assms]])
  from 1 2 3 show ?thesis by (simp add: disable_def andthen_def finish_spec)
qed

theorem restart_enables_again_witness:
  "\<exists>s s1. gateway_run ex_platform ex_env (new_gateway () no_files) [ex_config] s \<and>
     post_apply ex_platform ex_env (ex_config\<lparr>enabled := False\<rparr>) s = (Http_ok (True, ''gateway disabled''), s1) \<and>
     read_config ex_platform (startup ex_platform ex_env (new_gateway () (fs s1))) = Some ex_config"
proof -
  let ?off = "ex_config\<lparr>enabled := False\<rparr>"
  obtain s where r: "gateway_run ex_platform ex_env (new_gateway () no_files) [ex_config] s" by (rule ex_run)
  have f: "wifi_fields_ok ?off" using ex_config_ok(1) by (simp add: wifi_fields_ok_def)
  obtain s2 where w: "write_intent ex_platform ?off (s\<lparr>host := ()\<rparr>) = (Inr (), s2)"
    using ex_config_ok(3) by (simp add: write_intent_def render_dnsmasq_def Let_def)
  obtain s1 where "disable ex_platform ?off s2 = (Inr (True, ''gateway disabled''), s1)"
    using disable_done [OF ex_host(1)] by blast
  with w f have off: "post_apply ex_platform ex_env ?off s = (Http_ok (True, ''gateway disabled''), s1)"
    by (simp add: post_apply_def ex_env_allows validate_config_def apply_locked_def andthen_def)
  have "\<not> lkg_dir (fs (new_gateway () no_files))" by (simp add: new_gateway_def no_files_def)
  from restart_enables_again [OF ex_codec r this _ ex_env_allows(2) off] r off show ?thesis by auto
qed

text \<open>
  A request to disable the gateway skips validation, but its subnet is still parsed to render the DHCP
  file. With a subnet that does not parse, the request fails with an internal error after the new
  configuration is written, and the processes and the host are left as they were: the access point keeps
  running.
\<close>

theorem disable_needs_subnet:
  assumes "apply_allowed env" and "wifi_fields_ok cfg" and "\<not> enabled cfg" and "ip_network (subnet_cidr cfg) = Inl e"
  shows "vr_ok (fst (validate_config (tool pf) cfg (host s))) \<and>
    (case post_apply pf env cfg s of (r, s') \<Rightarrow> r = Http_internal_error \<and> f_config (fs s') = Some (dump pf cfg) \<and>
       hostapd s' = hostapd s \<and> dnsmasq s' = dnsmasq s \<and> host s' = host s \<and> f_last_apply (fs s') = f_last_apply (fs s))"
proof -
  have v: "validate_config (tool pf) cfg (host s) = (\<lparr>vr_ok = True, vr_issues = []\<rparr>, host s)"
    using assms(3) by (simp add: validate_config_def)
  then show ?thesis
    using assms
    by (simp add: post_apply_def apply_locked_def andthen_def write_intent_def render_dnsmasq_def Let_def)
qed

theorem disable_needs_subnet_witness:
  "\<exists>s s'. is_running (hostapd s) \<and>
     post_apply ex_platform ex_env (ex_config\<lparr>enabled := False, subnet_cidr := ''x''\<rparr>) s = (Http_internal_error, s') \<and>
     is_running (hostapd s')"
proof -
  let ?cfg = "ex_config\<lparr>enabled := False, subnet_cidr := ''x''\<rparr>"
  obtain s where "apply_locked ex_platform ex_config (new_gateway () no_files) = (Inr (True, ''ap applied''), s)"
    using apply_locked_up [OF ex_host ex_config_ok(2,3)] by blast
  from apply_locked_outcome [OF this] have up: "is_running (hostapd s)" using ex_config_ok(2) by (simp add: apply_outcome_def)
  have f: "wifi_fields_ok ?cfg" using ex_config_ok(1) by (simp add: wifi_fields_ok_def)
  have "ip_network ''x'' = Inl Invalid_address" by code_simp
  then have "ip_network (subnet_cidr ?cfg) = Inl Invalid_address" by simp
  from disable_needs_subnet [OF ex_env_allows(1) f _ this, of ex_platform s] up show ?thesis
    by (cases "post_apply ex_platform ex_env ?cfg s") fastforce
qed

text \<open>
  C14: the safety gate. Unless applying is enabled, apply and rollback answer 403 (or 422 for a malformed
  body) and change nothing at all, so nothing is stored; a configuration that validation rejects answers
  400 with its issues and changes neither the files nor the processes.
\<close>

theorem gate_changes_nothing:
  "(\<not> apply_allowed env \<longrightarrow>
      post_apply pf env cfg s = (if wifi_fields_ok cfg then Http_forbidden else Http_unprocessable, s) \<and>
      post_rollback pf env s = (Http_forbidden, s)) \<and>
   (apply_allowed env \<and> wifi_fields_ok cfg \<and> \<not> vr_ok (fst (validate_config (tool pf) cfg (host s))) \<longrightarrow>
      (\<exists>issues k. issues \<noteq> [] \<and> post_apply pf env cfg s = (Http_bad_request issues, s\<lparr>host := k\<rparr>)))"
proof -
  have "vr_issues (fst (validate_config exec cfg k)) \<noteq> []" if "\<not> vr_ok (fst (validate_config exec cfg k))" for exec :: "'a tool" and k
    using that by (auto simp: validate_config_def Let_def split: if_splits sum.splits prod.splits)
  then show ?thesis
    by (cases "validate_config (tool pf) cfg (host s)") (fastforce simp: post_apply_def post_rollback_def)
qed

theorem gate_changes_nothing_witness:
  "\<exists>env. \<not> apply_allowed env \<and> post_apply ex_platform env ex_config (new_gateway () no_files) = (Http_forbidden, new_gateway () no_files)"
proof -
  let ?env = "\<lparr>enable_apply_var = None, auto_restore_var = None\<rparr>"
  have "\<not> apply_allowed ?env" by (simp add: apply_allowed_iff bool_env_def)
  then show ?thesis using gate_changes_nothing [of ?env ex_platform ex_config "new_gateway () no_files"] ex_config_ok(1) by auto
qed

text \<open>
  The status never shows the passphrase: replacing it in the saved configuration, by any other of
  admissible length, changes nothing in the answer.
\<close>

lemma status_hides_psk:
  assumes "json_codec pf" and "wifi_fields_ok cfg" and "8 \<le> length p" and "length p \<le> 63"
  shows "fst (status pf env ap upstream (s\<lparr>fs := (fs s)\<lparr>f_config := Some (dump pf (cfg\<lparr>psk := p\<rparr>))\<rparr>\<rparr>)) =
    fst (status pf env ap upstream (s\<lparr>fs := (fs s)\<lparr>f_config := Some (dump pf cfg)\<rparr>\<rparr>))"
proof -
  let ?a = "s\<lparr>fs := (fs s)\<lparr>f_config := Some (dump pf (cfg\<lparr>psk := p\<rparr>))\<rparr>\<rparr>" and ?b = "s\<lparr>fs := (fs s)\<lparr>f_config := Some (dump pf cfg)\<rparr>\<rparr>"
  have "wifi_fields_ok (cfg\<lparr>psk := p\<rparr>)" using assms(2-4) by (simp add: wifi_fields_ok_def)
  then have "load pf (dump pf (cfg\<lparr>psk := p\<rparr>)) = Some (cfg\<lparr>psk := p\<rparr>)" "load pf (dump pf cfg) = Some cfg"
    using assms(1,2) by (simp_all add: json_codec_def)
  then have "active_config pf ?a = active_config pf ?b"
    by (simp add: active_config_def read_config_def without_psk_def)
  moreover have "read_leases ?a = read_leases ?b" "read_last_apply ?a = read_last_apply ?b"
    "process_status q ?a = process_status q ?b" for q
    by (simp_all add: read_leases_def read_last_apply_def process_status_def split: option.splits)
  ultimately show ?thesis by (simp add: status_def Let_def split: prod.split)
qed

text \<open>One line of the lease file as dnsmasq writes it.\<close>

definition or_star :: "string option \<Rightarrow> string" where
  "or_star w = (case w of None \<Rightarrow> ''*'' | Some t \<Rightarrow> t)"

definition lease_words :: "lease \<Rightarrow> string list" where
  "lease_words l = [lease_expires_at l, or_star (mac_address l), ip_address_text l, or_star (hostname l), or_star (client_id l)]"

definition lease_line :: "lease \<Rightarrow> string" where
  "lease_line l = join '' '' (lease_words l)"

definition lease_ok :: "lease \<Rightarrow> bool" where
  "lease_ok l \<longleftrightarrow> list_all (\<lambda>w. w \<noteq> [] \<and> list_all (\<lambda>c. \<not> is_space c) w) (lease_words l) \<and>
     Some ''*'' \<notin> {mac_address l, hostname l, client_id l}"

lemma unless_or_star: "w \<noteq> Some ''*'' \<Longrightarrow> unless_star (or_star w) = w"
  by (auto simp: unless_star_def or_star_def split: option.splits)

lemma strip_id:
  assumes "s \<noteq> []" "\<not> is_space (hd s)" "\<not> is_space (last s)"
  shows "strip s = s"
proof -
  have "dropWhile is_space t = t" if "t \<noteq> []" "\<not> is_space (hd t)" for t
    using that by (cases t) auto
  then show ?thesis using assms by (simp add: strip_def hd_rev)
qed

lemma join_ends:
  assumes "ws \<noteq> []" "\<forall>w \<in> set ws. w \<noteq> []"
  shows "join sep ws \<noteq> [] \<and> hd (join sep ws) = hd (hd ws) \<and> last (join sep ws) = last (last ws)"
  using assms by (induction sep ws rule: join.induct) auto

lemma lease_of_line:
  assumes "lease_ok l"
  shows "strip (lease_line l) \<noteq> []" "lease_of (split_ws (strip (lease_line l))) = Some l"
    "\<forall>c \<in> set (lease_line l). \<not> is_linebreak c"
proof -
  have w: "\<forall>w \<in> set (lease_words l). w \<noteq> [] \<and> (\<forall>c \<in> set w. \<not> is_space c)"
    using assms by (simp add: lease_ok_def list_all_iff)
  have n: "lease_words l \<noteq> []" by (simp add: lease_words_def)
  then have "hd (lease_words l) \<in> set (lease_words l)" "last (lease_words l) \<in> set (lease_words l)" by simp_all
  with w have "\<not> is_space (hd (hd (lease_words l)))" "\<not> is_space (last (last (lease_words l)))" by simp_all
  then have s: "strip (lease_line l) = lease_line l" "lease_line l \<noteq> []"
    using join_ends [OF n, of "'' ''"] w by (auto intro: strip_id simp: lease_line_def)
  then show "strip (lease_line l) \<noteq> []" by simp
  have "split_ws (lease_line l) = lease_words l" using split_ws_join [OF w] by (simp add: lease_line_def)
  then show "lease_of (split_ws (strip (lease_line l))) = Some l"
    using assms s by (cases l) (auto simp: lease_words_def lease_ok_def unless_or_star)
  have "\<not> is_linebreak CHR '' ''" by (simp add: is_linebreak_def)
  with w show "\<forall>c \<in> set (lease_line l). \<not> is_linebreak c"
    using linebreak_space by (fastforce simp: lease_line_def dest!: set_join)
qed

fun file_line :: "lease + string \<Rightarrow> string" where
  "file_line (Inl l) = lease_line l"
| "file_line (Inr junk) = junk"

fun file_line_ok :: "lease + string \<Rightarrow> bool" where
  "file_line_ok (Inl l) = lease_ok l"
| "file_line_ok (Inr junk) = (length (split_ws (strip junk)) < 5 \<and> list_all (\<lambda>c. \<not> is_linebreak c) junk)"

lemma lease_of_short: "length ws < 5 \<Longrightarrow> lease_of ws = None"
  by (cases ws rule: lease_of.cases) auto

lemma file_line_read:
  assumes "file_line_ok x"
  shows "(if strip (file_line x) = [] then None else lease_of (split_ws (strip (file_line x)))) =
      (case x of Inl l \<Rightarrow> Some l | Inr _ \<Rightarrow> None)"
    and "\<forall>c \<in> set (file_line x). \<not> is_linebreak c"
  using assms by (cases x; simp add: lease_of_line lease_of_short list_all_iff)+

text \<open>
  The connected clients are read back from the lease file exactly: the lines dnsmasq writes for a list of
  leases (words without blanks, an unknown field as a star) give those leases, in order, whatever blank lines
  and lines of fewer than five words stand between them.
\<close>

theorem leases_read_back:
  assumes "list_all file_line_ok ls" and "f_leases (fs s) = Some (concat (map (\<lambda>l. file_line l @ newline) ls))"
  shows "read_leases s = List.map_filter (\<lambda>x. case x of Inl l \<Rightarrow> Some l | Inr _ \<Rightarrow> None) ls"
proof -
  have "\<forall>l \<in> set (map file_line ls). \<forall>c \<in> set l. \<not> is_linebreak c"
    using assms(1) file_line_read(2) by (auto simp: list_all_iff)
  from splitlines_lines [OF this] have "splitlines (concat (map (\<lambda>l. file_line l @ newline) ls)) = map file_line ls"
    by (simp add: comp_def)
  moreover have "List.map_filter (\<lambda>line. if strip line = [] then None else lease_of (split_ws (strip line))) (map file_line ls) =
      List.map_filter (\<lambda>x. case x of Inl l \<Rightarrow> Some l | Inr _ \<Rightarrow> None) ls"
    using assms(1) by (induction ls) (auto simp: map_filter_simps file_line_read(1) split: sum.splits)
  ultimately show ?thesis using assms(2) by (simp add: read_leases_def)
qed

definition ex_lease :: lease where
  "ex_lease = \<lparr>lease_expires_at = ''1700000000'', mac_address = Some ''aa:bb:cc:dd:ee:ff'', ip_address_text = ''192.168.50.101'',
     hostname = None, client_id = None\<rparr>"

theorem leases_read_back_witness:
  "\<exists>s. f_leases (fs s) = Some (lease_line ex_lease @ newline @ ''duid 00'' @ newline) \<and> read_leases (s :: unit gateway) = [ex_lease]"
proof -
  let ?s = "new_gateway () (no_files\<lparr>f_leases := Some (concat (map (\<lambda>l. file_line l @ newline) [Inl ex_lease, Inr ''duid 00'']))\<rparr>)"
  have "list_all file_line_ok [Inl ex_lease, Inr ''duid 00'']" by code_simp
  from leases_read_back [OF this, of ?s] show ?thesis
    by (intro exI [of _ ?s]) (simp add: new_gateway_def map_filter_simps)
qed

end
