(* ===== verification/Gateway_Firewall.thy ===== *)
theory Gateway_Firewall
  imports Gateway_Properties
begin

text \<open>
  The agent's runtime on a host whose \<open>iptables\<close> keeps its contract: the locale \<open>gateway_host\<close> extends
  \<open>iptables_tool\<close> by what else the agent runs, and follows the rules of the block chain through apply,
  disable and validation. The kernel model is such a host.
\<close>

section \<open>The host under the agent\<close>

text \<open>\<open>iptables\<close> keeps its contract, and nothing else the agent runs touches the tables.\<close>

locale gateway_host = iptables_tool "tool pf" view accepts shown
  for pf :: "'k platform" and view :: "'k \<Rightarrow> tables" and accepts :: "'k \<Rightarrow> string \<Rightarrow> rule \<Rightarrow> bool" and shown :: "rule \<Rightarrow> rule" +
  assumes others: "cmd \<noteq> [] \<Longrightarrow> hd cmd \<noteq> ''iptables'' \<Longrightarrow> view (snd (tool pf cmd k)) = view k"
    and spawns: "view (snd (spawn pf cmd k)) = view k"
    and stops: "view (ends pf p k) = view k"
    and waits: "view (snd (settle pf k)) = view k"
begin

text \<open>An action that keeps a predicate of the tables, whether it raises or not.\<close>

definition keeps :: "(tables \<Rightarrow> bool) \<Rightarrow> ('k, 'a) action \<Rightarrow> bool" where
  "keeps P m \<longleftrightarrow> (\<forall>k. P (view k) \<longrightarrow> P (view (snd (m k))))"

lemma keepsD: "keeps P m \<Longrightarrow> P (view k) \<Longrightarrow> m k = (r, k') \<Longrightarrow> P (view k')"
  unfolding keeps_def by (metis snd_conv)

lemma keeps_andthen: "keeps P m \<Longrightarrow> (\<And>x. keeps P (f x)) \<Longrightarrow> keeps P (andthen m f)"
  by (fastforce simp: keeps_def andthen_def split: prod.splits sum.splits)

lemma keeps_run_all: "list_all (keeps P) ms \<Longrightarrow> keeps P (run_all ms)"
  by (induction ms) (simp_all add: keeps_andthen keeps_def [of P "returns ()"] returns_def)

lemma keeps_command: "cmd \<noteq> [] \<Longrightarrow> hd cmd \<noteq> ''iptables'' \<Longrightarrow> keeps P (run_command pf cmd)"
  using others [of cmd] by (auto simp: keeps_def run_command_def split: prod.splits option.splits) (metis snd_conv)+

lemma keeps_terminate: "keeps P (terminate pf p)"
  by (auto simp: keeps_def terminate_def stops split: option.splits)

text \<open>The rules of the block chain.\<close>

abbreviation block_rules :: "rule list option \<Rightarrow> tables \<Rightarrow> bool" where
  "block_rules rs V \<equiv> V (FILTER_TABLE, BLOCK_CHAIN) = rs"

lemma keeps_unless:
  assumes "(t, c) \<noteq> (FILTER_TABLE, BLOCK_CHAIN)"
  shows "keeps (block_rules rs) (unless_exists (tool pf) (ipt t (''-C'' # c # r)) (do_run (tool pf) (ipt t (''-A'' # c # r))))"
    and "keeps (block_rules rs) (unless_exists (tool pf) (ipt t (''-C'' # c # r)) (do_run (tool pf) (ipt t (''-I'' # c # ''1'' # r))))"
proof -
  have add: "block_rules rs (view k')" if "block_rules rs (view k)" and e: "do_run (tool pf) (ipt t (opt # c # args)) k = (x, k')"
    and o: "opt = ''-A'' \<and> args = r \<or> opt = ''-I'' \<and> args = ''1'' # r" for k k' x opt args
  proof -
    obtain q k2 where n: "tool pf (ipt t (opt # c # args)) k = (Some q, k2)" by (rule spawned)
    from n e have "k2 = k'" by (auto simp: do_run_def run_checked_def andthen_def returns_def split: if_splits)
    with n that assms append [of t c r k q k2] insert_first [of t c r k q k2] show ?thesis
      by (auto split: option.splits if_splits)
  qed
  have "keeps (block_rules rs) (unless_exists (tool pf) (ipt t (''-C'' # c # r)) (do_run (tool pf) (ipt t (opt # c # args))))"
    if o: "opt = ''-A'' \<and> args = r \<or> opt = ''-I'' \<and> args = ''1'' # r" for opt args
    unfolding keeps_def
  proof (intro allI impI)
    fix k
    assume k: "block_rules rs (view k)"
    obtain found k1 where p: "probe (tool pf) (ipt t (''-C'' # c # r)) k = (found, k1)" by fastforce
    obtain x k2 where d: "do_run (tool pf) (ipt t (opt # c # args)) k1 = (x, k2)" by fastforce
    have "block_rules rs (view k1)" using probe_rule [OF p] k by simp
    with add [OF this d o] p d
    show "block_rules rs (view (snd (unless_exists (tool pf) (ipt t (''-C'' # c # r)) (do_run (tool pf) (ipt t (opt # c # args))) k)))"
      by (simp add: unless_exists_def)
  qed
  then show "keeps (block_rules rs) (unless_exists (tool pf) (ipt t (''-C'' # c # r)) (do_run (tool pf) (ipt t (''-A'' # c # r))))"
    "keeps (block_rules rs) (unless_exists (tool pf) (ipt t (''-C'' # c # r)) (do_run (tool pf) (ipt t (''-I'' # c # ''1'' # r))))"
    by simp_all
qed

lemma keeps_chains: "keeps (block_rules (Some rs)) (ensure_chains (tool pf))"
  unfolding keeps_def
proof (intro allI impI)
  fix k
  assume "block_rules (Some rs) (view k)"
  moreover obtain k' where "ensure_chains (tool pf) k = (Inr (), k')" "view k' = fw_chains (view k)"
    using ensure_chains_refines by blast
  ultimately show "block_rules (Some rs) (view (snd (ensure_chains (tool pf) k)))"
    by (simp add: fw_chains_def with_chain_def chain_names)
qed

lemma new_block_chain:
  assumes "ensure_chains (tool pf) k = (r, k')" and "block_rules None (view k)"
  shows "block_rules (Some []) (view k')"
proof -
  obtain k1 where "ensure_chains (tool pf) k = (Inr (), k1)" "view k1 = fw_chains (view k)"
    using ensure_chains_refines by blast
  with assms show ?thesis by (simp add: fw_chains_def with_chain_def chain_names)
qed

lemma other_chain:
  "(NAT_TABLE, c) \<noteq> (FILTER_TABLE, BLOCK_CHAIN)" "(t, FWD_CHAIN) \<noteq> (FILTER_TABLE, BLOCK_CHAIN)"
  "(t, ''FORWARD'') \<noteq> (FILTER_TABLE, BLOCK_CHAIN)"
  by (simp_all add: chain_names)

lemma keeps_jump_rules: "keeps (block_rules rs) (ensure_jump_rules (tool pf))"
  unfolding ensure_jump_rules_def
  by (intro keeps_run_all) (simp add: other_chain [THEN keeps_unless(1)] other_chain [THEN keeps_unless(2)])

lemma keeps_nat_rules: "keeps (block_rules rs) (ensure_nat_rules (tool pf) subnet ap up)"
  unfolding ensure_nat_rules_def
  by (intro keeps_run_all) (simp add: other_chain [THEN keeps_unless(1)] other_chain [THEN keeps_unless(2)])

lemma keeps_configure: "keeps (block_rules (Some rs)) (configure_network pf cfg net)"
  unfolding configure_network_def
  by (intro keeps_run_all) (simp add: keeps_command keeps_chains keeps_jump_rules keeps_nat_rules)

text \<open>The same for the actions on the agent.\<close>

lemma keeps_on_host: "keeps P m \<Longrightarrow> P (view (host s)) \<Longrightarrow> on_host m s = (r, s') \<Longrightarrow> P (view (host s'))"
  by (auto simp: on_host_def keeps_def split: prod.splits)

lemma stop_processes_view:
  assumes "stop_processes pf s = (r, s')"
  shows "view (host s') = view (host s)"
proof -
  have t: "view k' = view k" if "terminate pf p k = (r, k')" for p r k k'
    using that by (auto simp: terminate_def stops split: option.splits if_splits)
  from assms show ?thesis
    by (auto simp: stop_processes_def on_host_def modify_def andthen_def split: prod.splits sum.splits dest!: t)
qed

lemma start_view:
  "start_dnsmasq pf s = (r, s') \<Longrightarrow> view (host s') = view (host s)"
  "start_hostapd pf s = (r, s') \<Longrightarrow> view (host s') = view (host s)"
  using spawns by (auto simp: start_dnsmasq_def start_hostapd_def split: prod.splits option.splits) (metis snd_conv)+

lemma wait_view: "wait_second pf s = (r, s') \<Longrightarrow> view (host s') = view (host s)"
proof -
  have "host (fold (\<lambda>(name, data). capture_process_error name data) cs s) = host s" for cs and s :: "'k gateway"
    by (induction cs arbitrary: s) (auto simp: capture_process_error_def Let_def)
  then show "wait_second pf s = (r, s') \<Longrightarrow> view (host s') = view (host s)"
    using waits [of "host s"] by (auto simp: wait_second_def split: prod.splits)
qed

lemma write_intent_host: "write_intent pf cfg s = (r, s') \<Longrightarrow> host s' = host s"
  by (auto simp: write_intent_def Let_def split: sum.splits)

lemma check_health_host: "check_health s = (r, s') \<Longrightarrow> host s' = host s"
  by (auto simp: check_health_def finish_spec save_last_known_good_def modify_def andthen_def split: if_splits)

lemma apply_keeps_blocks:
  assumes "apply_locked pf cfg s = (r, s')" and "enabled cfg" and "block_rules (Some rs) (view (host s))"
  shows "block_rules (Some rs) (view (host s'))"
proof -
  have conf: "block_rules (Some rs) (view (host s2))"
    if "on_host (configure_network pf cfg net) s1 = (x, s2)" "host s1 = host s" for net s1 s2 x
    using keeps_on_host [OF keeps_configure _ that(1)] that(2) assms(3) by simp
  from assms show ?thesis
    unfolding apply_locked_def
    by (auto simp: raises_def elim!: andthen_result split: sum.splits
        dest!: write_intent_host stop_processes_view start_view wait_view check_health_host conf)
qed

text \<open>The probes of validation leave the tables alone.\<close>

lemma probe_view: "cmd \<noteq> [] \<Longrightarrow> hd cmd \<noteq> ''iptables'' \<Longrightarrow> view (snd (probe (tool pf) cmd k)) = view k"
  using others [of cmd k] by (auto simp: probe_def run_checked_def split: prod.splits option.splits if_splits)

lemma validate_view: "view (snd (validate_config (tool pf) cfg k)) = view k"
  by (simp add: validate_config_def iface_exists_def bin_exists_def Let_def case_prod_beta probe_view split: sum.split)

lemma disable_view:
  assumes "disable pf cfg s = (Inr x, s')"
  shows "view (host s') = fw_teardown (view (host s))"
proof -
  have td: "view (host s2) = fw_teardown (view (host s1))" if "on_host (teardown (tool pf)) s1 = (r, s2)" for s1 s2 r
    using teardown_refines [of "host s1"] that by (auto simp: on_host_def)
  have fl: "view (host s2) = view (host s1)" if "on_host (run_command pf (''ip'' # args)) s1 = (r, s2)" for s1 s2 r args
    using keeps_on_host [OF keeps_command [of "''ip'' # args" "\<lambda>V. V = view (host s1)"] _ that] by simp
  from assms show ?thesis
    unfolding disable_def by (auto simp: finish_spec elim!: andthen_result dest!: stop_processes_view td fl)
qed

lemma configure_new_chain:
  assumes "configure_network pf cfg net k = (Inr x, k')" and "block_rules None (view k)"
  shows "block_rules (Some []) (view k')"
proof -
  have cmd: "block_rules None (view k2)" if "block_rules None (view k1)" "run_command pf (p # args) k1 = (r, k2)" "p \<noteq> ''iptables''" for p args k1 k2 r
    using keepsD [where P = "block_rules None", OF keeps_command that(1,2)] that(3) by simp
  from assms(1) obtain k1 k2 k3 k4 k5 where
    1: "run_command pf [''ip'', ''link'', ''set'', ap_interface cfg, ''up''] k = (Inr (), k1)" and
    2: "run_command pf [''ip'', ''addr'', ''replace'', gateway_ip cfg @ ''/'' @ nat_str (prefixlen net), ''dev'', ap_interface cfg] k1 = (Inr (), k2)" and
    3: "run_command pf [''sysctl'', ''-w'', ''net.ipv4.ip_forward=1''] k2 = (Inr (), k3)" and
    4: "ensure_chains (tool pf) k3 = (Inr (), k4)" and 5: "ensure_jump_rules (tool pf) k4 = (Inr (), k5)" and
    6: "ensure_nat_rules (tool pf) (subnet_cidr cfg) (ap_interface cfg) (upstream_interface cfg) k5 = (Inr (), k')"
    unfolding configure_network_def run_all.simps by (auto simp: returns_def elim!: andthen_result)
  have "block_rules (Some []) (view k4)"
    using new_block_chain [OF 4] cmd [OF cmd [OF cmd [OF assms(2) 1] 2] 3] by simp
  then show ?thesis
    using keepsD [where P = "block_rules (Some [])", OF keeps_nat_rules _ 6]
      keepsD [where P = "block_rules (Some [])", OF keeps_jump_rules _ 5] by simp
qed

lemma apply_new_chain:
  assumes "apply_locked pf cfg s = (Inr (True, ''ap applied''), s')" and "block_rules None (view (host s))"
  shows "block_rules (Some []) (view (host s'))"
proof -
  have conf: "block_rules (Some []) (view (host s2))"
    if "on_host (configure_network pf cfg net) s1 = (Inr x, s2)" "host s1 = host s" for net s1 s2 x
    using that assms(2) configure_new_chain [of cfg net "host s1" x] by (auto simp: on_host_def split: prod.splits)
  from assms(1) apply_locked_enabled [OF assms(1)] show ?thesis
    unfolding apply_locked_def
    by (auto simp: raises_def elim!: andthen_result split: sum.splits
        dest!: write_intent_host stop_processes_view start_view wait_view check_health_host conf)
qed

end

section \<open>The kernel model as the agent's host\<close>

definition kernel_platform :: "kernel platform" where
  "kernel_platform = \<lparr>tool = kernel_exec, spawn = (\<lambda>cmd k. (Some 7, k)), ends = (\<lambda>p k. k),
     settle = (\<lambda>k. (\<lparr>se_dnsmasq = None, se_hostapd = None, se_captured = []\<rparr>, k)),
     dump = dump ex_platform, load = load ex_platform, exn_text = (\<lambda>e. []), state_dir = ''/data''\<rparr>"

interpretation kernel_host: gateway_host kernel_platform map_of kernel_accepts "\<lambda>r. r"
proof -
  have "gateway_host_axioms kernel_platform (map_of :: kernel \<Rightarrow> tables)"
  proof
    show "cmd \<noteq> [] \<Longrightarrow> hd cmd \<noteq> ''iptables'' \<Longrightarrow> map_of (snd (tool kernel_platform cmd k)) = map_of k" for cmd k
      by (cases "(cmd, k)" rule: kernel_exec.cases) (auto simp: kernel_platform_def)
  qed (simp_all add: kernel_platform_def)
  then show "gateway_host kernel_platform map_of kernel_accepts (\<lambda>r. r)"
    using kernel.iptables_tool_axioms by (simp add: gateway_host_def kernel_platform_def)
qed

end
