(* ===== verification/Gateway_Blocks.thy ===== *)
theory Gateway_Blocks
  imports Gateway_Firewall
begin

text \<open>
  The block endpoints of the gateway agent (\<open>src/images/gateway-agent/app/main.py\<close>) as a server that answers one request after
  the other, and what it promises: it keeps an ordered set of device addresses. The locale \<open>simulation\<close> lifts the
  refinement of one request to runs of requests.
\<close>

section \<open>Servers and simulation\<close>

text \<open>The answers to a list of requests, and the state after them.\<close>

fun serve_all :: "('r \<Rightarrow> 's \<Rightarrow> 'a \<times> 's) \<Rightarrow> 'r list \<Rightarrow> 's \<Rightarrow> 'a list \<times> 's" where
  "serve_all step [] s = ([], s)"
| "serve_all step (r # rs) s =
     (let (a, s1) = step r s; (as, s2) = serve_all step rs s1 in (a # as, s2))"

locale simulation =
  fixes concrete :: "'r \<Rightarrow> 'k \<Rightarrow> 'a \<times> 'k" and abstract :: "'r \<Rightarrow> 's \<Rightarrow> 'a \<times> 's" and rel :: "'k \<Rightarrow> 's \<Rightarrow> bool"
  assumes answers: "rel k s \<Longrightarrow> fst (concrete r k) = fst (abstract r s)"
    and related: "rel k s \<Longrightarrow> rel (snd (concrete r k)) (snd (abstract r s))"
begin

lemma runs_refine:
  "rel k s \<Longrightarrow> fst (serve_all concrete rs k) = fst (serve_all abstract rs s) \<and>
     rel (snd (serve_all concrete rs k)) (snd (serve_all abstract rs s))"
proof (induction rs arbitrary: k s)
  case (Cons r rs)
  from Cons.IH [OF related [OF Cons.prems, of r]] answers [OF Cons.prems, of r] show ?case by (simp add: case_prod_beta)
qed simp

end

section \<open>The endpoints\<close>

datatype block_request = Block string | Unblock string | List_blocked

datatype block_answer = Device "block_result http" | Listing "string list http"

definition serve_block :: "'k platform \<Rightarrow> block_request \<Rightarrow> 'k \<Rightarrow> block_answer \<times> 'k" where
  "serve_block pf req k = (case req of
      Block mac \<Rightarrow> map_prod Device id (post_block pf mac k)
    | Unblock mac \<Rightarrow> map_prod Device id (delete_block pf mac k)
    | List_blocked \<Rightarrow> map_prod Listing id (get_blocked pf k))"

text \<open>What a request is about: the address and whether it is to be blocked; \<^term>\<open>None\<close> when it is refused or only a question.\<close>

fun about :: "block_request \<Rightarrow> (string \<times> bool) option" where
  "about (Block mac) = (if length mac \<noteq> 17 then None else case validate_mac mac of Inl _ \<Rightarrow> None | Inr m \<Rightarrow> Some (m, True))"
| "about (Unblock mac) = (case validate_mac mac of Inl _ \<Rightarrow> None | Inr m \<Rightarrow> Some (m, False))"
| "about List_blocked = None"

text \<open>The specification: a list of addresses without repetition.\<close>

definition after_request :: "block_request \<Rightarrow> string list \<Rightarrow> string list" where
  "after_request req ms = (case about req of None \<Rightarrow> ms
     | Some (m, True) \<Rightarrow> if m \<in> set ms then ms else ms @ [m] | Some (m, False) \<Rightarrow> remove1 m ms)"

fun answer_to :: "block_request \<Rightarrow> string list \<Rightarrow> block_answer" where
  "answer_to (Block mac) ms = Device (if length mac \<noteq> 17 then Http_unprocessable else case validate_mac mac of
       Inl _ \<Rightarrow> Http_invalid (''Invalid MAC address: '' @ lower (strip mac))
     | Inr m \<Rightarrow> Http_ok \<lparr>br_mac = lower mac, br_blocked = True, br_message = (if m \<in> set ms then ''already blocked'' else ''blocked'')\<rparr>)"
| "answer_to (Unblock mac) ms = Device (case validate_mac mac of
       Inl _ \<Rightarrow> Http_invalid (''Invalid MAC address: '' @ lower (strip mac))
     | Inr m \<Rightarrow> Http_ok \<lparr>br_mac = lower mac, br_blocked = False, br_message = (if m \<in> set ms then ''unblocked'' else ''was not blocked'')\<rparr>)"
| "answer_to List_blocked ms = Listing (Http_ok ms)"

definition spec_block :: "block_request \<Rightarrow> string list \<Rightarrow> block_answer \<times> string list" where
  "spec_block req ms = (answer_to req ms, after_request req ms)"

text \<open>The last accepted request about an address.\<close>

fun last_word :: "block_request list \<Rightarrow> string \<Rightarrow> bool option" where
  "last_word [] m = None"
| "last_word (r # rs) m = (case last_word rs m of Some b \<Rightarrow> Some b
     | None \<Rightarrow> (case about r of None \<Rightarrow> None | Some (m', b) \<Rightarrow> if m' = m then Some b else None))"

lemma after_request_member: "distinct ms \<Longrightarrow> m \<in> set (after_request r ms) \<longleftrightarrow>
    (case about r of None \<Rightarrow> m \<in> set ms | Some (m', b) \<Rightarrow> if m' = m then b else m \<in> set ms)"
  by (auto simp: after_request_def split: option.splits bool.splits)

lemma after_request_distinct: "distinct ms \<Longrightarrow> distinct (after_request r ms)"
  by (auto simp: after_request_def distinct_remove1 split: option.splits bool.splits)

lemma spec_members: "distinct ms \<Longrightarrow>
    m \<in> set (snd (serve_all spec_block rs ms)) \<longleftrightarrow> (case last_word rs m of None \<Rightarrow> m \<in> set ms | Some b \<Rightarrow> b)"
proof (induction rs arbitrary: ms)
  case (Cons r rs)
  from Cons.IH [OF after_request_distinct [OF Cons.prems, of r]] after_request_member [OF Cons.prems, of m r] show ?case
    by (auto simp: spec_block_def case_prod_beta split: option.split)
qed simp

text \<open>The block chain drops exactly the addresses of the list; all other chains are those of \<open>V\<close>.\<close>

definition drops :: "('k \<Rightarrow> tables) \<Rightarrow> tables \<Rightarrow> 'k \<Rightarrow> string list \<Rightarrow> bool" where
  "drops view V k ms \<longleftrightarrow> view k = V((FILTER_TABLE, BLOCK_CHAIN) \<mapsto> map drop_rule ms) \<and> distinct ms \<and> (\<forall>m \<in> set ms. mac_re m \<and> lower m = m)"

lemma dropsD:
  "drops view V k ms \<Longrightarrow> view k (FILTER_TABLE, BLOCK_CHAIN) = Some (map drop_rule ms)"
  "drops view V k ms \<Longrightarrow> \<forall>m \<in> set ms. mac_re m \<and> lower m = m"
  by (simp_all add: drops_def)

lemma validate_mac_error: "validate_mac mac = Inl e \<Longrightarrow> e = Value_error (''Invalid MAC address: '' @ lower (strip mac))"
  by (auto simp: validate_mac_def Let_def split: if_splits)

lemma remove1_rules: "remove1 (drop_rule m) (map drop_rule ms) = map drop_rule (remove1 m ms)"
  by (induction ms) auto

context gateway_host
begin

lemma post_block_refines:
  assumes d: "drops view V k ms"
  shows "\<exists>k'. serve_block pf (Block mac) k = (answer_to (Block mac) ms, k') \<and> drops view V k' (after_request (Block mac) ms)"
proof (cases "validate_mac mac")
  case (Inl e)
  with validate_mac_error [OF Inl] d show ?thesis
    by (auto simp: serve_block_def post_block_def block_request_ok_def device_reply_def block_device_def after_request_def)
next
  case (Inr m)
  obtain k' where k': "block_device (tool pf) mac k = (Inr (m \<notin> set ms), k')"
    "view k' = with_last FILTER_TABLE BLOCK_CHAIN (drop_rule m) (view k)"
    using block_refines [OF Inr dropsD(1) [OF d]] by (auto simp: image_iff)
  have "drops view V k' (if m \<in> set ms then ms else ms @ [m])"
    using d k'(2) validate_mac_ok [OF Inr] by (auto simp: drops_def with_last_def)
  with k'(1) Inr d show ?thesis
    by (auto simp: serve_block_def post_block_def block_request_ok_def device_reply_def after_request_def)
qed

lemma delete_block_refines:
  assumes d: "drops view V k ms"
  shows "\<exists>k'. serve_block pf (Unblock mac) k = (answer_to (Unblock mac) ms, k') \<and> drops view V k' (after_request (Unblock mac) ms)"
proof (cases "validate_mac mac")
  case (Inl e)
  with validate_mac_error [OF Inl] d show ?thesis
    by (auto simp: serve_block_def delete_block_def device_reply_def unblock_device_def after_request_def)
next
  case (Inr m)
  obtain k' where k': "unblock_device (tool pf) mac k = (Inr (m \<in> set ms), k')"
    "view k' = without FILTER_TABLE BLOCK_CHAIN (drop_rule m) (view k)"
    using unblock_refines [OF Inr dropsD(1) [OF d]] by (auto simp: image_iff)
  have "drops view V k' (remove1 m ms)"
    using d k'(2) set_remove1_subset [of m ms] by (auto simp: drops_def without_def remove1_rules)
  with k'(1) Inr show ?thesis by (auto simp: serve_block_def delete_block_def device_reply_def after_request_def)
qed

lemma get_blocked_refines:
  assumes d: "drops view V k ms"
  shows "\<exists>k'. serve_block pf List_blocked k = (answer_to List_blocked ms, k') \<and> drops view V k' (after_request List_blocked ms)"
  using list_refines [OF dropsD [OF d]] d by (auto simp: serve_block_def get_blocked_def after_request_def drops_def)

lemma serve_block_refines:
  "drops view V k ms \<Longrightarrow> \<exists>k'. serve_block pf r k = (answer_to r ms, k') \<and> drops view V k' (after_request r ms)"
  by (cases r) (blast dest: post_block_refines delete_block_refines get_blocked_refines)+

end

sublocale gateway_host \<subseteq> blocks: simulation "serve_block pf" spec_block "drops view V" for V
proof
  show "fst (serve_block pf r k) = fst (spec_block r s)" if "drops view V k s" for k s r
    using serve_block_refines [OF that, of r] by (auto simp: spec_block_def)
  show "drops view V (snd (serve_block pf r k)) (snd (spec_block r s))" if "drops view V k s" for k s r
    using serve_block_refines [OF that, of r] by (auto simp: spec_block_def)
qed

context gateway_host
begin

lemmas requests_refine = blocks.runs_refine

end

section \<open>The refinement\<close>

text \<open>
  C16: the block endpoints keep an ordered set of device addresses. Whatever requests come, each is
  answered as the set says (refused, blocked, already blocked, unblocked, was not blocked, or the listing), the firewall's block
  chain drops exactly the devices of the set, once each, and no other chain changes. In the end a device is blocked exactly
  when the last accepted request about it was to block it, or there was none and it was blocked before.
\<close>

theorem block_requests_refine:
  assumes "gateway_host pf view accepts shown" and "drops view V k ms"
  shows "\<exists>ms'. fst (serve_all (serve_block pf) reqs k) = fst (serve_all spec_block reqs ms) \<and>
    snd (serve_all spec_block reqs ms) = ms' \<and> drops view V (snd (serve_all (serve_block pf) reqs k)) ms' \<and>
    (\<forall>m. m \<in> set ms' \<longleftrightarrow> (case last_word reqs m of None \<Rightarrow> m \<in> set ms | Some b \<Rightarrow> b))"
  using gateway_host.requests_refine [OF assms, of reqs] assms(2) spec_members [of ms]
  by (simp add: drops_def)

theorem block_requests_refine_witness:
  "let reqs = [Block ''AA:BB:CC:00:11:22'', Block ''aa:bb:cc:00:11:33'', Unblock ''aa:bb:cc:00:11:22'', Block ''aa:bb'', List_blocked] in
     last (fst (serve_all (serve_block kernel_platform) reqs [((''filter'', ''IOT_DEVICE_BLOCK''), [])])) =
       Listing (Http_ok [''aa:bb:cc:00:11:33'']) \<and>
     last_word reqs ''aa:bb:cc:00:11:22'' = Some False"
proof -
  let ?reqs = "[Block ''AA:BB:CC:00:11:22'', Block ''aa:bb:cc:00:11:33'', Unblock ''aa:bb:cc:00:11:22'', Block ''aa:bb'', List_blocked]"
  let ?k = "[((''filter'', ''IOT_DEVICE_BLOCK''), [])] :: kernel"
  have "drops map_of (\<lambda>_. None) ?k []" by (auto simp: drops_def chain_names)
  note r = block_requests_refine [OF kernel_host.gateway_host_axioms this, of ?reqs]
  have "last (fst (serve_all spec_block ?reqs [])) = Listing (Http_ok [''aa:bb:cc:00:11:33''])" "last_word ?reqs ''aa:bb:cc:00:11:22'' = Some False"
    by code_simp+
  with r show ?thesis unfolding Let_def by metis
qed

end
