(* ===== verification/Py_Regex.thy ===== *)
theory Py_Regex
  imports Python_Text
begin

text \<open>
  The part of Python's \<open>re\<close> the event contract validator uses: patterns over classes of characters, matched by
  backtracking. The attempts of a pattern are listed in the order the matcher tries them, so that the first
  one is its match; \<open>search\<close> and \<open>findall\<close> scan from left to right. Code points are at most 255.
\<close>

section \<open>Regular expressions\<close>

text \<open>Classes of characters: \<open>\w\<close>, \<open>[a-zA-Z_]\<close>, \<open>[A-Z]\<close>, \<open>[A-Z0-9_]\<close>.\<close>

definition is_word :: "char \<Rightarrow> bool" where
  "is_word c = (let n = (of_char c :: int) in
     48 \<le> n \<and> n \<le> 57 \<or> 65 \<le> n \<and> n \<le> 90 \<or> n = 95 \<or> 97 \<le> n \<and> n \<le> 122 \<or> n = 170 \<or> n = 178 \<or> n = 179 \<or> n = 181 \<or>
     n = 185 \<or> n = 186 \<or> 188 \<le> n \<and> n \<le> 190 \<or> 192 \<le> n \<and> n \<noteq> 215 \<and> n \<noteq> 247)"

definition is_upper :: "char \<Rightarrow> bool" where
  "is_upper c = (let n = (of_char c :: int) in 65 \<le> n \<and> n \<le> 90)"

definition is_name_start :: "char \<Rightarrow> bool" where
  "is_name_start c = (let n = (of_char c :: int) in 65 \<le> n \<and> n \<le> 90 \<or> 97 \<le> n \<and> n \<le> 122 \<or> n = 95)"

text \<open>
  A literal, one character of a class, greedily many of a class, the start of a line (\<open>(?m)^\<close>), sequence,
  alternative, option and numbered group.
\<close>

datatype re =
    Lit string
  | One "char \<Rightarrow> bool"
  | Many "char \<Rightarrow> bool"
  | Bol
  | Seq re re
  | Alt re re
  | Opt re
  | Group nat re

text \<open>One way to match: the groups, the text matched and the text after it.\<close>

record attempt =
  groups :: "(nat \<times> string) list"
  matched :: string
  remaining :: string

definition last_char :: "char option \<Rightarrow> string \<Rightarrow> char option" where
  "last_char prev s = (if s = [] then prev else Some (last s))"

primrec attempts :: "re \<Rightarrow> char option \<Rightarrow> string \<Rightarrow> attempt list" where
  "attempts (Lit w) prev s = (if starts_with s w then [\<lparr>groups = [], matched = w, remaining = drop (length w) s\<rparr>] else [])"
| "attempts (One p) prev s = (case s of [] \<Rightarrow> []
     | c # cs \<Rightarrow> if p c then [\<lparr>groups = [], matched = [c], remaining = cs\<rparr>] else [])"
| "attempts (Many p) prev s = map (\<lambda>n. \<lparr>groups = [], matched = take n s, remaining = drop n s\<rparr>)
     (rev [0 ..< Suc (length (takeWhile p s))])"
| "attempts Bol prev s = (if prev = None \<or> prev = Some CHR 0x0A then [\<lparr>groups = [], matched = [], remaining = s\<rparr>] else [])"
| "attempts (Seq a b) prev s = concat (map (\<lambda>x.
     map (\<lambda>y. \<lparr>groups = groups x @ groups y, matched = matched x @ matched y, remaining = remaining y\<rparr>)
       (attempts b (last_char prev (matched x)) (remaining x))) (attempts a prev s))"
| "attempts (Alt a b) prev s = attempts a prev s @ attempts b prev s"
| "attempts (Opt a) prev s = attempts a prev s @ [\<lparr>groups = [], matched = [], remaining = s\<rparr>]"
| "attempts (Group n a) prev s = map (\<lambda>x. x\<lparr>groups := (n, matched x) # groups x\<rparr>) (attempts a prev s)"

lemma attempts_split: "x \<in> set (attempts r prev s) \<Longrightarrow> matched x @ remaining x = s"
proof (induction r arbitrary: prev s x)
  case (Lit w)
  then show ?case by (auto simp: starts_with_def split: if_splits) (metis append_take_drop_id)
next
  case (Seq a b)
  then show ?case by fastforce
next
  case (Group n a)
  then show ?case by fastforce
qed (auto split: list.splits if_splits)

lemma attempts_shorter: "attempts r prev s = x # xs \<Longrightarrow> matched x \<noteq> [] \<Longrightarrow> length (remaining x) < length s"
  using attempts_split [of x r prev s] by auto

text \<open>\<open>re.search\<close>: the text after the first match; and \<open>findall\<close>: the groups of all matches, from left to right.\<close>

fun search :: "re \<Rightarrow> char option \<Rightarrow> string \<Rightarrow> attempt option" where
  "search r prev s = (case attempts r prev s of x # _ \<Rightarrow> Some x
     | [] \<Rightarrow> (case s of [] \<Rightarrow> None | c # cs \<Rightarrow> search r (Some c) cs))"

function findall :: "re \<Rightarrow> char option \<Rightarrow> string \<Rightarrow> attempt list" where
  "findall r prev s = (case attempts r prev s of
      x # _ \<Rightarrow> x # (if matched x \<noteq> [] then findall r (last_char prev (matched x)) (remaining x)
        else case s of [] \<Rightarrow> [] | c # cs \<Rightarrow> findall r (Some c) cs)
    | [] \<Rightarrow> (case s of [] \<Rightarrow> [] | c # cs \<Rightarrow> findall r (Some c) cs))"
  by pat_completeness auto
termination
  by (relation "measure (\<lambda>(r, prev, s). length s)") (auto intro: attempts_shorter)

end
