(* ===== verification/Event_Contract.thy ===== *)
theory Event_Contract
  imports Py_Regex
begin

text \<open>
  The validator of the event schemas (\<open>src/scripts/validate_event_contract.py\<close>): reading the numbered fields and values of
  messages and enums from a schema's text, and comparing a schema with the frozen one and its manifest.
\<close>

section \<open>Contracts\<close>

abbreviation Plus :: "(char \<Rightarrow> bool) \<Rightarrow> re" where
  "Plus p \<equiv> Seq (One p) (Many p)"

definition type_re :: re where
  "type_re = Alt (Seq (Lit ''map<'') (Seq (Plus (\<lambda>c. c \<noteq> CHR ''>'')) (Lit ''>'')))
     (Plus (\<lambda>c. is_word c \<or> c \<in> set ''.<>''))"

definition FIELD_PATTERN :: re where
  "FIELD_PATTERN = Seq Bol (Seq (Many is_space) (Seq (Opt (Group 1 (Seq (Lit ''repeated'') (Plus is_space))))
     (Seq (Group 2 type_re) (Seq (Plus is_space)
     (Seq (Group 3 (Seq (One is_name_start) (Many is_word))) (Seq (Many is_space) (Seq (Lit ''='') (Seq (Many is_space)
     (Seq (Group 4 (Plus is_digit)) (Seq (Many is_space) (Lit '';'')))))))))))"

definition ENUM_VALUE_PATTERN :: re where
  "ENUM_VALUE_PATTERN = Seq Bol (Seq (Many is_space)
     (Seq (Group 1 (Seq (One is_upper) (Many (\<lambda>c. is_upper c \<or> is_digit c \<or> c = CHR ''_'')))) (Seq (Many is_space)
     (Seq (Lit ''='') (Seq (Many is_space) (Seq (Group 2 (Plus is_digit)) (Seq (Many is_space) (Lit '';''))))))))"

record contract =
  version :: string
  messages :: "string list"
  enums :: "string list"

definition directory :: "string \<Rightarrow> contract \<Rightarrow> string" where
  "directory base c = base @ ''/schemas/events/'' @ version c"

definition proto_path :: "string \<Rightarrow> contract \<Rightarrow> string" where
  "proto_path base c = directory base c @ ''/events.proto''"

definition baseline_path :: "string \<Rightarrow> contract \<Rightarrow> string" where
  "baseline_path base c = directory base c @ ''/baseline.proto''"

definition compatibility_path :: "string \<Rightarrow> contract \<Rightarrow> string" where
  "compatibility_path base c = directory base c @ ''/compatibility.json''"

definition V1 :: contract where
  "V1 = \<lparr>version = ''v1'', messages = [''EventEnvelope'', ''FlowEvent'', ''FeatureVector'', ''Detection'', ''CaptureObject''], enums = []\<rparr>"

definition V2 :: contract where
  "V2 = \<lparr>version = ''v2'',
     messages = [''Envelope'', ''FlowEvent'', ''FeatureUpdate'', ''HorizonEvidence'', ''DetectionTransition'', ''HealthEvent''],
     enums = [''Protocol'', ''Direction'', ''AttemptOutcome'', ''ThreatFamily'', ''TransitionStatus'', ''Severity'', ''HealthKind'']\<rparr>"

definition CONTRACTS :: "contract list" where
  "CONTRACTS = [V1, V2]"

text \<open>The exceptions: \<open>ValueError\<close> by its message, \<open>KeyError\<close> and what reading a file or its JSON raises.\<close>

datatype contract_error =
    Missing string string
  | Not_closed string string
  | Duplicate_field string string
  | Duplicate_number string int
  | No_fields string
  | Not_zero string
  | Baseline_mismatch
  | Incompatible string string int
  | Missing_key string
  | Unreadable string

text \<open>Dictionaries in insertion order.\<close>

type_synonym numbers = "(string \<times> int) list"
type_synonym numbering = "(string \<times> numbers) list"

section \<open>Reading a schema\<close>

text \<open>The text up to the brace that closes \<open>depth\<close> open ones.\<close>

fun upto_close :: "nat \<Rightarrow> string \<Rightarrow> string option" where
  "upto_close depth [] = None"
| "upto_close depth (c # cs) =
     (if c = CHR ''{'' then map_option ((#) c) (upto_close (depth + 1) cs)
      else if c = CHR ''}'' then (if depth - 1 = 0 then Some [] else map_option ((#) c) (upto_close (depth - 1) cs))
      else map_option ((#) c) (upto_close depth cs))"

definition body :: "string \<Rightarrow> string \<Rightarrow> string \<Rightarrow> contract_error + string" where
  "body source name kind =
     (case search (Seq (Lit kind) (Seq (Plus is_space) (Seq (Lit name) (Seq (Many is_space) (Lit ''{''))))) None source of
        None \<Rightarrow> Inl (Missing kind name)
      | Some x \<Rightarrow> (case upto_close 1 (remaining x) of None \<Rightarrow> Inl (Not_closed kind name) | Some text \<Rightarrow> Inr text))"

definition group :: "nat \<Rightarrow> attempt \<Rightarrow> string" where
  "group n x = (case map_of (groups x) n of None \<Rightarrow> [] | Some t \<Rightarrow> t)"

fun numbered_loop :: "(string \<times> string) list \<Rightarrow> string \<Rightarrow> numbers \<Rightarrow> contract_error + numbers" where
  "numbered_loop [] owner numbered = Inr numbered"
| "numbered_loop ((name, number) # items) owner numbered =
     (if name \<in> set (map fst numbered) then Inl (Duplicate_field owner name)
      else if dec_val number \<in> set (map snd numbered) then Inl (Duplicate_number owner (dec_val number))
      else numbered_loop items owner (numbered @ [(name, dec_val number)]))"

definition numbered :: "(string \<times> string) list \<Rightarrow> string \<Rightarrow> contract_error + numbers" where
  "numbered items owner = (case numbered_loop items owner [] of
      Inl e \<Rightarrow> Inl e | Inr d \<Rightarrow> if d = [] then Inl (No_fields owner) else Inr d)"

definition message_fields :: "string \<Rightarrow> string \<Rightarrow> contract_error + numbers" where
  "message_fields source message = (case body source message ''message'' of Inl e \<Rightarrow> Inl e
     | Inr text \<Rightarrow> numbered (map (\<lambda>x. (group 3 x, group 4 x)) (findall FIELD_PATTERN None text)) message)"

definition enum_values :: "string \<Rightarrow> string \<Rightarrow> contract_error + numbers" where
  "enum_values source enum = (case body source enum ''enum'' of Inl e \<Rightarrow> Inl e
     | Inr text \<Rightarrow> (case numbered (map (\<lambda>x. (group 1 x, group 2 x)) (findall ENUM_VALUE_PATTERN None text)) enum of
          Inl e \<Rightarrow> Inl e | Inr d \<Rightarrow> if snd (hd d) \<noteq> 0 then Inl (Not_zero enum) else Inr d))"

fun collect :: "(string \<Rightarrow> contract_error + numbers) \<Rightarrow> string list \<Rightarrow> numbering \<Rightarrow> contract_error + numbering" where
  "collect f [] result = Inr result"
| "collect f (x # xs) result = (case f x of Inl e \<Rightarrow> Inl e | Inr d \<Rightarrow> collect f xs (AList.update x d result))"

definition parse_contract :: "string \<Rightarrow> string list \<Rightarrow> string list \<Rightarrow> contract_error + numbering" where
  "parse_contract source ms es = (case collect (message_fields source) ms [] of Inl e \<Rightarrow> Inl e
     | Inr result \<Rightarrow> collect (enum_values source) es result)"

definition signatures :: "string \<Rightarrow> string \<Rightarrow> contract_error + (string \<times> string \<times> string) list" where
  "signatures source message = (case body source message ''message'' of Inl e \<Rightarrow> Inl e
     | Inr text \<Rightarrow> Inr (fold (\<lambda>x d. AList.update (group 3 x) (group 1 x, group 2 x) d) (findall FIELD_PATTERN None text) []))"

section \<open>Compatibility\<close>

text \<open>\<open>==\<close> of dictionaries, whose order does not matter.\<close>

definition dict_eq :: "('v \<Rightarrow> 'v \<Rightarrow> bool) \<Rightarrow> ('k \<times> 'v) list \<Rightarrow> ('k \<times> 'v) list \<Rightarrow> bool" where
  "dict_eq eq d d' \<longleftrightarrow> set (map fst d) = set (map fst d') \<and>
     list_all (\<lambda>k. rel_option eq (map_of d k) (map_of d' k)) (map fst d)"

fun check_fields :: "string \<Rightarrow> numbers \<Rightarrow> (string \<times> string \<times> string) list \<Rightarrow> (string \<times> string \<times> string) list \<Rightarrow>
    numbers \<Rightarrow> contract_error + unit" where
  "check_fields message actual old_signatures new_signatures [] = Inr ()"
| "check_fields message actual old_signatures new_signatures ((name, number) # rest) =
     (if map_of actual name \<noteq> Some number then Inl (Incompatible message name number)
      else case map_of old_signatures name of None \<Rightarrow> Inl (Missing_key name)
       | Some old \<Rightarrow> if map_of new_signatures name \<noteq> Some old then Inl (Incompatible message name number)
           else check_fields message actual old_signatures new_signatures rest)"

fun check_values :: "string \<Rightarrow> numbers \<Rightarrow> numbers \<Rightarrow> contract_error + unit" where
  "check_values enum actual [] = Inr ()"
| "check_values enum actual ((name, number) # rest) =
     (if map_of actual name \<noteq> Some number then Inl (Incompatible enum name number) else check_values enum actual rest)"

definition key :: "(string \<times> 'v) list \<Rightarrow> string \<Rightarrow> contract_error + 'v" where
  "key d k = (case map_of d k of None \<Rightarrow> Inl (Missing_key k) | Some v \<Rightarrow> Inr v)"

fun each :: "('a \<Rightarrow> contract_error + unit) \<Rightarrow> 'a list \<Rightarrow> contract_error + unit" where
  "each f [] = Inr ()"
| "each f (x # xs) = (case f x of Inl e \<Rightarrow> Inl e | Inr _ \<Rightarrow> each f xs)"

definition check_message :: "string \<Rightarrow> string \<Rightarrow> numbering \<Rightarrow> numbering \<Rightarrow> string \<Rightarrow> contract_error + unit" where
  "check_message source baseline expected actual message =
     (case signatures baseline message of Inl e \<Rightarrow> Inl e | Inr old \<Rightarrow>
     (case signatures source message of Inl e \<Rightarrow> Inl e | Inr new \<Rightarrow>
     (case key expected message of Inl e \<Rightarrow> Inl e | Inr frozen \<Rightarrow>
     (case key actual message of Inl e \<Rightarrow> Inl e | Inr now \<Rightarrow> check_fields message now old new frozen))))"

definition check_enum :: "numbering \<Rightarrow> numbering \<Rightarrow> string \<Rightarrow> contract_error + unit" where
  "check_enum expected actual enum =
     (case key expected enum of Inl e \<Rightarrow> Inl e | Inr values \<Rightarrow>
     (case key actual enum of Inl e \<Rightarrow> Inl e | Inr now \<Rightarrow> check_values enum now values))"

definition validate_compatibility :: "string \<Rightarrow> string \<Rightarrow> numbering \<Rightarrow> contract \<Rightarrow> contract_error + unit" where
  "validate_compatibility source baseline expected c =
     (case parse_contract source (messages c) (enums c) of Inl e \<Rightarrow> Inl e | Inr actual \<Rightarrow>
     (case parse_contract baseline (messages c) (enums c) of Inl e \<Rightarrow> Inl e | Inr frozen \<Rightarrow>
       if \<not> dict_eq (dict_eq (=)) frozen expected then Inl Baseline_mismatch
       else case each (check_message source baseline expected actual) (messages c) of Inl e \<Rightarrow> Inl e
         | Inr _ \<Rightarrow> each (check_enum expected actual) (enums c)))"

text \<open>Files by their paths (\<^term>\<open>None\<close> when unreadable); \<open>loads\<close> is \<open>json.loads\<close> of a manifest.\<close>

definition validate_one :: "(string \<Rightarrow> string option) \<Rightarrow> (string \<Rightarrow> numbering option) \<Rightarrow> string \<Rightarrow> contract \<Rightarrow> contract_error + unit" where
  "validate_one read loads base c =
     (case read (proto_path base c) of None \<Rightarrow> Inl (Unreadable (proto_path base c)) | Some source \<Rightarrow>
     (case read (baseline_path base c) of None \<Rightarrow> Inl (Unreadable (baseline_path base c)) | Some baseline \<Rightarrow>
     (case Option.bind (read (compatibility_path base c)) loads of None \<Rightarrow> Inl (Unreadable (compatibility_path base c))
      | Some expected \<Rightarrow> validate_compatibility source baseline expected c)))"

definition validate :: "(string \<Rightarrow> string option) \<Rightarrow> (string \<Rightarrow> numbering option) \<Rightarrow> string \<Rightarrow> contract option \<Rightarrow> contract_error + unit" where
  "validate read loads base c = each (validate_one read loads base) (case c of None \<Rightarrow> CONTRACTS | Some x \<Rightarrow> [x])"

section \<open>What the parser yields\<close>

lemma numbered_loop_eq:
  "numbered_loop items owner acc = Inr d \<Longrightarrow> d = acc @ map (\<lambda>(name, number). (name, dec_val number)) items"
  by (induction items owner acc rule: numbered_loop.induct) (simp_all split: if_splits)

lemma numbered_loop_distinct:
  assumes "numbered_loop items owner acc = Inr d" "distinct (map fst acc)" "distinct (map snd acc)"
  shows "distinct (map fst d) \<and> distinct (map snd d)"
  using assms by (induction items owner acc rule: numbered_loop.induct) (simp_all split: if_splits)

lemma numbered_spec:
  assumes "numbered items owner = Inr d"
  shows "d = map (\<lambda>(name, number). (name, dec_val number)) items" "d \<noteq> []" "distinct (map fst d)" "distinct (map snd d)"
proof -
  have l: "numbered_loop items owner [] = Inr d" and "d \<noteq> []"
    using assms by (auto simp: numbered_def split: sum.splits if_splits)
  then show "d = map (\<lambda>(name, number). (name, dec_val number)) items" "d \<noteq> []" "distinct (map fst d)" "distinct (map snd d)"
    using numbered_loop_eq [OF l] numbered_loop_distinct [OF l] by simp_all
qed

lemma message_fields_spec:
  assumes "message_fields source m = Inr d"
  shows "distinct (map fst d)" "distinct (map snd d)"
    "\<exists>sig. signatures source m = Inr sig \<and> dom (map_of sig) = set (map fst d)"
proof -
  from assms obtain b where t: "body source m ''message'' = Inr b"
    "numbered (map (\<lambda>x. (group 3 x, group 4 x)) (findall FIELD_PATTERN None b)) m = Inr d"
    by (auto simp: message_fields_def split: sum.splits)
  note n = numbered_spec [OF t(2)]
  show "distinct (map fst d)" "distinct (map snd d)" using n(3,4) .
  have "dom (map_of (fold (\<lambda>x d. AList.update (group 3 x) (group 1 x, group 2 x) d) xs acc)) = group 3 ` set xs \<union> dom (map_of acc)" for xs acc
    by (induction xs arbitrary: acc) (auto simp: update_conv')
  moreover have "set (map fst d) = group 3 ` set (findall FIELD_PATTERN None b)"
    by (simp add: n(1) comp_def image_image)
  ultimately show "\<exists>sig. signatures source m = Inr sig \<and> dom (map_of sig) = set (map fst d)"
    using t(1) by (simp add: signatures_def)
qed

lemma enum_values_spec:
  assumes "enum_values source e = Inr d"
  shows "distinct (map fst d)" "distinct (map snd d)"
  using assms by (auto simp: enum_values_def dest: numbered_spec split: sum.splits if_splits)

lemma collect_iff:
  "(\<exists>res. collect f xs acc = Inr res) \<longleftrightarrow> (\<forall>x \<in> set xs. \<exists>d. f x = Inr d)"
  by (induction xs arbitrary: acc) (auto split: sum.splits)

lemma collect_lookup:
  assumes "collect f xs acc = Inr res"
  shows "map_of res x = (if x \<in> set xs then (case f x of Inl e \<Rightarrow> None | Inr d \<Rightarrow> Some d) else map_of acc x)"
  using assms by (induction xs arbitrary: acc) (auto simp: update_conv' split: sum.splits)

lemma collect_error: "collect f xs acc = Inl e \<Longrightarrow> \<exists>x \<in> set xs. f x = Inl e"
  by (induction xs arbitrary: acc) (auto split: sum.splits)

definition separate :: "contract \<Rightarrow> bool" where
  "separate c \<longleftrightarrow> set (messages c) \<inter> set (enums c) = {}"

lemma parse_lookup:
  assumes "parse_contract source (messages c) (enums c) = Inr res" and "separate c"
  shows "m \<in> set (messages c) \<Longrightarrow> \<exists>d. message_fields source m = Inr d \<and> map_of res m = Some d"
    and "e \<in> set (enums c) \<Longrightarrow> \<exists>d. enum_values source e = Inr d \<and> map_of res e = Some d"
proof -
  from assms(1) obtain r1 where r: "collect (message_fields source) (messages c) [] = Inr r1" "collect (enum_values source) (enums c) r1 = Inr res"
    by (auto simp: parse_contract_def split: sum.splits)
  then have f: "\<forall>x \<in> set (messages c). \<exists>d. message_fields source x = Inr d" "\<forall>x \<in> set (enums c). \<exists>d. enum_values source x = Inr d"
    using collect_iff by blast+
  show "m \<in> set (messages c) \<Longrightarrow> \<exists>d. message_fields source m = Inr d \<and> map_of res m = Some d"
    using f(1) collect_lookup [OF r(1), of m] collect_lookup [OF r(2), of m] assms(2) by (auto simp: separate_def)
  show "e \<in> set (enums c) \<Longrightarrow> \<exists>d. enum_values source e = Inr d \<and> map_of res e = Some d"
    using f(2) collect_lookup [OF r(2), of e] by auto
qed

lemma parse_succeeds:
  "(\<exists>res. parse_contract source ms es = Inr res) \<longleftrightarrow>
     (\<forall>m \<in> set ms. \<exists>d. message_fields source m = Inr d) \<and> (\<forall>e \<in> set es. \<exists>d. enum_values source e = Inr d)"
  using collect_iff [of "message_fields source" ms "[]"] collect_iff [of "enum_values source" es]
  by (auto simp: parse_contract_def split: sum.splits)

section \<open>What the checks accept\<close>

lemma check_fields_iff:
  "check_fields m now old new fs = Inr () \<longleftrightarrow>
     (\<forall>(name, n) \<in> set fs. map_of now name = Some n \<and> map_of old name \<noteq> None \<and> map_of new name = map_of old name)"
  by (induction m now old new fs rule: check_fields.induct) (auto split: option.splits)

lemma check_fields_error:
  assumes "check_fields m now old new fs = Inl e" and "set (map fst fs) \<subseteq> dom (map_of old)"
  shows "\<exists>name n. e = Incompatible m name n"
  using assms by (induction m now old new fs rule: check_fields.induct) (auto split: option.splits if_splits)

lemma check_values_iff: "check_values e now vs = Inr () \<longleftrightarrow> (\<forall>(name, n) \<in> set vs. map_of now name = Some n)"
  by (induction e now vs rule: check_values.induct) auto

lemma check_values_error: "check_values e now vs = Inl err \<Longrightarrow> \<exists>name n. err = Incompatible e name n"
  by (induction e now vs rule: check_values.induct) (auto split: if_splits)

lemma each_iff: "each f xs = Inr () \<longleftrightarrow> (\<forall>x \<in> set xs. f x = Inr ())"
  by (induction xs) (auto split: sum.splits)

lemma each_error: "each f xs = Inl e \<Longrightarrow> \<exists>x \<in> set xs. f x = Inl e"
  by (induction xs) (auto split: sum.splits)

lemma dict_eq_keys: "dict_eq eq d d' \<Longrightarrow> set (map fst d') = set (map fst d)"
  by (simp add: dict_eq_def)

lemma dict_eq_lookup:
  assumes "dict_eq eq d d'" "map_of d k = Some v"
  shows "\<exists>v'. map_of d' k = Some v' \<and> eq v v'"
proof -
  have "(k, v) \<in> set d" using assms(2) by (rule map_of_SomeD)
  then have "rel_option eq (map_of d k) (map_of d' k)" using assms(1) by (force simp: dict_eq_def list_all_iff)
  then show ?thesis using assms(2) by (auto elim: option.rel_cases)
qed

lemma dict_eq_set:
  assumes "dict_eq (=) d d'" "distinct (map fst d)" "distinct (map fst d')"
  shows "set d = set d'"
proof -
  have "map_of d k = map_of d' k" for k
  proof (cases "map_of d k")
    case None
    then have "k \<notin> set (map fst d')" using dict_eq_keys [OF assms(1)] by (simp add: map_of_eq_None_iff)
    then have "map_of d' k = None" by (simp add: map_of_eq_None_iff)
    with None show ?thesis by simp
  next
    case (Some v)
    then show ?thesis using dict_eq_lookup [OF assms(1) Some] by simp
  qed
  then have "map_of d = map_of d'" by (rule ext)
  then show ?thesis using map_of_inject_set [OF assms(2,3)] by blast
qed

text \<open>The label and type of a field.\<close>

definition field_type :: "string \<Rightarrow> string \<Rightarrow> string \<Rightarrow> (string \<times> string) option" where
  "field_type source m name = (case signatures source m of Inl e \<Rightarrow> None | Inr sig \<Rightarrow> map_of sig name)"

lemma check_message_iff:
  assumes old: "message_fields baseline m = Inr old" and now: "message_fields source m = Inr now" "map_of actual m = Some now"
    and frozen: "map_of expected m = Some frozen" "set frozen = set old"
  shows "check_message source baseline expected actual m = Inr () \<longleftrightarrow>
    (\<forall>(name, n) \<in> set old. (name, n) \<in> set now \<and> field_type source m name = field_type baseline m name)"
    and "check_message source baseline expected actual m = Inl e \<Longrightarrow> \<exists>name n. e = Incompatible m name n"
proof -
  obtain so where so: "signatures baseline m = Inr so" "dom (map_of so) = set (map fst old)" using message_fields_spec(3) [OF old] by blast
  obtain sn where sn: "signatures source m = Inr sn" using message_fields_spec(3) [OF now(1)] by blast
  have c: "check_message source baseline expected actual m = check_fields m now so sn frozen"
    by (simp add: check_message_def so sn key_def frozen now)
  have d: "map_of so name \<noteq> None" if "(name, n) \<in> set old" for name n
    using so(2) that by force
  show "check_message source baseline expected actual m = Inr () \<longleftrightarrow>
      (\<forall>(name, n) \<in> set old. (name, n) \<in> set now \<and> field_type source m name = field_type baseline m name)"
    using d message_fields_spec(1) [OF now(1)]
    by (fastforce simp: c check_fields_iff frozen(2) field_type_def so sn)
  have "set (map fst frozen) \<subseteq> dom (map_of so)" using so(2) frozen(2) by simp
  then show "check_message source baseline expected actual m = Inl e \<Longrightarrow> \<exists>name n. e = Incompatible m name n"
    using check_fields_error by (simp add: c)
qed

lemma check_enum_iff:
  assumes now: "map_of actual e = Some now" "distinct (map fst now)" and frozen: "map_of expected e = Some frozen" "set frozen = set old"
  shows "check_enum expected actual e = Inr () \<longleftrightarrow> set old \<subseteq> set now"
    and "check_enum expected actual e = Inl err \<Longrightarrow> \<exists>name n. err = Incompatible e name n"
  using now(2) by (auto simp: check_enum_def key_def now frozen check_values_iff dest: check_values_error)

text \<open>A manifest as \<open>json.loads\<close> gives it: no key occurs twice.\<close>

definition is_dict :: "numbering \<Rightarrow> bool" where
  "is_dict d \<longleftrightarrow> distinct (map fst d) \<and> list_all (\<lambda>(k, ns). distinct (map fst ns)) d"

text \<open>The frozen numbers of a message or enum in the manifest.\<close>

lemma frozen_lookup:
  assumes "dict_eq (dict_eq (=)) base expected" and "is_dict expected" and "map_of base x = Some old" and "distinct (map fst old)"
  shows "\<exists>frozen. map_of expected x = Some frozen \<and> set frozen = set old"
proof -
  from dict_eq_lookup [OF assms(1,3)] obtain fz where fz: "map_of expected x = Some fz" "dict_eq (=) old fz" by blast
  moreover have "distinct (map fst fz)" using assms(2) fz(1) by (auto simp: is_dict_def list_all_iff dest: map_of_SomeD)
  ultimately show ?thesis using dict_eq_set [OF fz(2) assms(4)] by auto
qed

text \<open>
  C7: the check accepts a schema exactly when it is compatible with the frozen one. If the manifest
  agrees with the frozen schema, validation succeeds if and only if every message and enum of the contract still
  reads, with no number used twice, every frozen field has kept its number, label and type, and every
  frozen enum value its number; anything may be added.
\<close>

theorem compatibility_iff:
  assumes c: "separate c" and b: "parse_contract baseline (messages c) (enums c) = Inr base"
    and e: "is_dict expected" "dict_eq (dict_eq (=)) base expected"
  shows "validate_compatibility source baseline expected c = Inr () \<longleftrightarrow>
    (\<forall>m \<in> set (messages c). \<exists>old now. message_fields baseline m = Inr old \<and> message_fields source m = Inr now \<and>
       distinct (map fst now) \<and> distinct (map snd now) \<and>
       (\<forall>(name, n) \<in> set old. (name, n) \<in> set now \<and> field_type source m name = field_type baseline m name)) \<and>
    (\<forall>x \<in> set (enums c). \<exists>old now. enum_values baseline x = Inr old \<and> enum_values source x = Inr now \<and>
       distinct (map snd now) \<and> set old \<subseteq> set now)" (is "?l \<longleftrightarrow> ?r")
proof (cases "\<exists>actual. parse_contract source (messages c) (enums c) = Inr actual")
  case False
  then obtain err where "parse_contract source (messages c) (enums c) = Inl err"
    by (cases "parse_contract source (messages c) (enums c)") auto
  then have "\<not> ?l" by (simp add: validate_compatibility_def)
  moreover have "\<not> ?r" using False unfolding parse_succeeds by blast
  ultimately show ?thesis by blast
next
  case True
  then obtain actual where a: "parse_contract source (messages c) (enums c) = Inr actual" by blast
  have m: "check_message source baseline expected actual m = Inr () \<longleftrightarrow>
      (\<exists>old now. message_fields baseline m = Inr old \<and> message_fields source m = Inr now \<and> distinct (map fst now) \<and> distinct (map snd now) \<and>
       (\<forall>(name, n) \<in> set old. (name, n) \<in> set now \<and> field_type source m name = field_type baseline m name))"
    if mc: "m \<in> set (messages c)" for m
  proof -
    obtain old where old: "message_fields baseline m = Inr old" "map_of base m = Some old" using parse_lookup(1) [OF b c mc] by blast
    obtain now where now: "message_fields source m = Inr now" "map_of actual m = Some now" using parse_lookup(1) [OF a c mc] by blast
    obtain fz where "map_of expected m = Some fz" "set fz = set old"
      using frozen_lookup [OF e(2,1) old(2) message_fields_spec(1) [OF old(1)]] by blast
    from check_message_iff(1) [OF old(1) now this] show ?thesis
      using message_fields_spec(1,2) [OF now(1)] old(1) now(1) by auto
  qed
  have x: "check_enum expected actual x = Inr () \<longleftrightarrow>
      (\<exists>old now. enum_values baseline x = Inr old \<and> enum_values source x = Inr now \<and> distinct (map snd now) \<and> set old \<subseteq> set now)"
    if xc: "x \<in> set (enums c)" for x
  proof -
    obtain old where old: "enum_values baseline x = Inr old" "map_of base x = Some old" using parse_lookup(2) [OF b c xc] by blast
    obtain now where now: "enum_values source x = Inr now" "map_of actual x = Some now" using parse_lookup(2) [OF a c xc] by blast
    obtain fz where "map_of expected x = Some fz" "set fz = set old"
      using frozen_lookup [OF e(2,1) old(2) enum_values_spec(1) [OF old(1)]] by blast
    from check_enum_iff(1) [OF now(2) enum_values_spec(1) [OF now(1)] this] show ?thesis
      using enum_values_spec(2) [OF now(1)] old(1) now(1) by auto
  qed
  have "?l \<longleftrightarrow> (\<forall>m \<in> set (messages c). check_message source baseline expected actual m = Inr ()) \<and>
      (\<forall>x \<in> set (enums c). check_enum expected actual x = Inr ())"
    unfolding each_iff [symmetric] by (simp add: validate_compatibility_def a b e(2) split: sum.splits)
  then show ?thesis using m x by auto
qed

text \<open>A small contract.\<close>

definition ex_contract :: contract where
  "ex_contract = \<lparr>version = ''v0'', messages = [''M''], enums = [''E'']\<rparr>"

definition nl :: string where "nl = [CHR 0x0A]"

definition ex_proto :: "string \<Rightarrow> string" where
  "ex_proto extra = ''message M {'' @ nl @ ''  string id = 1;'' @ nl @ ''  repeated uint32 xs = 2;'' @ nl @ extra @
     ''}'' @ nl @ ''enum E {'' @ nl @ ''  E_A = 0;'' @ nl @ ''  E_B = 1;'' @ nl @ ''}'' @ nl"

definition ex_manifest :: numbering where
  "ex_manifest = [(''M'', [(''id'', 1), (''xs'', 2)]), (''E'', [(''E_A'', 0), (''E_B'', 1)])]"

lemma ex_contract_ok: "separate ex_contract" "is_dict ex_manifest" "dict_eq (dict_eq (=)) ex_manifest ex_manifest"
  "parse_contract (ex_proto []) (messages ex_contract) (enums ex_contract) = Inr ex_manifest"
  "validate_compatibility (ex_proto (''  bool new = 3;'' @ nl)) (ex_proto []) ex_manifest ex_contract = Inr ()"
  by code_simp+

theorem compatibility_iff_witness:
  "validate_compatibility (ex_proto (''  bool new = 3;'' @ nl)) (ex_proto []) ex_manifest ex_contract = Inr () \<and>
   (\<exists>old now. message_fields (ex_proto []) ''M'' = Inr old \<and> message_fields (ex_proto (''  bool new = 3;'' @ nl)) ''M'' = Inr now \<and>
      distinct (map snd now) \<and> set old \<subseteq> set now)"
proof -
  have "''M'' \<in> set (messages ex_contract)" by (simp add: ex_contract_def)
  with compatibility_iff [OF ex_contract_ok(1,4,2,3), of "ex_proto (''  bool new = 3;'' @ nl)"] ex_contract_ok(5)
  show ?thesis by (fastforce simp del: distinct_map)
qed

text \<open>
  Validation fails only by a message of its own. Whatever the schemas and the manifest hold, it
  never raises a \<open>KeyError\<close>: the manifest is compared with the frozen schema first, so every name
  looked up afterwards is there.
\<close>

lemma validate_no_key_error:
  assumes "separate c" and "is_dict expected"
  shows "validate_compatibility source baseline expected c \<noteq> Inl (Missing_key k)"
proof
  assume v: "validate_compatibility source baseline expected c = Inl (Missing_key k)"
  have num: "numbered items owner \<noteq> Inl (Missing_key k)" for items owner
  proof -
    have "numbered_loop items owner acc \<noteq> Inl (Missing_key k)" for acc
      by (induction items owner acc rule: numbered_loop.induct) auto
    then show ?thesis by (auto simp: numbered_def split: sum.splits)
  qed
  have b: "body t name kind \<noteq> Inl (Missing_key k)" for t name kind
    by (auto simp: body_def split: option.splits)
  have p: "parse_contract t ms es \<noteq> Inl (Missing_key k)" for t ms es
    using num b by (auto simp: parse_contract_def message_fields_def enum_values_def split: sum.splits if_splits dest!: collect_error)
  obtain actual where a: "parse_contract source (messages c) (enums c) = Inr actual"
    using v p by (cases "parse_contract source (messages c) (enums c)") (auto simp: validate_compatibility_def)
  obtain frozen where f: "parse_contract baseline (messages c) (enums c) = Inr frozen" "dict_eq (dict_eq (=)) frozen expected"
    using v p a by (cases "parse_contract baseline (messages c) (enums c)") (auto simp: validate_compatibility_def split: if_splits)
  have e: "(\<exists>m \<in> set (messages c). check_message source baseline expected actual m = Inl (Missing_key k)) \<or>
      (\<exists>x \<in> set (enums c). check_enum expected actual x = Inl (Missing_key k))"
    using v a f by (auto simp: validate_compatibility_def split: sum.splits dest!: each_error)
  from e show False
  proof (elim disjE bexE)
    fix m
    assume m: "m \<in> set (messages c)" "check_message source baseline expected actual m = Inl (Missing_key k)"
    obtain old where old: "message_fields baseline m = Inr old" "map_of frozen m = Some old" using parse_lookup(1) [OF f(1) assms(1) m(1)] by blast
    obtain now where now: "message_fields source m = Inr now" "map_of actual m = Some now" using parse_lookup(1) [OF a assms(1) m(1)] by blast
    obtain fz where "map_of expected m = Some fz" "set fz = set old"
      using frozen_lookup [OF f(2) assms(2) old(2) message_fields_spec(1) [OF old(1)]] by blast
    from check_message_iff(2) [OF old(1) now this m(2)] show False by simp
  next
    fix x
    assume x: "x \<in> set (enums c)" "check_enum expected actual x = Inl (Missing_key k)"
    obtain old where old: "enum_values baseline x = Inr old" "map_of frozen x = Some old" using parse_lookup(2) [OF f(1) assms(1) x(1)] by blast
    obtain now where now: "enum_values source x = Inr now" "map_of actual x = Some now" using parse_lookup(2) [OF a assms(1) x(1)] by blast
    obtain fz where "map_of expected x = Some fz" "set fz = set old"
      using frozen_lookup [OF f(2) assms(2) old(2) enum_values_spec(1) [OF old(1)]] by blast
    from check_enum_iff(2) [OF now(2) enum_values_spec(1) [OF now(1)] this x(2)] show False by simp
  qed
qed

end
