(* ===== verification/Durations.thy ===== *)
theory Durations
  imports Python_Text
begin

text \<open>
  Numbers the scripts under \<open>src/scripts\<close> read from their command lines: \<open>int(s)\<close> and \<open>float(s)\<close>, comparison and
  arithmetic of doubles with infinities and NaN (division, rounding to decimals and \<open>sum\<close> included), \<open>parse_duration\<close> of the port sweep (the research runner has the same
  text) and of the device emulator, and the printing of durations. Negative zero is taken as zero.
\<close>

section \<open>Doubles\<close>

text \<open>The double nearest to a rational number: \<open>fl\<close> of the prelude with subnormal numbers and overflow.\<close>

definition to_float :: "rat \<Rightarrow> py_float" where
  "to_float x =
     (if x = 0 then Finite 0
      else let e = max (fl_exponent x) (- 1074); y = of_int (round_half_even (x / pow2 e)) * pow2 e
           in if pow2 1024 \<le> \<bar>y\<bar> then Infinity (x < 0) else Finite y)"

fun py_less :: "py_float \<Rightarrow> py_float \<Rightarrow> bool" where
  "py_less (Finite a) (Finite b) = (a < b)"
| "py_less (Finite a) (Infinity neg) = (\<not> neg)"
| "py_less (Infinity neg) (Finite b) = neg"
| "py_less (Infinity n1) (Infinity n2) = (n1 \<and> \<not> n2)"
| "py_less NaN y = False"
| "py_less x NaN = False"

fun py_le :: "py_float \<Rightarrow> py_float \<Rightarrow> bool" where
  "py_le (Finite a) (Finite b) = (a \<le> b)"
| "py_le (Finite a) (Infinity neg) = (\<not> neg)"
| "py_le (Infinity neg) (Finite b) = neg"
| "py_le (Infinity n1) (Infinity n2) = (n1 \<or> \<not> n2)"
| "py_le NaN y = False"
| "py_le x NaN = False"

fun py_times :: "py_float \<Rightarrow> py_float \<Rightarrow> py_float" where
  "py_times (Finite a) (Finite b) = to_float (a * b)"
| "py_times (Finite a) (Infinity neg) = (if a = 0 then NaN else Infinity (neg \<noteq> (a < 0)))"
| "py_times (Infinity neg) (Finite b) = (if b = 0 then NaN else Infinity (neg \<noteq> (b < 0)))"
| "py_times (Infinity n1) (Infinity n2) = Infinity (n1 \<noteq> n2)"
| "py_times NaN y = NaN"
| "py_times x NaN = NaN"

fun py_plus :: "py_float \<Rightarrow> py_float \<Rightarrow> py_float" where
  "py_plus (Finite a) (Finite b) = to_float (a + b)"
| "py_plus (Finite a) (Infinity neg) = Infinity neg"
| "py_plus (Infinity neg) (Finite b) = Infinity neg"
| "py_plus (Infinity n1) (Infinity n2) = (if n1 = n2 then Infinity n1 else NaN)"
| "py_plus NaN y = NaN"
| "py_plus x NaN = NaN"

text \<open>Division by a double that is not zero.\<close>

fun py_divide :: "py_float \<Rightarrow> py_float \<Rightarrow> py_float" where
  "py_divide (Finite a) (Finite b) = to_float (a / b)"
| "py_divide (Finite a) (Infinity neg) = Finite 0"
| "py_divide (Infinity neg) (Finite b) = Infinity (neg \<noteq> (b < 0))"
| "py_divide (Infinity n1) (Infinity n2) = NaN"
| "py_divide NaN y = NaN"
| "py_divide x NaN = NaN"

text \<open>\<open>a / b\<close> of two integers, \<open>round(x, n)\<close>, and \<open>max(a, b)\<close>, which keeps its first argument unless the second is greater.\<close>

definition true_divide :: "int \<Rightarrow> int \<Rightarrow> py_float" where
  "true_divide a b = to_float (of_int a / of_int b)"

fun py_round :: "nat \<Rightarrow> py_float \<Rightarrow> py_float" where
  "py_round n (Finite q) = to_float (of_int (round_half_even (q * 10 ^ n)) / 10 ^ n)"
| "py_round n x = x"

definition py_max :: "py_float \<Rightarrow> py_float \<Rightarrow> py_float" where
  "py_max a b = (if py_less a b then b else a)"

fun py_neg :: "py_float \<Rightarrow> py_float" where
  "py_neg (Finite q) = Finite (- q)"
| "py_neg (Infinity neg) = Infinity (\<not> neg)"
| "py_neg NaN = NaN"

definition py_minus :: "py_float \<Rightarrow> py_float \<Rightarrow> py_float" where
  "py_minus x y = py_plus x (py_neg y)"

definition py_abs :: "py_float \<Rightarrow> py_float" where
  "py_abs x = (if py_less x (Finite 0) then py_neg x else x)"

text \<open>\<open>sum\<close> of floats, which since Python 3.12 carries the rounding errors along and adds them at the end.\<close>

definition sum_step :: "py_float \<Rightarrow> py_float \<times> py_float \<Rightarrow> py_float \<times> py_float" where
  "sum_step x st = (case st of (s, c) \<Rightarrow>
     let t = py_plus s x in
     (t, if py_le (py_abs x) (py_abs s) then py_plus c (py_plus (py_minus s t) x) else py_plus c (py_plus (py_minus x t) s)))"

definition float_sum :: "py_float list \<Rightarrow> py_float" where
  "float_sum xs = (case xs of [] \<Rightarrow> Finite 0
     | x # ys \<Rightarrow> (case fold sum_step ys (x, Finite 0) of (s, c) \<Rightarrow> if is_finite c \<and> c \<noteq> Finite 0 then py_plus s c else s))"

text \<open>\<open>int(x)\<close> raises for an infinity (\<open>OverflowError\<close>) and for NaN (\<open>ValueError\<close>): \<^term>\<open>None\<close>.\<close>

fun py_int :: "py_float \<Rightarrow> int option" where
  "py_int (Finite q) = Some (py_trunc q)"
| "py_int _ = None"

section \<open>Reading numbers\<close>

text \<open>\<open>int(s)\<close>: a sign, then digits with single underscores between them, at most 4300 of them.\<close>

definition split_sign :: "string \<Rightarrow> bool \<times> string" where
  "split_sign t = (case t of [] \<Rightarrow> (False, [])
     | c # cs \<Rightarrow> if c = CHR ''-'' then (True, cs) else if c = CHR ''+'' then (False, cs) else (False, t))"

definition parse_int :: "string \<Rightarrow> int option" where
  "parse_int s =
     (let (neg, u) = split_sign (strip s); gs = split_on CHR ''_'' u
      in if list_all (\<lambda>g. g \<noteq> [] \<and> list_all is_digit g) gs \<and> length (concat gs) \<le> 4300
         then Some (if neg then - dec_val (concat gs) else dec_val (concat gs)) else None)"

text \<open>Underscores stand between digits only, and are dropped.\<close>

fun drop_underscores :: "bool \<Rightarrow> string \<Rightarrow> string option" where
  "drop_underscores after_digit [] = Some []"
| "drop_underscores after_digit (c # cs) =
     (if c = CHR ''_'' then (if after_digit \<and> cs \<noteq> [] \<and> is_digit (hd cs) then drop_underscores False cs else None)
      else map_option ((#) c) (drop_underscores (is_digit c) cs))"

text \<open>The exponent part: nothing, or \<open>e\<close>, a sign and digits.\<close>

definition exponent_of :: "string \<Rightarrow> int option" where
  "exponent_of r = (case r of [] \<Rightarrow> Some 0
     | c # cs \<Rightarrow> let (neg, ds) = split_sign cs in
         if c = CHR ''e'' \<and> ds \<noteq> [] \<and> list_all is_digit ds then Some (if neg then - dec_val ds else dec_val ds) else None)"

definition pow10 :: "int \<Rightarrow> rat" where
  "pow10 e = (if 0 \<le> e then 10 ^ nat e else 1 / 10 ^ nat (- e))"

definition decimal :: "string \<Rightarrow> rat option" where
  "decimal w =
     (let ip = takeWhile is_digit w; r = dropWhile is_digit w;
          (fp, r2) = (case r of [] \<Rightarrow> ([], []) | c # cs \<Rightarrow> if c = CHR ''.'' then (takeWhile is_digit cs, dropWhile is_digit cs) else ([], r))
      in if ip @ fp = [] then None
         else map_option (\<lambda>e. of_int (dec_val (ip @ fp)) * pow10 (e - int (length fp))) (exponent_of r2))"

definition parse_float :: "string \<Rightarrow> py_float option" where
  "parse_float s =
     (case drop_underscores False (strip s) of None \<Rightarrow> None
      | Some u \<Rightarrow> let (neg, v) = split_sign u; w = lower v in
          if w = ''inf'' \<or> w = ''infinity'' then Some (Infinity neg)
          else if w = ''nan'' then Some NaN
          else map_option (\<lambda>q. to_float (if neg then - q else q)) (decimal w))"

section \<open>Durations\<close>

datatype arg_error =
    Usage
  | Argument_type_error string
  | Index_error

definition duration_suffix :: "string \<Rightarrow> string \<times> rat" where
  "duration_suffix raw =
     (if last raw = CHR ''s'' then (butlast raw, 1) else if last raw = CHR ''m'' then (butlast raw, 60)
      else if last raw = CHR ''h'' then (butlast raw, 3600) else (raw, 1))"

definition duration_of :: "string \<Rightarrow> arg_error + py_float" where
  "duration_of raw =
     (let (raw_number, multiplier) = duration_suffix raw in
      case parse_float raw_number of None \<Rightarrow> Inl (Argument_type_error ''invalid duration'')
      | Some x \<Rightarrow> let duration = py_times x (Finite multiplier) in
          if py_less duration (Finite 0) then Inl (Argument_type_error ''duration cannot be negative'') else Inr duration)"

definition parse_duration :: "string \<Rightarrow> arg_error + py_float" where
  "parse_duration value =
     (let raw = lower (strip value) in
      if raw = [] then Inl (Argument_type_error ''duration cannot be empty'') else duration_of raw)"

text \<open>The emulator's copy lacks the test for the empty string: \<open>raw[-1]\<close> raises \<open>IndexError\<close>.\<close>

definition emulator_parse_duration :: "string \<Rightarrow> arg_error + py_float" where
  "emulator_parse_duration value =
     (let raw = lower (strip value) in if raw = [] then Inl Index_error else duration_of raw)"

definition pad2 :: "int \<Rightarrow> string" where
  "pad2 n = (if 0 \<le> n \<and> n < 10 then CHR ''0'' # int_str n else int_str n)"

definition format_eta :: "rat \<Rightarrow> string" where
  "format_eta seconds =
     (let n = max 0 (py_trunc seconds); minutes = n div 60; sec = n mod 60; hours = minutes div 60; mins = minutes mod 60
      in if hours \<noteq> 0 then int_str hours @ ''h'' @ pad2 mins @ ''m'' @ pad2 sec @ ''s''
         else int_str mins @ ''m'' @ pad2 sec @ ''s'')"

definition fmt_duration :: "rat \<Rightarrow> string" where
  "fmt_duration seconds =
     (let n = max 0 (round_half_even seconds); minutes = n div 60; sec = n mod 60; hours = minutes div 60; mins = minutes mod 60
      in if hours \<noteq> 0 then int_str hours @ ''h '' @ pad2 mins @ ''m '' @ pad2 sec @ ''s''
         else int_str mins @ ''m '' @ pad2 sec @ ''s'')"

section \<open>Printing floats\<close>

text \<open>
  \<open>str(x)\<close> of a float: the shortest decimal that reads back, without an exponent when its point falls from four
  places before the digits to sixteen places after the first. Whole numbers below \<open>2 ^ 53\<close> are printed directly.
\<close>

definition exponent10 :: "rat \<Rightarrow> int" where
  "exponent10 x =
     (if 1 \<le> x then int (length (nat_str (nat \<lfloor>x\<rfloor>))) - 1
      else case find (\<lambda>k. 1 \<le> x * 10 ^ k) [1..<400] of Some k \<Rightarrow> - int k | None \<Rightarrow> - 400)"

definition shortest :: "rat \<Rightarrow> (int \<times> int) option" where
  "shortest x =
     find (\<lambda>(m, s). to_float (of_int m * pow10 s) = Finite x)
       (map (\<lambda>k. let s = exponent10 x - int k + 1 in (round_half_even (x / pow10 s), s)) [1..<18])"

definition repr_digits :: "string \<Rightarrow> int \<Rightarrow> string" where
  "repr_digits ds decpt =
     (if decpt \<le> - 4 \<or> 16 < decpt
      then hd ds # (if tl ds = [] then [] else CHR ''.'' # tl ds) @ ''e'' @ (if decpt - 1 < 0 then ''-'' else ''+'') @
           (let e = int_str \<bar>decpt - 1\<bar> in if length e < 2 then CHR ''0'' # e else e)
      else if decpt \<le> 0 then ''0.'' @ replicate (nat (- decpt)) CHR ''0'' @ ds
      else if nat decpt < length ds then take (nat decpt) ds @ ''.'' @ drop (nat decpt) ds
      else ds @ replicate (nat decpt - length ds) CHR ''0'' @ ''.0'')"

fun float_str :: "py_float \<Rightarrow> string" where
  "float_str (Infinity neg) = (if neg then ''-inf'' else ''inf'')"
| "float_str NaN = ''nan''"
| "float_str (Finite q) =
     (if q = of_int \<lfloor>q\<rfloor> \<and> \<bar>q\<bar> < 2 ^ 53 then int_str \<lfloor>q\<rfloor> @ ''.0''
      else (if q < 0 then ''-'' else []) @
        (case shortest \<bar>q\<bar> of None \<Rightarrow> []
         | Some (m, s) \<Rightarrow> let ds = nat_str (nat m) in repr_digits (rev (dropWhile (\<lambda>c. c = CHR ''0'') (rev ds))) (int (length ds) + s)))"

section \<open>Exact values\<close>

lemma pow2_pos: "0 < pow2 e"
  by (simp add: pow2_def)

lemma fl_exponent_int:
  assumes "\<bar>k\<bar> < 2 ^ 53"
  shows "fl_exponent (of_int k) \<le> 0"
proof -
  have "bitlen \<bar>k\<bar> \<le> 53" using assms bitlen_le_iff_power [of "\<bar>k\<bar>" 53] by simp
  moreover have "quotient_of (of_int k) = (k, 1)" by simp
  moreover have "bitlen 1 = 1" by (simp add: compute_bitlen)
  ultimately show ?thesis by (simp add: fl_exponent_def Let_def)
qed

lemma scaled_int: "e \<le> 0 \<Longrightarrow> of_int k / pow2 e = of_int (k * 2 ^ nat (- e))"
  by (auto simp: pow2_def)

lemma to_float_int: 
  assumes "\<bar>k\<bar> < 2 ^ 53"
  shows "to_float (of_int k) = Finite (of_int k)"
proof -
  define e where "e = max (fl_exponent (of_int k)) (- 1074)"
  have "e \<le> 0" using fl_exponent_int [OF assms] by (simp add: e_def)
  have y: "of_int (round_half_even (of_int k / pow2 e)) * pow2 e = of_int k"
    unfolding scaled_int [OF \<open>e \<le> 0\<close>] round_half_even_of_int using scaled_int [OF \<open>e \<le> 0\<close>, of k] pow2_pos [of e]
    by (metis less_numeral_extra(3) nonzero_eq_divide_eq)
  have "\<bar>of_int k\<bar> < (pow2 1024 :: rat)"
  proof -
    have "\<bar>of_int k :: rat\<bar> < 2 ^ 53" using assms by (metis of_int_abs of_int_less_iff of_int_numeral of_int_power)
    also have "(2 :: rat) ^ 53 \<le> 2 ^ 1024" by (rule power_increasing) simp_all
    finally show ?thesis by (simp add: pow2_def)
  qed
  then show ?thesis using y by (simp add: to_float_def Let_def flip: e_def)
qed


text \<open>Two literals of the scripts: \<open>0.1\<close> and \<open>0.2\<close> are not exact.\<close>

lemma to_float_literals:
  "to_float (1 / 5) = Finite (3602879701896397 / 18014398509481984)"
  "to_float (1 / 10) = Finite (3602879701896397 / 36028797018963968)"
proof -
  have b: "bitlen 1 = 1" "bitlen 5 = 3" "bitlen 10 = 4" by (simp_all add: compute_bitlen)
  have q: "quotient_of (1 / 5) = (1, 5)" "quotient_of (1 / 10) = (1, 10)" by code_simp+
  have e: "fl_exponent (1 / 5) = - 55" "fl_exponent (1 / 10) = - 56" by (simp_all add: fl_exponent_def q b pow2_def)
  have f: "\<lfloor>36028797018963968 / 5 :: rat\<rfloor> = 7205759403792793" by (rule floor_unique) simp_all
  show "to_float (1 / 5) = Finite (3602879701896397 / 18014398509481984)"
    "to_float (1 / 10) = Finite (3602879701896397 / 36028797018963968)"
    by (simp_all add: to_float_def Let_def e pow2_def round_half_even_def f)
qed
section \<open>Reading what was printed\<close>

lemma digit_facts:
  assumes "is_digit c"
  shows "\<not> is_space c" "lower_char c = c" "c \<noteq> CHR ''_''" "c \<noteq> CHR ''-''" "c \<noteq> CHR ''+''" "c \<noteq> CHR ''i''" "c \<noteq> CHR ''n''"
    "c \<noteq> CHR ''s''" "c \<noteq> CHR ''m''" "c \<noteq> CHR ''h''"
  using assms by (auto simp: is_digit_def is_space_def lower_char_def Let_def)

lemma dropWhile_none: "list_all (\<lambda>c. \<not> P c) s \<Longrightarrow> dropWhile P s = s"
  by (cases s) auto

lemma strip_plain: "list_all (\<lambda>c. \<not> is_space c) s \<Longrightarrow> strip s = s"
  using dropWhile_none [of is_space s] dropWhile_none [of is_space "rev s"] by (simp add: strip_def)

lemma digits_plain:
  assumes "list_all is_digit s"
  shows "list_all (\<lambda>c. \<not> is_space c) s" "lower s = s" "takeWhile is_digit s = s" "dropWhile is_digit s = []"
    "split_sign s = (False, s)"
proof -
  show "list_all (\<lambda>c. \<not> is_space c) s" using assms digit_facts(1) by (simp add: list_all_iff)
  show "lower s = s" using assms digit_facts(2) by (simp add: lower_def list_all_iff map_idI)
  show "takeWhile is_digit s = s" "dropWhile is_digit s = []" using assms by (simp_all add: list_all_iff)
  show "split_sign s = (False, s)" 
  proof (cases s)
    case (Cons c cs)
    then have "is_digit c" using assms by simp
    from digit_facts(4,5) [OF this] Cons show ?thesis by (simp add: split_sign_def)
  qed (simp add: split_sign_def)
qed

lemma drop_underscores_digits: "list_all is_digit s \<Longrightarrow> drop_underscores b s = Some s"
  using digit_facts(3) by (induction s arbitrary: b) auto

lemma parse_float_digits:
  assumes "list_all is_digit s" "s \<noteq> []"
  shows "parse_float s = Some (to_float (of_int (dec_val s)))"
proof -
  obtain c cs where s: "s = c # cs" "is_digit c" using assms by (cases s) auto
  have "strip s = s" using strip_plain digits_plain(1) assms by blast
  moreover have "s \<noteq> ''inf''" "s \<noteq> ''infinity''" "s \<noteq> ''nan''" using s digit_facts(6,7) by auto
  moreover have "decimal s = Some (of_int (dec_val s))"
    using assms by (simp add: decimal_def Let_def digits_plain exponent_of_def pow10_def)
  ultimately show ?thesis using assms
    by (simp add: parse_float_def drop_underscores_digits digits_plain)
qed


lemma drop_underscores_none: "CHR ''_'' \<notin> set s \<Longrightarrow> drop_underscores b s = Some s"
  by (induction s arbitrary: b) auto

lemma parse_float_point:
  assumes "list_all is_digit s" "s \<noteq> []"
  shows "parse_float (s @ ''.0'') = Some (to_float (of_int (dec_val s)))" "lower (strip (s @ ''.0'')) = s @ ''.0''"
proof -
  obtain c cs where s: "s = c # cs" "is_digit c" using assms by (cases s) auto
  have "CHR ''_'' \<notin> set s" using assms(1) digit_facts(3) by (auto simp: list_all_iff)
  then have u: "drop_underscores False (s @ ''.0'') = Some (s @ ''.0'')" by (intro drop_underscores_none) auto
  have st: "strip (s @ ''.0'') = s @ ''.0''" using digits_plain(1) [OF assms(1)]
    by (intro strip_plain) (auto simp: is_space_def)
  have sg: "split_sign (s @ ''.0'') = (False, s @ ''.0'')" using s digit_facts(4,5) [of c] by (simp add: split_sign_def)
  have lo: "lower (s @ ''.0'') = s @ ''.0''" using digits_plain(2) [OF assms(1)] by (simp add: lower_def lower_char_def)
  have "s @ ''.0'' \<noteq> ''inf''" "s @ ''.0'' \<noteq> ''infinity''" "s @ ''.0'' \<noteq> ''nan''" using s digit_facts(6,7) by auto
  moreover have "decimal (s @ ''.0'') = Some (of_int (dec_val s))"
  proof -
    have "takeWhile is_digit (s @ ''.0'') = s" "dropWhile is_digit (s @ ''.0'') = ''.0''" "takeWhile is_digit ''0'' = ''0''" "dropWhile is_digit ''0'' = []"
      using assms(1) by (simp_all add: list_all_iff is_digit_def)
    moreover have "dec_val (s @ ''0'') = 10 * dec_val s" by (simp add: dec_val_def digit_val_def)
    ultimately show ?thesis using assms(2) by (simp add: decimal_def Let_def exponent_of_def pow10_def)
  qed
  ultimately show "parse_float (s @ ''.0'') = Some (to_float (of_int (dec_val s)))"
    by (simp add: parse_float_def st u sg lo)
  show "lower (strip (s @ ''.0'')) = s @ ''.0''" by (simp add: st lo)
qed

text \<open>A whole number of seconds survives printing and reading.\<close>

lemma whole_seconds_read_back:
  assumes "n < 2 ^ 53"
  shows "parse_duration (float_str (Finite (of_nat n))) = Inr (Finite (of_nat n))" "hd (float_str (Finite (of_nat n))) \<noteq> CHR ''-''"
proof -
  let ?s = "nat_str n"
  have d: "list_all is_digit ?s" "?s \<noteq> []" "dec_val ?s = int n" using nat_str_digits by auto
  have "\<lfloor>of_nat n :: rat\<rfloor> = int n" by simp
  moreover have "(of_nat n :: rat) < 2 ^ 53" using assms by (metis of_nat_less_iff of_nat_numeral of_nat_power)
  ultimately have f: "float_str (Finite (of_nat n)) = ?s @ ''.0''" by (simp add: int_str_def)
  have "to_float (of_int (int n)) = Finite (of_int (int n))" using assms by (intro to_float_int) simp
  then show "parse_duration (float_str (Finite (of_nat n))) = Inr (Finite (of_nat n))"
    unfolding f parse_duration_def Let_def parse_float_point(2) [OF d(1,2)]
    by (simp add: duration_of_def duration_suffix_def parse_float_point(1) [OF d(1,2)] d(3))
  have "is_digit (hd ?s)" using d(1,2) by (cases ?s) auto
  from digit_facts(4) [OF this] show "hd (float_str (Finite (of_nat n))) \<noteq> CHR ''-''" unfolding f using d(2) by simp
qed

definition units :: "(string \<times> int) list" where
  "units = [([], 1), (''s'', 1), (''m'', 60), (''h'', 3600)]"

lemma duration_suffix_units:
  assumes "list_all is_digit s" "s \<noteq> []" "(u, m) \<in> set units"
  shows "duration_suffix (s @ u) = (s, of_int m)" "lower (strip (s @ u)) = s @ u" "1 \<le> m"
proof -
  have "is_digit (last s)" using assms by (simp add: list_all_iff)
  then show "duration_suffix (s @ u) = (s, of_int m)" using assms digit_facts(8-10) [of "last s"]
    by (auto simp: units_def duration_suffix_def)
  have "list_all (\<lambda>c. \<not> is_space c) u" "lower u = u" "1 \<le> m" using assms(3)
    by (auto simp: units_def is_space_def lower_def lower_char_def)
  then show "lower (strip (s @ u)) = s @ u" "1 \<le> m" using digits_plain [OF assms(1)]
    by (simp_all add: strip_plain lower_def)
qed

lemma parse_duration_nonneg: "parse_duration v = Inr d \<Longrightarrow> \<not> py_less d (Finite 0)"
  by (auto simp: parse_duration_def duration_of_def Let_def split: if_splits option.splits prod.splits)

lemma parse_duration_unit:
  assumes "int n * m < 2 ^ 53" "(u, m) \<in> set units"
  shows "parse_duration (nat_str n @ u) = Inr (Finite (of_int (int n * m)))"
proof -
  let ?s = "nat_str n"
  have s: "list_all is_digit ?s" "?s \<noteq> []" "dec_val ?s = int n" using nat_str_digits by auto
  note d = duration_suffix_units [OF s(1,2) assms(2)]
  have "int n * 1 \<le> int n * m" using d(3) by (intro mult_left_mono) auto
  then have n: "to_float (of_int (int n)) = Finite (of_int (int n))" and
    nm: "to_float (of_int (int n * m)) = Finite (of_int (int n * m))"
    using assms d(3) by (intro to_float_int; simp)+
  moreover have "\<not> rat_of_nat n * rat_of_int m < 0" using d(3) by (simp add: not_less)
  ultimately show ?thesis using d s by (simp add: parse_duration_def Let_def duration_of_def parse_float_digits)
qed



end
