(* ===== verification/Port_Sweep.thy ===== *)
theory Port_Sweep
  imports Durations "HOL-Library.List_Lexorder" "HOL-Library.Multiset"
begin

text \<open>
  The port sweep (\<open>src/scripts/port-sweep.py\<close>): its profiles and port arguments, and the loop that probes every
  target and port in cycles, with its records and markers. Sockets and the clock are given from outside, so that the sleep between
  probes is only computed; the progress lines are not modelled, and instants are real numbers. Targets, the command line
  and \<open>main\<close> are in \<open>Sweep_Setup\<close>.
\<close>

section \<open>Arguments\<close>

text \<open>The traffic profiles (a rate is the literal's exact value) and the named groups of ports.\<close>

record traffic_profile =
  pr_ports :: "int list"
  pr_rate :: rat
  pr_duration_seconds :: rat
  pr_label :: string
  pr_description :: string

definition sweep_ports :: "int list" where
  "sweep_ports = [20, 21, 22, 23, 25, 53, 80, 110, 135, 139, 143, 389, 443, 445, 465, 587, 993, 995, 1433, 1883, 2323, 3306,
     3389, 5432, 5683, 5900, 5985, 5986, 6379, 8080, 8443, 9200, 11211, 27017]"

definition PROFILES :: "(string \<times> traffic_profile) list" where
  "PROFILES =
     [(''negative'', \<lparr>pr_ports = [80, 443], pr_rate = 1 / 2, pr_duration_seconds = 300, pr_label = ''benign_low_port_activity'',
        pr_description = ''Low-volume normal web-like traffic for false-positive checks.''\<rparr>),
      (''borderline'', \<lparr>pr_ports = [22, 80, 443, 8080, 8443], pr_rate = 1, pr_duration_seconds = 300,
        pr_label = ''borderline_port_sweep'', pr_description = ''Near the port_churn threshold; useful for boundary checks.''\<rparr>),
      (''positive'', \<lparr>pr_ports = sweep_ports, pr_rate = 6, pr_duration_seconds = 300, pr_label = ''attack_port_sweep'',
        pr_description = ''Sustained diverse port sweep intended to trigger port_churn and ML port-diversity features.''\<rparr>),
      (''slow'', \<lparr>pr_ports = [22, 23, 25, 80, 443, 8080, 8443, 3389, 5900, 6379, 27017, 5432, 3306, 1433, 9200, 11211],
        pr_rate = 1 / 5, pr_duration_seconds = 900, pr_label = ''slow_port_sweep'',
        pr_description = ''Same signal as positive, spread over time to test bucket sensitivity.''\<rparr>),
      (''aggressive'', \<lparr>pr_ports = sweep_ports, pr_rate = 10, pr_duration_seconds = 300, pr_label = ''aggressive_port_sweep'',
        pr_description = ''High-diversity, high-rate sweep for strong model/heuristic response.''\<rparr>)]"

definition PORT_GROUPS :: "(string \<times> int list) list" where
  "PORT_GROUPS =
     [(''web'', [80, 443, 8080, 8443]),
      (''iot'', [23, 2323, 1883, 5683, 554, 1900, 5353]),
      (''admin'', [22, 23, 3389, 5900, 5985, 5986]),
      (''db'', [1433, 3306, 5432, 6379, 9200, 11211, 27017]),
      (''common'', [20, 21, 22, 23, 25, 53, 80, 110, 135, 139, 143, 389, 443, 445, 993, 995])]"

definition DISCOVERY_PORTS :: "int list" where
  "DISCOVERY_PORTS = [22, 23, 53, 80, 443, 554, 1883, 2323, 8080, 8443]"

datatype sweep_error =
    Unknown_profile string
  | Unknown_port string
  | Port_out_of_range int
  | No_ports
  | No_targets
  | Api_unreachable
  | Bad_api_response
  | Unreadable_file
  | Bad_network
  | Bad_host string
  | Overflow
  | Bad_argument string

fun collect_ports :: "string list \<Rightarrow> int list \<Rightarrow> sweep_error + int list" where
  "collect_ports [] ports = Inr ports"
| "collect_ports (w # ws) ports =
     (let token = lower (strip w) in
      if token = [] then collect_ports ws ports
      else case map_of PORT_GROUPS token of
             Some known \<Rightarrow> collect_ports ws (ports @ known)
           | None \<Rightarrow> (case parse_int token of
               None \<Rightarrow> Inl (Unknown_port token)
             | Some port \<Rightarrow> if \<not> (1 \<le> port \<and> port \<le> 65535) then Inl (Port_out_of_range port)
                 else collect_ports ws (ports @ [port])))"

definition parse_ports :: "string option \<Rightarrow> string \<Rightarrow> sweep_error + int list" where
  "parse_ports value profile =
     (case value of
        Some v \<Rightarrow>
          if v = [] then (case map_of PROFILES profile of None \<Rightarrow> Inl (Unknown_profile profile) | Some p \<Rightarrow> Inr (pr_ports p))
          else (case collect_ports (split_on CHR '','' v) [] of Inl e \<Rightarrow> Inl e
            | Inr ports \<Rightarrow> let unique_ports = sort (remdups ports) in if unique_ports = [] then Inl No_ports else Inr unique_ports)
      | None \<Rightarrow> (case map_of PROFILES profile of None \<Rightarrow> Inl (Unknown_profile profile) | Some p \<Rightarrow> Inr (pr_ports p)))"

definition parse_discovery_ports :: "string option \<Rightarrow> sweep_error + int list" where
  "parse_discovery_ports value = (case value of
      None \<Rightarrow> Inr DISCOVERY_PORTS
    | Some v \<Rightarrow> if v = [] then Inr DISCOVERY_PORTS else parse_ports value ''aggressive'')"

section \<open>The sweep\<close>

datatype outcome = Open | Refused | Timeout | Error | Unknown

text \<open>
  How an attempt to connect ends; a text is that of the exception. An exception that is no \<open>OSError\<close> gets out of the probe and of
  the program: the codec of host names raises a \<open>UnicodeError\<close> for a name with an empty or an overlong label.
\<close>

datatype attempt =
    Connected
  | Connection_refused string
  | Timed_out string
  | Os_failure string
  | Raises

text \<open>
  What happens meanwhile: the value of \<open>STOP_REQUESTED\<close> and of the clock at the \<open>n\<close>-th look at them, the end of the
  \<open>n\<close>-th attempt to connect and the seconds it took, and how the \<open>n\<close>-th cycle is shuffled.
\<close>

record sweep_env =
  stop_requested :: "nat \<Rightarrow> bool"
  monotonic :: "nat \<Rightarrow> real"
  connect :: "nat \<Rightarrow> string \<Rightarrow> int \<Rightarrow> attempt"
  elapsed :: "nat \<Rightarrow> py_float"
  shuffle :: "nat \<Rightarrow> (string \<times> int) list \<Rightarrow> (string \<times> int) list"

text \<open>The record of a probe, and the markers; both without time stamps.\<close>

record probe_record =
  pb_target :: string
  pb_port :: int
  pb_outcome :: outcome
  pb_duration_ms :: py_float
  pb_error :: "string option"

datatype sweep_marker =
    Run_start
  | Cycle_begin nat
  | Cycle_finish nat nat
  | Run_end bool nat

record sweep =
  looks :: nat
  cycle_count :: nat
  probe_count :: nat
  counts :: "outcome \<Rightarrow> nat"
  probes :: "probe_record list"
  markers :: "sweep_marker list"
  interrupted :: bool

definition past :: "sweep_env \<Rightarrow> real option \<Rightarrow> nat \<Rightarrow> bool" where
  "past env end_at n = (case end_at of None \<Rightarrow> False | Some e \<Rightarrow> e \<le> monotonic env n)"

fun outcome_of :: "attempt \<Rightarrow> (outcome \<times> string option) option" where
  "outcome_of Connected = Some (Open, None)"
| "outcome_of (Connection_refused e) = Some (Refused, Some e)"
| "outcome_of (Timed_out e) = Some (Timeout, Some e)"
| "outcome_of (Os_failure e) = Some (Error, Some e)"
| "outcome_of Raises = None"

definition connect_probe :: "sweep_env \<Rightarrow> nat \<Rightarrow> string \<Rightarrow> int \<Rightarrow> probe_record option" where
  "connect_probe env n t p =
     map_option (\<lambda>(result, err).
       \<lparr>pb_target = t, pb_port = p, pb_outcome = result, pb_duration_ms = py_round 3 (py_times (elapsed env n) (Finite 1000)),
        pb_error = (if err = Some [] then None else err)\<rparr>)
     (outcome_of (connect env n t p))"

text \<open>One probe of a cycle; \<^term>\<open>Inl\<close> is the exception that got out, with what had been done.\<close>

definition probe_one :: "sweep_env \<Rightarrow> string \<Rightarrow> int \<Rightarrow> sweep \<Rightarrow> (string \<times> sweep) + sweep" where
  "probe_one env t p s =
     (let s1 = s\<lparr>probe_count := probe_count s + 1\<rparr> in
      case connect_probe env (probe_count s) t p of None \<Rightarrow> Inl (t, s1)
      | Some r \<Rightarrow> Inr (s1\<lparr>counts := (counts s)(pb_outcome r := counts s (pb_outcome r) + 1), probes := probes s @ [r]\<rparr>))"

fun run_cycle :: "sweep_env \<Rightarrow> nat \<Rightarrow> real option \<Rightarrow> (string \<times> int) list \<Rightarrow> sweep \<Rightarrow> (string \<times> sweep) + sweep" where
  "run_cycle env n end_at [] s = Inr s"
| "run_cycle env n end_at ((t, p) # rest) s =
     (let i = looks s; s1 = s\<lparr>looks := i + 2\<rparr> in
      if stop_requested env i then Inr (s1\<lparr>interrupted := True\<rparr>)
      else if n < cycle_count s \<and> end_at \<noteq> None \<and> past env end_at (i + 1) then Inr s1
      else (case probe_one env t p s1 of Inl x \<Rightarrow> Inl x | Inr s2 \<Rightarrow> run_cycle env n end_at rest s2))"

text \<open>The body of the loop: the order of the cycle, its probes and its markers.\<close>

definition cycle_order :: "sweep_env \<Rightarrow> bool \<Rightarrow> (string \<times> int) list \<Rightarrow> sweep \<Rightarrow> (string \<times> int) list" where
  "cycle_order env rnd base s = (if rnd then shuffle env (cycle_count s) base else base)"

definition cycle_step ::
  "sweep_env \<Rightarrow> bool \<Rightarrow> nat \<Rightarrow> real option \<Rightarrow> (string \<times> int) list \<Rightarrow> sweep \<Rightarrow> (string \<times> sweep) + sweep" where
  "cycle_step env rnd n end_at base s =
     (let c = cycle_count s + 1; s1 = s\<lparr>cycle_count := c, markers := markers s @ [Cycle_begin c]\<rparr> in
      map_sum id (\<lambda>s2. s2\<lparr>markers := markers s2 @ [Cycle_finish c (probe_count s2)]\<rparr>)
        (run_cycle env n end_at (cycle_order env rnd base s) s1))"

partial_function (option) sweep_loop ::
  "sweep_env \<Rightarrow> bool \<Rightarrow> nat \<Rightarrow> real option \<Rightarrow> (string \<times> int) list \<Rightarrow> sweep \<Rightarrow> ((string \<times> sweep) + sweep) option" where
  "sweep_loop env rnd n end_at base s =
     (let i = looks s; s1 = s\<lparr>looks := i + 2\<rparr> in
      if stop_requested env i then Some (Inr s1)
      else if n \<le> cycle_count s \<and> (end_at = None \<or> past env end_at (i + 1)) then Some (Inr s1)
      else (case cycle_step env rnd n end_at base s1 of Inl x \<Rightarrow> Some (Inl x) | Inr s2 \<Rightarrow> sweep_loop env rnd n end_at base s2))"

declare sweep_loop.simps [code]

definition start_sweep :: sweep where
  "start_sweep = \<lparr>looks = 0, cycle_count = 0, probe_count = 0, counts = (\<lambda>_. 0), probes = [], markers = [Run_start], interrupted = False\<rparr>"

text \<open>
  The loop of \<open>main\<close>, its last look at the flag, the last marker and the exit code; or the target whose name raised, and what
  had been done when it did.
\<close>

datatype sweep_result =
    Broken_off string sweep
  | Ended sweep int

definition end_sweep :: "sweep_env \<Rightarrow> sweep \<Rightarrow> sweep_result" where
  "end_sweep env s =
     (let s1 = (if stop_requested env (looks s) then s\<lparr>interrupted := True\<rparr> else s);
          s2 = s1\<lparr>markers := markers s1 @ [Run_end (interrupted s1) (probe_count s1)]\<rparr>
      in Ended s2 (if interrupted s2 then 130 else 0))"

definition run_sweep :: "sweep_env \<Rightarrow> bool \<Rightarrow> nat \<Rightarrow> real option \<Rightarrow> string list \<Rightarrow> int list \<Rightarrow> sweep_result option" where
  "run_sweep env rnd n end_at targets ports =
     map_option (\<lambda>r. case r of Inl (t, s) \<Rightarrow> Broken_off t s | Inr s \<Rightarrow> end_sweep env s)
       (sweep_loop env rnd n end_at (concat (map (\<lambda>t. map (\<lambda>p. (t, p)) ports) targets)) start_sweep)"

section \<open>The sleep between two operations\<close>

text \<open>
  \<open>random.uniform(-spread, spread)\<close> for a random number from 0 up to 1, and the time slept around a delay: never negative, and not
  beyond the end of the run, if it has one. The emulator sleeps the same way between its cycles.
\<close>

definition uniform :: "py_float \<Rightarrow> py_float \<Rightarrow> rat \<Rightarrow> py_float" where
  "uniform a b u = py_plus a (py_times (py_minus b a) (Finite u))"

definition py_min :: "py_float \<Rightarrow> py_float \<Rightarrow> py_float" where
  "py_min a b = (if py_less b a then b else a)"

definition sleep_for :: "py_float \<Rightarrow> py_float \<Rightarrow> rat \<Rightarrow> py_float option \<Rightarrow> py_float" where
  "sleep_for delay jitter u remaining =
     (let spread = py_times delay jitter; slept = py_max (Finite 0) (py_plus delay (uniform (py_neg spread) spread u))
      in case remaining of None \<Rightarrow> slept | Some r \<Rightarrow> py_min slept (py_max (Finite 0) r))"

section \<open>Ports\<close>

text \<open>The ports one word of the argument stands for.\<close>

definition token_ports :: "string \<Rightarrow> int list option" where
  "token_ports w = (let token = lower (strip w) in
     if token = [] then Some [] else case map_of PORT_GROUPS token of Some known \<Rightarrow> Some known
     | None \<Rightarrow> (case parse_int token of None \<Rightarrow> None | Some p \<Rightarrow> if 1 \<le> p \<and> p \<le> 65535 then Some [p] else None))"

lemma collect_ports_step:
  "token_ports w = Some q \<Longrightarrow> collect_ports (w # ws) acc = collect_ports ws (acc @ q)"
  "token_ports w = None \<Longrightarrow> \<exists>e. collect_ports (w # ws) acc = Inl e"
  by (auto simp: token_ports_def Let_def split: if_splits option.splits)

lemma collect_ports_iff:
  "collect_ports ws acc = Inr ps \<longleftrightarrow> list_all (\<lambda>w. token_ports w \<noteq> None) ws \<and> ps = acc @ concat (map (the \<circ> token_ports) ws)"
proof (induction ws arbitrary: acc)
  case (Cons w ws)
  then show ?case
    using collect_ports_step(1) [of w _ ws acc] collect_ports_step(2) [of w ws acc] by (cases "token_ports w") (auto simp del: collect_ports.simps)
qed auto

lemma sort_Nil: "sort xs = [] \<longleftrightarrow> xs = []" for xs :: "int list"
  by (metis length_0_conv length_sort)

lemma known_ports: "list_all (\<lambda>(_, ps). list_all (\<lambda>p. 1 \<le> p \<and> p \<le> 65535) ps) PORT_GROUPS"
  "list_all (\<lambda>ps. ps \<noteq> [] \<and> distinct ps \<and> list_all (\<lambda>p. 1 \<le> p \<and> p \<le> 65535) ps) (map (pr_ports \<circ> snd) PROFILES)"
  by code_simp (simp add: PROFILES_def sweep_ports_def)

lemma token_ports_range: "token_ports w = Some ps \<Longrightarrow> p \<in> set ps \<Longrightarrow> 1 \<le> p \<and> p \<le> 65535"
  using known_ports(1) by (auto simp: token_ports_def Let_def list_all_iff split: if_splits option.splits dest!: map_of_SomeD)

text \<open>
  The ports to probe. An argument is accepted exactly when every word of it is blank, a group or a
  number from 1 to 65535 and some port is named; the result is then the ports named, each once and in
  order. Without one, the ports are those of the profile. Either way there is a port and every port is valid.
\<close>

theorem parse_ports_valid:
  "(\<forall>v. v \<noteq> [] \<longrightarrow> (let ws = split_on CHR '','' v in
      case parse_ports (Some v) prof of
        Inr ps \<Rightarrow> list_all (\<lambda>w. token_ports w \<noteq> None) ws \<and> sorted ps \<and> set ps = set (concat (map (the \<circ> token_ports) ws))
      | Inl e \<Rightarrow> \<not> list_all (\<lambda>w. token_ports w \<noteq> None) ws \<or> concat (map (the \<circ> token_ports) ws) = [])) \<and>
   (\<forall>arg ps. parse_ports arg prof = Inr ps \<longrightarrow> ps \<noteq> [] \<and> distinct ps \<and> list_all (\<lambda>p. 1 \<le> p \<and> p \<le> 65535) ps)"
proof -
  have collected: "case parse_ports (Some v) prof of
        Inr ps \<Rightarrow> list_all (\<lambda>w. token_ports w \<noteq> None) ws \<and> sorted ps \<and> distinct ps \<and> ps \<noteq> [] \<and> set ps = set (concat (map (the \<circ> token_ports) ws))
      | Inl e \<Rightarrow> \<not> list_all (\<lambda>w. token_ports w \<noteq> None) ws \<or> concat (map (the \<circ> token_ports) ws) = []"
    if "v \<noteq> []" "ws = split_on CHR '','' v" for v ws
  proof (cases "collect_ports ws []")
    case (Inl e)
    then have "\<not> list_all (\<lambda>w. token_ports w \<noteq> None) ws" using collect_ports_iff [of ws "[]"] by auto
    then show ?thesis using that Inl by (simp add: parse_ports_def)
  next
    case (Inr ps)
    then have "list_all (\<lambda>w. token_ports w \<noteq> None) ws" "ps = concat (map (the \<circ> token_ports) ws)"
      by (simp_all add: collect_ports_iff)
    then show ?thesis using that Inr by (simp add: parse_ports_def Let_def sort_Nil)
  qed
  have range: "1 \<le> p \<and> p \<le> 65535" if "list_all (\<lambda>w. token_ports w \<noteq> None) ws" "p \<in> set (concat (map (the \<circ> token_ports) ws))" for p ws
    using that token_ports_range by (fastforce simp: list_all_iff)
  have prof: "ps \<noteq> [] \<and> distinct ps \<and> list_all (\<lambda>p. 1 \<le> p \<and> p \<le> 65535) ps" if "map_of PROFILES prof = Some pr" "ps = pr_ports pr" for ps pr
    using known_ports(2) map_of_SomeD [OF that(1)] that(2) by (force simp: list_all_iff)
  have "ps \<noteq> [] \<and> distinct ps \<and> list_all (\<lambda>p. 1 \<le> p \<and> p \<le> 65535) ps" if p: "parse_ports arg prof = Inr ps" for arg ps
  proof (cases "\<exists>v. arg = Some v \<and> v \<noteq> []")
    case True
    then obtain v where v: "arg = Some v" "v \<noteq> []" by blast
    from collected [OF v(2) refl] p v(1) show ?thesis using range by (auto simp: list_all_iff)
  next
    case False
    then show ?thesis using p prof by (auto simp: parse_ports_def split: option.splits)
  qed
  moreover have "let ws = split_on CHR '','' v in
      case parse_ports (Some v) prof of
        Inr ps \<Rightarrow> list_all (\<lambda>w. token_ports w \<noteq> None) ws \<and> sorted ps \<and> set ps = set (concat (map (the \<circ> token_ports) ws))
      | Inl e \<Rightarrow> \<not> list_all (\<lambda>w. token_ports w \<noteq> None) ws \<or> concat (map (the \<circ> token_ports) ws) = []" if "v \<noteq> []" for v
    using collected [OF that refl] by (auto simp: Let_def split: sum.splits)
  ultimately show ?thesis by blast
qed

theorem parse_ports_valid_witness:
  "\<exists>ps. parse_ports (Some ''web, 22'') ''slow'' = Inr ps \<and> ps \<noteq> [] \<and> distinct ps \<and> sorted ps"
proof -
  have "parse_ports (Some ''web, 22'') ''slow'' = Inr [22, 80, 443, 8080, 8443]" by code_simp
  then show ?thesis using parse_ports_valid [of "''slow''"] by (auto simp: Let_def)
qed

section \<open>What a sweep does\<close>

definition pair_of :: "probe_record \<Rightarrow> string \<times> int" where
  "pair_of x = (pb_target x, pb_port x)"

lemma connect_probe_cases:
  "connect_probe env n t p = None \<longleftrightarrow> connect env n t p = Raises"
  "connect_probe env n t p = Some r \<Longrightarrow> pair_of r = (t, p) \<and> pb_outcome r \<noteq> Unknown"
  by (cases "connect env n t p"; auto simp: connect_probe_def pair_of_def)+

text \<open>The counters agree with the probes made, and every cycle has its two markers.\<close>

definition tallied :: "sweep \<Rightarrow> bool" where
  "tallied s \<longleftrightarrow> probe_count s = length (probes s) \<and> (\<forall>r. counts s r = length (filter (\<lambda>x. pb_outcome x = r) (probes s))) \<and>
     counts s Unknown = 0"

fun cycle_markers :: "nat \<Rightarrow> nat list \<Rightarrow> sweep_marker list" where
  "cycle_markers c [] = []"
| "cycle_markers c (k # ks) = Cycle_begin c # Cycle_finish c k # cycle_markers (c + 1) ks"

lemma cycle_markers_append: "cycle_markers c (ks @ [k]) = cycle_markers c ks @ [Cycle_begin (c + length ks), Cycle_finish (c + length ks) k]"
  by (induction ks arbitrary: c) simp_all

definition marked :: "sweep \<Rightarrow> nat list \<Rightarrow> bool" where
  "marked s ks \<longleftrightarrow> markers s = Run_start # cycle_markers 1 ks \<and> length ks = cycle_count s \<and> sorted ks \<and> last (0 # ks) = probe_count s"

lemma probe_one_cases:
  "probe_one env t p s = Inr s' \<Longrightarrow> cycle_count s' = cycle_count s \<and> looks s' = looks s \<and> interrupted s' = interrupted s \<and>
     markers s' = markers s \<and> probe_count s' = probe_count s + 1 \<and> map pair_of (probes s') = map pair_of (probes s) @ [(t, p)]"
  "probe_one env t p s = Inl (t', s') \<Longrightarrow> t' = t \<and> connect env (probe_count s) t p = Raises \<and> markers s' = markers s \<and> probes s' = probes s"
  by (auto simp: probe_one_def Let_def connect_probe_cases split: option.splits)

lemma tallied_probe:
  assumes "tallied s" "probe_one env t p s = Inr s'"
  shows "tallied s'"
proof -
  obtain r where r: "connect_probe env (probe_count s) t p = Some r"
    "s' = s\<lparr>probe_count := probe_count s + 1, counts := (counts s)(pb_outcome r := counts s (pb_outcome r) + 1), probes := probes s @ [r]\<rparr>"
    using assms(2) by (auto simp: probe_one_def Let_def split: option.splits)
  with connect_probe_cases(2) [OF r(1)] assms(1) show ?thesis by (auto simp: tallied_def)
qed

lemma tallied_sum: "tallied s \<Longrightarrow> counts s Open + counts s Refused + counts s Timeout + counts s Error = probe_count s"
proof -
  have "length (filter (\<lambda>x. pb_outcome x = Open) xs) + length (filter (\<lambda>x. pb_outcome x = Refused) xs) +
      length (filter (\<lambda>x. pb_outcome x = Timeout) xs) + length (filter (\<lambda>x. pb_outcome x = Error) xs) +
      length (filter (\<lambda>x. pb_outcome x = Unknown) xs) = length xs" for xs
  proof (induction xs)
    case (Cons x xs)
    then show ?case by (cases "pb_outcome x") simp_all
  qed simp
  from this [of "probes s"] show "tallied s \<Longrightarrow> counts s Open + counts s Refused + counts s Timeout + counts s Error = probe_count s"
    unfolding tallied_def by (metis add.right_neutral)
qed

lemma tallied_update [simp]:
  "tallied (s\<lparr>looks := k\<rparr>) = tallied s" "tallied (s\<lparr>interrupted := b\<rparr>) = tallied s" "tallied (s\<lparr>cycle_count := c, markers := ms\<rparr>) = tallied s"
  "tallied (s\<lparr>markers := ms\<rparr>) = tallied s" "tallied (s\<lparr>looks := k, interrupted := b\<rparr>) = tallied s"
  by (simp_all add: tallied_def)

text \<open>Induction over the probes of a cycle: one leaves off at once, or probes and goes on.\<close>

lemma run_cycle_induct [consumes 0, case_names over stop raised step]:
  assumes over: "\<And>s. P [] s (Inr s)"
    and stop: "\<And>t p rest s b. b \<or> n < cycle_count s \<Longrightarrow>
      P ((t, p) # rest) s (Inr (s\<lparr>looks := looks s + 2, interrupted := b \<or> interrupted s\<rparr>))"
    and raised: "\<And>t p rest s x. probe_one env t p (s\<lparr>looks := looks s + 2\<rparr>) = Inl x \<Longrightarrow> P ((t, p) # rest) s (Inl x)"
    and step: "\<And>t p rest s s2 r. probe_one env t p (s\<lparr>looks := looks s + 2\<rparr>) = Inr s2 \<Longrightarrow> P rest s2 r \<Longrightarrow> P ((t, p) # rest) s r"
  shows "P seq s (run_cycle env n e seq s)"
proof (induction seq arbitrary: s)
  case (Cons x rest)
  obtain t p where x: "x = (t, p)" by fastforce
  let ?s1 = "s\<lparr>looks := looks s + 2\<rparr>"
  consider "stop_requested env (looks s)" | "\<not> stop_requested env (looks s)" "n < cycle_count s \<and> e \<noteq> None \<and> past env e (looks s + 1)"
    | "\<not> stop_requested env (looks s)" "\<not> (n < cycle_count s \<and> e \<noteq> None \<and> past env e (looks s + 1))" by blast
  then show ?case
  proof cases
    case 1
    then show ?thesis using stop [of True s t p rest] by (simp add: x Let_def)
  next
    case 2
    then have "run_cycle env n e (x # rest) s = Inr (s\<lparr>looks := looks s + 2, interrupted := False \<or> interrupted s\<rparr>)" by (simp add: x Let_def)
    with 2 stop [of False s t p rest] show ?thesis by (simp add: x)
  next
    case 3
    then have r: "run_cycle env n e (x # rest) s = (case probe_one env t p ?s1 of Inl x \<Rightarrow> Inl x | Inr s2 \<Rightarrow> run_cycle env n e rest s2)"
      by (auto simp: x Let_def)
    then show ?thesis unfolding x using raised [of t p s _ rest] step [OF _ Cons.IH, of t p s] by (cases "probe_one env t p ?s1") simp_all
  qed
qed (simp add: over)

lemma run_cycle_frame:
  "case run_cycle env n e seq s of
     Inr s' \<Rightarrow> cycle_count s' = cycle_count s \<and> looks s \<le> looks s' \<and> markers s' = markers s \<and> probe_count s \<le> probe_count s' \<and>
       (interrupted s \<longrightarrow> interrupted s') \<and> (tallied s \<longrightarrow> tallied s') \<and>
       (\<exists>k. map pair_of (probes s') = map pair_of (probes s) @ take k seq \<and> (cycle_count s \<le> n \<and> \<not> interrupted s' \<longrightarrow> length seq \<le> k))
   | Inl (t, s') \<Rightarrow> markers s' = markers s \<and> (\<exists>i p. (t, p) \<in> set seq \<and> connect env i t p = Raises) \<and>
       (\<exists>k. map pair_of (probes s') = map pair_of (probes s) @ take k seq)"
proof (induction rule: run_cycle_induct)
  case (stop t p rest s b)
  then show ?case by (auto intro!: exI [of _ 0])
next
  case (raised t p rest s x)
  obtain t' s' where x: "x = (t', s')" by fastforce
  from probe_one_cases(2) [OF raised [unfolded x]] have "t' = t" "connect env (probe_count s) t p = Raises" "markers s' = markers s"
    "map pair_of (probes s') = map pair_of (probes s) @ take 0 ((t, p) # rest)" by simp_all
  then show ?case unfolding x sum.case prod.case by (metis list.set_intros(1))
next
  case (step t p rest s s2 r)
  note q = probe_one_cases(1) [OF step.hyps(1)] and tl = tallied_probe [OF _ step.hyps(1)]
  show ?case
  proof (cases r)
    case (Inl x)
    obtain t' s' where x: "x = (t', s')" by fastforce
    from step.IH Inl x q obtain k where "markers s' = markers s" "\<exists>i p'. (t', p') \<in> set rest \<and> connect env i t' p' = Raises"
      "map pair_of (probes s') = map pair_of (probes s) @ take (Suc k) ((t, p) # rest)" by auto
    then show ?thesis unfolding Inl x sum.case prod.case by fastforce
  next
    case (Inr s')
    from step.IH Inr q obtain k where
      "map pair_of (probes s') = map pair_of (probes s) @ take (Suc k) ((t, p) # rest) \<and> (cycle_count s \<le> n \<and> \<not> interrupted s' \<longrightarrow> length ((t, p) # rest) \<le> Suc k)"
      by auto
    moreover from step.IH Inr q tl have "cycle_count s' = cycle_count s" "looks s \<le> looks s'" "markers s' = markers s"
      "probe_count s \<le> probe_count s'" "interrupted s \<longrightarrow> interrupted s'" "tallied s \<longrightarrow> tallied s'" by auto
    ultimately show ?thesis unfolding Inr sum.case by blast
  qed
qed (auto intro: exI [of _ 0])

text \<open>While nothing has interrupted it, each cycle up to the repetitions asked for has probed every pair.\<close>

definition covered :: "nat \<Rightarrow> (string \<times> int) list \<Rightarrow> sweep \<Rightarrow> bool" where
  "covered n base s \<longleftrightarrow> tallied s \<and> (\<exists>ks. marked s ks) \<and> set (map pair_of (probes s)) \<subseteq> set base \<and>
     (interrupted s \<or> (\<forall>x. min n (cycle_count s) * count_list base x \<le> count_list (map pair_of (probes s)) x))"

definition broken :: "sweep_env \<Rightarrow> (string \<times> int) list \<Rightarrow> string \<times> sweep \<Rightarrow> bool" where
  "broken env base x \<longleftrightarrow> (\<exists>i p. (fst x, p) \<in> set base \<and> connect env i (fst x) p = Raises) \<and>
     set (map pair_of (probes (snd x))) \<subseteq> set base \<and> (\<forall>b k. Run_end b k \<notin> set (markers (snd x)))"

lemma cycle_markers_no_end: "Run_end b k \<notin> set (cycle_markers c ks)"
  by (induction c ks rule: cycle_markers.induct) simp_all

lemma marked_step:
  assumes "marked s ks" "probe_count s \<le> probe_count s'" "cycle_count s' = cycle_count s + 1"
    "markers s' = markers s @ [Cycle_begin (cycle_count s + 1), Cycle_finish (cycle_count s + 1) (probe_count s')]"
  shows "marked s' (ks @ [probe_count s'])"
proof -
  have "x \<le> probe_count s'" if "x \<in> set ks" for x
  proof (cases ks rule: rev_cases)
    case (snoc ys z)
    with assms(1) that have "sorted (ys @ [z])" "x \<in> insert z (set ys)" "z = probe_count s" by (auto simp: marked_def)
    then show ?thesis using assms(2) by (auto simp: sorted_append)
  qed (use that in simp)
  then show ?thesis using assms by (auto simp: marked_def cycle_markers_append sorted_append)
qed

lemma count_list_mset: "mset xs = mset ys \<Longrightarrow> count_list xs x = count_list ys x"
  by (metis count_mset)

lemma cycle_step_result:
  assumes c: "covered n base s" and perm: "\<forall>i xs. mset (shuffle env i xs) = mset xs"
  shows "case cycle_step env rnd n e base (s\<lparr>looks := k\<rparr>) of
      Inl x \<Rightarrow> broken env base x
    | Inr s' \<Rightarrow> covered n base s' \<and> cycle_count s' = cycle_count s + 1 \<and> k \<le> looks s'"
proof -
  let ?seq = "cycle_order env rnd base (s\<lparr>looks := k\<rparr>)"
  let ?s1 = "s\<lparr>looks := k, cycle_count := cycle_count s + 1, markers := markers s @ [Cycle_begin (cycle_count s + 1)]\<rparr>"
  have m: "mset ?seq = mset base" using perm by (simp add: cycle_order_def)
  obtain ks where ks: "marked s ks" using c by (auto simp: covered_def)
  have old: "set (map pair_of (probes s)) \<subseteq> set base" "tallied s" using c by (auto simp: covered_def)
  have within: "set (take j ?seq) \<subseteq> set base" for j using mset_eq_setD [OF m] set_take_subset [of j ?seq] by simp
  note f = run_cycle_frame [where env = env and n = n and e = e and seq = ?seq and s = ?s1]
  show ?thesis
  proof (cases "run_cycle env n e ?seq ?s1")
    case (Inl x)
    obtain t s' where x: "x = (t, s')" by fastforce
    from f [unfolded Inl x sum.case prod.case] obtain i p j where r: "markers s' = markers s @ [Cycle_begin (cycle_count s + 1)]"
      "(t, p) \<in> set ?seq" "connect env i t p = Raises" "map pair_of (probes s') = map pair_of (probes s) @ take j ?seq" by auto
    have "set (map pair_of (probes s')) \<subseteq> set base" using old(1) within [of j] unfolding r(4) by simp
    moreover have "(t, p) \<in> set base" using r(2) mset_eq_setD [OF m] by simp
    moreover have "Run_end b q \<notin> set (markers s')" for b q using r(1) ks cycle_markers_no_end by (simp add: marked_def)
    ultimately have "broken env base x" using r(3) by (auto simp: broken_def x)
    then show ?thesis using Inl by (simp add: cycle_step_def Let_def)
  next
    case (Inr s2)
    from f [unfolded Inr sum.case] obtain j where r: "cycle_count s2 = cycle_count s + 1" "k \<le> looks s2"
      "markers s2 = markers s @ [Cycle_begin (cycle_count s + 1)]" "probe_count s \<le> probe_count s2" "interrupted s \<longrightarrow> interrupted s2"
      "tallied ?s1 \<longrightarrow> tallied s2" "map pair_of (probes s2) = map pair_of (probes s) @ take j ?seq"
      "cycle_count s + 1 \<le> n \<and> \<not> interrupted s2 \<longrightarrow> length ?seq \<le> j" by auto
    let ?s3 = "s2\<lparr>markers := markers s2 @ [Cycle_finish (cycle_count s + 1) (probe_count s2)]\<rparr>"
    have "tallied ?s1 = tallied s" by (simp add: tallied_def)
    then have t: "tallied ?s3" using r(6) old(2) by simp
    have "marked ?s3 (ks @ [probe_count ?s3])" using marked_step [OF ks, of ?s3] r(1,3,4) by simp
    moreover have "set (map pair_of (probes ?s3)) \<subseteq> set base" using old(1) within [of j] r(7) by simp
    moreover have "min n (cycle_count s + 1) * count_list base x \<le> count_list (map pair_of (probes s2)) x" if "\<not> interrupted s2" for x
    proof -
      have old: "min n (cycle_count s) * count_list base x \<le> count_list (map pair_of (probes s)) x"
        using c r(5) that unfolding covered_def by blast
      show ?thesis
      proof (cases "cycle_count s + 1 \<le> n")
        case True
        then have "take j ?seq = ?seq" using r(8) that by simp
        then have "count_list (map pair_of (probes s2)) x = count_list (map pair_of (probes s)) x + count_list base x"
          by (simp only: r(7) count_list_append count_list_mset [OF m])
        then show ?thesis using old True by (simp add: min_absorb2)
      next
        case False
        then have "min n (cycle_count s + 1) = min n (cycle_count s)" by simp
        then show ?thesis using old by (simp only: r(7) count_list_append trans_le_add1)
      qed
    qed
    ultimately have "covered n base ?s3" using t r(1) by (auto simp: covered_def)
    then show ?thesis using Inr r(1,2) by (simp add: cycle_step_def Let_def)
  qed
qed

text \<open>The loop ends, and what holds at the start of every cycle holds where it ends.\<close>

lemma sweep_loop_result:
  assumes perm: "\<forall>i xs. mset (shuffle env i xs) = mset xs"
    and ends: "e = None \<or> (\<forall>i \<ge> N. past env e i) \<or> (\<forall>i \<ge> N. stop_requested env i)"
  shows "covered n base s \<Longrightarrow> \<exists>r. sweep_loop env rnd n e base s = Some r \<and>
    (case r of Inl x \<Rightarrow> broken env base x
     | Inr s' \<Rightarrow> \<exists>s0. covered n base s0 \<and> s' = s0\<lparr>looks := looks s0 + 2\<rparr> \<and> (stop_requested env (looks s0) \<or> n \<le> cycle_count s0))"
proof (induction "(N - looks s) + (n - cycle_count s)" arbitrary: s rule: less_induct)
  case less
  let ?r = "cycle_step env rnd n e base (s\<lparr>looks := looks s + 2\<rparr>)"
  show ?case
  proof (cases "stop_requested env (looks s) \<or> n \<le> cycle_count s \<and> (e = None \<or> past env e (looks s + 1))")
    case True
    then have "sweep_loop env rnd n e base s = Some (Inr (s\<lparr>looks := looks s + 2\<rparr>))"
      by (auto simp: sweep_loop.simps [of env rnd n e base s] Let_def)
    then show ?thesis using True less.prems by auto
  next
    case False
    then have loop: "sweep_loop env rnd n e base s = (case ?r of Inl x \<Rightarrow> Some (Inl x) | Inr s2 \<Rightarrow> sweep_loop env rnd n e base s2)"
      by (auto simp: sweep_loop.simps [of env rnd n e base s] Let_def)
    note step = cycle_step_result [OF less.prems perm, where rnd = rnd and e = e and k = "looks s + 2"]
    show ?thesis
    proof (cases ?r)
      case (Inl x)
      with loop step show ?thesis by simp
    next
      case (Inr s2)
      have "cycle_count s < n \<or> looks s < N"
      proof (rule ccontr)
        assume "\<not> (cycle_count s < n \<or> looks s < N)"
        with False ends show False by auto
      qed
      moreover have "cycle_count s2 = cycle_count s + 1" "looks s + 2 \<le> looks s2" "covered n base s2" using step Inr by simp_all
      ultimately have "(N - looks s2) + (n - cycle_count s2) < (N - looks s) + (n - cycle_count s)" "covered n base s2" by linarith+
      from less.hyps [OF this] loop Inr show ?thesis by simp
    qed
  qed
qed

text \<open>
  C22: what a run of the sweep does. Once the end of its duration has passed, or a stop is requested for good, or without a
  duration, it ends. It only ever connects to the targets and ports given. Unless the name of a target makes a probe raise, which
  leaves no last marker, its counters agree with the probes made and its markers are those of its cycles, in order, with the number of
  probes so far. When it exits with 0 nothing interrupted it, and every target and port was probed at least as many times as
  repetitions were asked for, shuffled or not; otherwise it exits with 130.
\<close>

theorem sweep_covers:
  assumes perm: "\<forall>i xs. mset (shuffle env i xs) = mset xs" and stop: "\<forall>i j. i \<le> j \<longrightarrow> stop_requested env i \<longrightarrow> stop_requested env j"
    and ends: "e = None \<or> (\<forall>i \<ge> N. past env e i) \<or> (\<forall>i \<ge> N. stop_requested env i)"
  shows "\<exists>r. run_sweep env rnd n e targets ports = Some r \<and>
    (case r of
      Broken_off t s \<Rightarrow> t \<in> set targets \<and> (\<exists>i p. connect env i t p = Raises) \<and> (\<forall>b k. Run_end b k \<notin> set (markers s)) \<and>
        (\<forall>x \<in> set (probes s). pb_target x \<in> set targets \<and> pb_port x \<in> set ports)
    | Ended s code \<Rightarrow> code = (if interrupted s then 130 else 0) \<and>
        (\<forall>x \<in> set (probes s). pb_target x \<in> set targets \<and> pb_port x \<in> set ports) \<and>
        probe_count s = length (probes s) \<and> counts s Open + counts s Refused + counts s Timeout + counts s Error = probe_count s \<and>
        (\<exists>ks. markers s = Run_start # cycle_markers 1 ks @ [Run_end (interrupted s) (probe_count s)] \<and>
           length ks = cycle_count s \<and> sorted ks \<and> last (0 # ks) = probe_count s) \<and>
        (\<not> interrupted s \<longrightarrow> n \<le> cycle_count s \<and> (\<forall>t \<in> set targets. \<forall>p \<in> set ports. n \<le> count_list (map pair_of (probes s)) (t, p))))"
proof -
  let ?base = "concat (map (\<lambda>t. map (\<lambda>p. (t, p)) ports) targets)"
  have inbase: "(t, p) \<in> set ?base \<longleftrightarrow> t \<in> set targets \<and> p \<in> set ports" for t p by auto
  have within: "pb_target x \<in> set targets \<and> pb_port x \<in> set ports" if "set (map pair_of xs) \<subseteq> set ?base" "x \<in> set xs" for xs x
  proof -
    have "pair_of x \<in> set (map pair_of xs)" using that(2) by simp
    with that(1) have "pair_of x \<in> set ?base" by (rule subsetD)
    then show ?thesis unfolding pair_of_def inbase .
  qed
  have "marked start_sweep []" by (simp add: marked_def start_sweep_def)
  then have "covered n ?base start_sweep" unfolding covered_def by (auto simp: tallied_def start_sweep_def)
  from sweep_loop_result [OF perm ends this] obtain r where r: "sweep_loop env rnd n e ?base start_sweep = Some r"
    "case r of Inl x \<Rightarrow> broken env ?base x
     | Inr s' \<Rightarrow> \<exists>s0. covered n ?base s0 \<and> s' = s0\<lparr>looks := looks s0 + 2\<rparr> \<and> (stop_requested env (looks s0) \<or> n \<le> cycle_count s0)" by blast
  show ?thesis
  proof (cases r)
    case (Inl x)
    have "broken env ?base x" using r(2) Inl by simp
    then have "fst x \<in> set targets" "\<exists>i p. connect env i (fst x) p = Raises" "\<forall>b k. Run_end b k \<notin> set (markers (snd x))"
      "set (map pair_of (probes (snd x))) \<subseteq> set ?base" unfolding broken_def inbase by blast+
    moreover have "run_sweep env rnd n e targets ports = Some (Broken_off (fst x) (snd x))"
      unfolding run_sweep_def r(1) Inl by (simp split: prod.split)
    ultimately show ?thesis using within by auto
  next
    case (Inr s1)
    from r(2) Inr obtain s0 where s0: "covered n ?base s0" "s1 = s0\<lparr>looks := looks s0 + 2\<rparr>" "stop_requested env (looks s0) \<or> n \<le> cycle_count s0" by auto
    define i where "i = (stop_requested env (looks s0 + 2) \<or> interrupted s0)"
    define s where "s = s0\<lparr>looks := looks s0 + 2, interrupted := i, markers := markers s0 @ [Run_end i (probe_count s0)]\<rparr>"
    have "end_sweep env s1 = Ended s (if i then 130 else 0)" by (simp add: end_sweep_def s0(2) s_def i_def Let_def)
    then have run: "run_sweep env rnd n e targets ports = Some (Ended s (if i then 130 else 0))" unfolding run_sweep_def r(1) Inr by simp
    have f: "interrupted s = i" "probes s = probes s0" "cycle_count s = cycle_count s0" "counts s = counts s0" "probe_count s = probe_count s0"
      "markers s = markers s0 @ [Run_end i (probe_count s0)]" by (simp_all add: s_def)
    have t: "tallied s0" using s0(1) by (simp add: covered_def)
    obtain ks where "marked s0 ks" using s0(1) by (auto simp: covered_def)
    then have ks: "markers s = Run_start # cycle_markers 1 ks @ [Run_end (interrupted s) (probe_count s)]" "length ks = cycle_count s" "sorted ks"
      "last (0 # ks) = probe_count s" using f by (simp_all add: marked_def)
    have quiet: "n \<le> cycle_count s0 \<and> n * count_list ?base x \<le> count_list (map pair_of (probes s0)) x" if "\<not> i" for x
    proof -
      have "\<not> stop_requested env (looks s0)" using stop [rule_format, of "looks s0" "looks s0 + 2"] that by (auto simp: i_def)
      then have "n \<le> cycle_count s0" using s0(3) by blast
      then show ?thesis using s0(1) that unfolding covered_def i_def by (metis min_absorb1)
    qed
    have each: "n \<le> count_list (map pair_of (probes s0)) (t, p)" if "\<not> i" "t \<in> set targets" "p \<in> set ports" for t p
    proof -
      have "(t, p) \<in> set ?base" using that(2,3) by auto
      then have "count_list ?base (t, p) \<noteq> 0" unfolding count_list_0_iff by blast
      then have "n \<le> n * count_list ?base (t, p)" by simp
      with quiet [OF that(1), of "(t, p)"] show ?thesis by linarith
    qed
    have w: "\<forall>x \<in> set (probes s). pb_target x \<in> set targets \<and> pb_port x \<in> set ports"
      using within [of "probes s0"] s0(1) unfolding f(2) covered_def by blast
    have q: "\<not> interrupted s \<longrightarrow> n \<le> cycle_count s \<and> (\<forall>t \<in> set targets. \<forall>p \<in> set ports. n \<le> count_list (map pair_of (probes s)) (t, p))"
      unfolding f(1-3) using quiet each by blast
    have n: "probe_count s = length (probes s)" "counts s Open + counts s Refused + counts s Timeout + counts s Error = probe_count s"
      using t tallied_sum [OF t] unfolding f(2,4,5) by (simp_all add: tallied_def)
    show ?thesis using run f(1) w n ks q by (intro exI [of _ "Ended s (if i then 130 else 0)"]) (simp only: sweep_result.case simp_thms, blast)
  qed
qed

definition ex_sweep_env :: sweep_env where
  "ex_sweep_env = \<lparr>stop_requested = (\<lambda>_. False), monotonic = real, connect = (\<lambda>_ _ _. Connection_refused ''refused''), elapsed = (\<lambda>_. Finite 0),
     shuffle = (\<lambda>_ xs. rev xs)\<rparr>"

theorem sweep_covers_witness:
  "\<exists>s. run_sweep ex_sweep_env True 2 None [''192.168.50.1''] [22, 80] = Some (Ended s 0) \<and>
     2 \<le> count_list (map pair_of (probes s)) (''192.168.50.1'', 80)"
proof -
  have "\<forall>i xs. mset (shuffle ex_sweep_env i xs) = mset xs"
    "\<forall>i j. i \<le> j \<longrightarrow> stop_requested ex_sweep_env i \<longrightarrow> stop_requested ex_sweep_env j"
    by (simp_all add: ex_sweep_env_def)
  note w = sweep_covers [OF this, of None _ True 2 "[''192.168.50.1'']" "[22, 80]"]
  have "map_option (\<lambda>r. case r of Broken_off t s \<Rightarrow> 1 | Ended s code \<Rightarrow> code) (run_sweep ex_sweep_env True 2 None [''192.168.50.1''] [22, 80]) = Some 0"
    by code_simp
  then obtain r where r: "run_sweep ex_sweep_env True 2 None [''192.168.50.1''] [22, 80] = Some r"
    "(case r of Broken_off t s \<Rightarrow> 1 | Ended s code \<Rightarrow> code) = 0" by auto
  then obtain s where s: "run_sweep ex_sweep_env True 2 None [''192.168.50.1''] [22, 80] = Some (Ended s 0)"
    by (cases r) auto
  with w have "0 = (if interrupted s then 130 else (0 :: int))"
    "\<not> interrupted s \<longrightarrow> 2 \<le> count_list (map pair_of (probes s)) (''192.168.50.1'', 80)" by auto
  with s show ?thesis by (auto split: if_splits)
qed

end
