(* ===== verification/Arg_Parser.thy ===== *)
theory Arg_Parser
  imports Durations
begin

text \<open>
  Command lines as \<open>argparse\<close> reads them for the parsers of the scripts: options with a value and flags, given in
  full, by an unambiguous prefix or as \<open>--option=value\<close>; there are no positional arguments. A parser is a table of
  options (whether each takes a value), a function that stores one value in the namespace, and the namespace of
  defaults. Every way \<open>argparse\<close> leaves the program is the one error \<open>Usage\<close>.
\<close>

section \<open>Words\<close>

type_synonym options = "(string \<times> bool) list"

datatype word_kind =
    Opt string "string option"
  | Arg
  | Bad

definition negative_number :: "string \<Rightarrow> bool" where
  "negative_number w =
     (case w of [] \<Rightarrow> False
      | c # cs \<Rightarrow> let ds = takeWhile is_digit cs; r = dropWhile is_digit cs in
          c = CHR ''-'' \<and> (ds \<noteq> [] \<and> r = [] \<or> (case r of [] \<Rightarrow> False | d # fs \<Rightarrow> d = CHR ''.'' \<and> fs \<noteq> [] \<and> list_all is_digit fs)))"

text \<open>The part of a word before its first \<open>=\<close>, and the part after it.\<close>

definition split_eq :: "string \<Rightarrow> string \<times> string option" where
  "split_eq w =
     (let name = takeWhile (\<lambda>c. c \<noteq> CHR ''='') w; r = dropWhile (\<lambda>c. c \<noteq> CHR ''='') w
      in (name, if r = [] then None else Some (tl r)))"

definition candidates :: "options \<Rightarrow> string \<Rightarrow> string list" where
  "candidates opts name =
     (if starts_with name ''--'' then filter (\<lambda>opt. starts_with opt name) (map fst opts)
      else filter (\<lambda>opt. opt = take 2 name \<or> starts_with opt name) (map fst opts))"

definition classify_word :: "options \<Rightarrow> string \<Rightarrow> word_kind" where
  "classify_word opts w =
     (if w = [] \<or> hd w \<noteq> CHR ''-'' then Arg
      else if map_of opts w \<noteq> None then Opt w None
      else if length w = 1 then Arg
      else let (name, explicit) = split_eq w in
        if explicit \<noteq> None \<and> map_of opts name \<noteq> None then Opt name explicit
        else (case candidates opts name of
            [opt] \<Rightarrow> Opt opt explicit
          | a # b # rest \<Rightarrow> Bad
          | [] \<Rightarrow> if negative_number w \<or> contains '' '' w then Arg else Bad))"

section \<open>Command lines\<close>

text \<open>
  The values given to options, in order, and whether the line was read to its end without a usage error. A word that
  belongs to no option is an error, but only after the rest of the line has been read.
\<close>

fun parse_words :: "options \<Rightarrow> string list \<Rightarrow> (string \<times> string) list \<times> bool" where
  "parse_words opts [] = ([], True)"
| "parse_words opts (w # ws) =
     (case classify_word opts w of
        Opt opt explicit \<Rightarrow>
          if opt = ''-h'' \<or> opt = ''--help'' then ([], False)
          else if map_of opts opt = Some True then
            (case explicit of
               Some v \<Rightarrow> (let (given, ok) = parse_words opts ws in ((opt, v) # given, ok))
             | None \<Rightarrow> (case ws of [] \<Rightarrow> ([], False)
                 | v # ws' \<Rightarrow> if classify_word opts v = Arg then (let (given, ok) = parse_words opts ws' in ((opt, v) # given, ok))
                     else ([], False)))
          else if explicit = None then (let (given, ok) = parse_words opts ws in ((opt, []) # given, ok))
          else ([], False)
      | _ \<Rightarrow> (fst (parse_words opts ws), False))"

fun store_all :: "(string \<Rightarrow> string \<Rightarrow> 'a \<Rightarrow> arg_error + 'a) \<Rightarrow> (string \<times> string) list \<Rightarrow> 'a \<Rightarrow> arg_error + 'a" where
  "store_all store [] args = Inr args"
| "store_all store ((opt, v) # given) args =
     (case store opt v args of Inl e \<Rightarrow> Inl e | Inr args' \<Rightarrow> store_all store given args')"

text \<open>\<open>argparse\<close> turns the errors it expects from a type into a usage error; any other exception gets through.\<close>

definition usage :: "arg_error + 'a \<Rightarrow> arg_error + 'a" where
  "usage r = (case r of Inl (Argument_type_error m) \<Rightarrow> Inl Usage | _ \<Rightarrow> r)"

definition parse_args :: "options \<Rightarrow> (string \<Rightarrow> string \<Rightarrow> 'a \<Rightarrow> arg_error + 'a) \<Rightarrow> 'a \<Rightarrow> string list \<Rightarrow> arg_error + 'a" where
  "parse_args opts store defaults words =
     (let (given, ok) = parse_words opts words in
      case usage (store_all store given defaults) of Inl e \<Rightarrow> Inl e | Inr args \<Rightarrow> if ok then Inr args else Inl Usage)"

text \<open>Reading a value of a type, or one of some choices.\<close>

definition typed :: "'v option \<Rightarrow> ('v \<Rightarrow> 'a) \<Rightarrow> arg_error + 'a" where
  "typed v f = (case v of None \<Rightarrow> Inl Usage | Some x \<Rightarrow> Inr (f x))"

definition choice :: "string list \<Rightarrow> string \<Rightarrow> 'a \<Rightarrow> arg_error + 'a" where
  "choice names v args = (if v \<in> set names then Inr args else Inl Usage)"

section \<open>Lines written out in full\<close>

text \<open>
  A line whose options are spelled in full, each followed by its value as a word of its own: what one script writes
  when it starts another.
\<close>

definition plain :: "string \<Rightarrow> bool" where
  "plain v \<longleftrightarrow> v = [] \<or> hd v \<noteq> CHR ''-''"

lemma classify_plain [simp]: "plain v \<Longrightarrow> classify_word opts v = Arg"
  by (auto simp: plain_def classify_word_def)

lemma plainI: "hd v \<noteq> CHR ''-'' \<Longrightarrow> plain v"
  by (simp add: plain_def)

lemma plain_append: "plain v \<Longrightarrow> v \<noteq> [] \<Longrightarrow> plain (v @ w)"
  by (simp add: plain_def)

definition value_option :: "options \<Rightarrow> string \<Rightarrow> bool" where
  "value_option opts w \<longleftrightarrow> map_of opts w = Some True \<and> w \<noteq> [] \<and> hd w = CHR ''-'' \<and> w \<noteq> ''-h'' \<and> w \<noteq> ''--help''"

definition flag_option :: "options \<Rightarrow> string \<Rightarrow> bool" where
  "flag_option opts w \<longleftrightarrow> map_of opts w = Some False \<and> w \<noteq> [] \<and> hd w = CHR ''-'' \<and> w \<noteq> ''-h'' \<and> w \<noteq> ''--help''"

lemma parse_value:
  "value_option opts w \<Longrightarrow> classify_word opts v = Arg \<Longrightarrow>
     parse_words opts (w # v # ws) = ((w, v) # fst (parse_words opts ws), snd (parse_words opts ws))"
  by (simp add: value_option_def classify_word_def split_beta)

lemma parse_flag:
  "flag_option opts w \<Longrightarrow>
     parse_words opts (w # ws) = ((w, []) # fst (parse_words opts ws), snd (parse_words opts ws))"
  by (simp add: flag_option_def classify_word_def split_beta)

text \<open>One option with its value, in front of a line.\<close>

lemma parse_store_value:
  assumes "value_option opts w" "classify_word opts v = Arg" "store w v args = Inr args'"
  shows "parse_args opts store args (w # v # ws) = parse_args opts store args' ws"
  using assms by (auto simp: parse_args_def parse_value split_beta simp del: parse_words.simps)

lemma parse_store_flag:
  assumes "flag_option opts w" "store w [] args = Inr args'"
  shows "parse_args opts store args (w # ws) = parse_args opts store args' ws"
  using assms by (auto simp: parse_args_def parse_flag split_beta simp del: parse_words.simps)

lemma parse_args_Nil: "parse_args opts store args [] = Inr args"
  by (simp add: parse_args_def usage_def)

lemma store_all_append:
  "store_all store (xs @ ys) args = (case store_all store xs args of Inl e \<Rightarrow> Inl e | Inr a \<Rightarrow> store_all store ys a)"
  by (induction store xs args rule: store_all.induct) (auto split: sum.splits)

text \<open>Lines that are read to their end can be put together.\<close>

lemma parse_words_append:
  "snd (parse_words opts xs) \<Longrightarrow>
     parse_words opts (xs @ ys) = (fst (parse_words opts xs) @ fst (parse_words opts ys), snd (parse_words opts ys))"
proof (induction opts xs rule: parse_words.induct)
  case (2 opts w ws)
  show ?case
  proof (cases "classify_word opts w")
    case (Opt opt explicit)
    with 2 show ?thesis by (auto simp: split_beta split: if_splits option.splits list.splits)
  qed (use 2 in \<open>auto simp: split_beta\<close>)
qed simp

section \<open>Numbers on a command line\<close>

lemma int_str_cases:
  obtains ds where "int_str k = ds" "list_all is_digit ds" "ds \<noteq> []" "dec_val ds = k"
  | ds where "int_str k = CHR ''-'' # ds" "list_all is_digit ds" "ds \<noteq> []" "dec_val ds = - k" "k < 0"
proof (cases "k < 0")
  case True
  with nat_str_digits [of "nat (- k)"] that(2) [of "nat_str (nat (- k))"] show thesis by (simp add: int_str_def)
next
  case False
  with nat_str_digits [of "nat k"] that(1) [of "nat_str (nat k)"] show thesis by (simp add: int_str_def)
qed

text \<open>A printed number is a value and not an option: no option looks like a negative number.\<close>

definition no_digit_options :: "options \<Rightarrow> bool" where
  "no_digit_options opts \<longleftrightarrow> list_all (\<lambda>(opt, _). 2 \<le> length opt \<and> \<not> is_digit (opt ! 1)) opts"

lemma classify_int_str:
  assumes "no_digit_options opts"
  shows "classify_word opts (int_str k) = Arg"
proof (rule int_str_cases [of k])
  fix ds
  assume "int_str k = ds" "list_all is_digit ds" "ds \<noteq> []"
  then show ?thesis using digit_facts(4) by (cases ds) (auto simp: classify_word_def)
next
  fix ds
  assume ds: "int_str k = CHR ''-'' # ds" "list_all is_digit ds" "ds \<noteq> []"
  then obtain d es where d: "ds = d # es" "is_digit d" by (cases ds) auto
  have eq: "takeWhile (\<lambda>c. c \<noteq> CHR ''='') ds = ds" "dropWhile (\<lambda>c. c \<noteq> CHR ''='') ds = []"
    using ds(2) by (auto simp: list_all_iff is_digit_def)
  have other: "opt \<noteq> CHR ''-'' # d # cs" if "opt \<in> fst ` set opts" for opt cs
    using assms d(2) that by (auto simp: no_digit_options_def list_all_iff)
  then have "map_of opts (CHR ''-'' # ds) = None" using d(1) by (auto simp: map_of_eq_None_iff)
  moreover have "candidates opts (CHR ''-'' # ds) = []"
  proof -
    have "\<not> starts_with opt (CHR ''-'' # ds)" if "opt \<in> fst ` set opts" for opt
      using other [OF that] d(1) by (metis append_Cons append_take_drop_id starts_with_def)
    moreover have "opt \<noteq> take 2 (CHR ''-'' # ds)" if "opt \<in> fst ` set opts" for opt
      using other [OF that, of "[]"] d(1) by simp
    moreover have "\<not> starts_with (CHR ''-'' # ds) ''--''" using d digit_facts(4) by (simp add: starts_with_def)
    ultimately show ?thesis by (auto simp: candidates_def filter_empty_conv)
  qed
  moreover have "negative_number (CHR ''-'' # ds)" using ds(2,3) by (simp add: negative_number_def digits_plain(3,4) [OF ds(2)] list_all_iff)
  ultimately show ?thesis using ds(3) by (simp add: ds(1) classify_word_def split_eq_def eq)
qed

lemma parse_int_str: "length (int_str k) \<le> 4300 \<Longrightarrow> parse_int (int_str k) = Some k"
proof -
  assume l: "length (int_str k) \<le> 4300"
  have one: "split_on CHR ''_'' ds = [ds]" if "list_all is_digit ds" for ds
    using that digit_facts(3) by (intro split_on_plain) (auto simp: list_all_iff)
  have minus: "strip (CHR ''-'' # ds) = CHR ''-'' # ds" if "list_all is_digit ds" for ds
    using digits_plain(1) [OF that] by (intro strip_plain) (simp add: is_space_def)
  show ?thesis
  proof (rule int_str_cases [of k])
    fix ds
    assume "int_str k = ds" "list_all is_digit ds" "ds \<noteq> []" "dec_val ds = k"
    with l one digits_plain [of ds] show ?thesis by (simp add: parse_int_def strip_plain)
  next
    fix ds
    assume "int_str k = CHR ''-'' # ds" "list_all is_digit ds" "ds \<noteq> []" "dec_val ds = - k"
    with l one minus show ?thesis by (simp add: parse_int_def split_sign_def)
  qed
qed

section \<open>Accepted lines\<close>

text \<open>What a line looks like that is read to its end, with the values it gives.\<close>

definition helps :: "string \<Rightarrow> bool" where
  "helps opt \<longleftrightarrow> opt = ''-h'' \<or> opt = ''--help''"

inductive reads :: "options \<Rightarrow> string list \<Rightarrow> (string \<times> string) list \<Rightarrow> bool" for opts where
  reads_end: "reads opts [] []"
| reads_joined: "classify_word opts w = Opt opt (Some v) \<Longrightarrow> \<not> helps opt \<Longrightarrow> map_of opts opt = Some True \<Longrightarrow> reads opts ws xs \<Longrightarrow>
    reads opts (w # ws) ((opt, v) # xs)"
| reads_value: "classify_word opts w = Opt opt None \<Longrightarrow> \<not> helps opt \<Longrightarrow> map_of opts opt = Some True \<Longrightarrow> classify_word opts v = Arg \<Longrightarrow>
    reads opts ws xs \<Longrightarrow> reads opts (w # v # ws) ((opt, v) # xs)"
| reads_flag: "classify_word opts w = Opt opt None \<Longrightarrow> \<not> helps opt \<Longrightarrow> map_of opts opt \<noteq> Some True \<Longrightarrow> reads opts ws xs \<Longrightarrow>
    reads opts (w # ws) ((opt, []) # xs)"

inductive_cases reads_NilE: "reads opts [] xs"
inductive_cases reads_ConsE: "reads opts (w # ws) xs"

lemma reads_parse: "reads opts ws xs \<Longrightarrow> parse_words opts ws = (xs, True)"
  by (induction rule: reads.induct) (simp_all add: helps_def)

lemma parse_reads: "snd (parse_words opts ws) \<Longrightarrow> reads opts ws (fst (parse_words opts ws))"
proof (induction opts ws rule: parse_words.induct)
  case (1 opts)
  show ?case by (simp add: reads_end)
next
  case (2 opts w ws)
  obtain opt e where o: "classify_word opts w = Opt opt e" using 2(6) by (cases "classify_word opts w") auto
  have h: "opt \<noteq> ''-h''" "opt \<noteq> ''--help''" using 2(6) o by (auto split: if_splits)
  show ?case
  proof (cases "map_of opts opt = Some True")
    case True
    show ?thesis
    proof (cases e)
      case (Some v)
      then have "parse_words opts (w # ws) = ((opt, v) # fst (parse_words opts ws), snd (parse_words opts ws))"
        using o h True by (simp add: split_beta)
      moreover from this have "reads opts ws (fst (parse_words opts ws))" using 2(2) [OF o _ True Some] h 2(6) by simp
      ultimately show ?thesis using reads_joined [of opts w opt v] o h True Some by (simp add: helps_def)
    next
      case None
      obtain v ws' where v: "ws = v # ws'" "classify_word opts v = Arg" using 2(6) o h True None by (auto split: list.splits if_splits)
      then have p: "parse_words opts (w # ws) = ((opt, v) # fst (parse_words opts ws'), snd (parse_words opts ws'))"
        using o h True None by (simp add: split_beta)
      moreover from this have "reads opts ws' (fst (parse_words opts ws'))" using 2(1) [OF o _ True None v] h 2(6) by simp
      ultimately show ?thesis using reads_value [of opts w opt v] o h True None v by (simp add: helps_def)
    qed
  next
    case False
    have e: "e = None" using 2(6) o h False by (auto split: if_splits)
    then have "parse_words opts (w # ws) = ((opt, []) # fst (parse_words opts ws), snd (parse_words opts ws))"
      using o h False by (simp add: split_beta)
    moreover from this have "reads opts ws (fst (parse_words opts ws))" using 2(3) [OF o _ False e] h 2(6) by simp
    ultimately show ?thesis using reads_flag [of opts w opt] o h False e by (simp add: helps_def)
  qed
qed

lemma reads_iff: "reads opts ws xs \<longleftrightarrow> parse_words opts ws = (xs, True)"
  using reads_parse parse_reads [of opts ws] by (metis fst_conv snd_conv)

lemma reads_given: "reads opts ws xs \<Longrightarrow> w \<in> set ws \<Longrightarrow> classify_word opts w = Opt opt e \<Longrightarrow> opt \<in> fst ` set xs"
  by (induction rule: reads.induct) auto

text \<open>Taking a flag out of a line that spells it in full takes it out of what was read.\<close>

lemma reads_without:
  assumes "flag_option opts d"
  shows "reads opts ws xs \<Longrightarrow> \<forall>w \<in> set ws. \<forall>e. classify_word opts w = Opt d e \<longrightarrow> w = d \<Longrightarrow>
    reads opts (filter (\<lambda>w. w \<noteq> d) ws) (filter (\<lambda>x. fst x \<noteq> d) xs)"
proof (induction rule: reads.induct)
  have d: "classify_word opts d = Opt d None" "map_of opts d = Some False" using assms by (simp_all add: flag_option_def classify_word_def)
  {
    case reads_end
    show ?case by (simp add: reads.reads_end)
  next
    case (reads_joined w opt v ws xs)
    then have "w \<noteq> d" "opt \<noteq> d" using d by auto
    with reads_joined show ?case by (auto intro: reads.reads_joined)
  next
    case (reads_value w opt v ws xs)
    then have "w \<noteq> d" "opt \<noteq> d" "v \<noteq> d" using d by auto
    with reads_value show ?case by (auto intro: reads.reads_value)
  next
    case (reads_flag w opt ws xs)
    then show ?case
    proof (cases "w = d")
      case True
      with reads_flag d show ?thesis by auto
    next
      case False
      then have "opt \<noteq> d" using reads_flag by auto
      with False reads_flag show ?thesis by (auto intro: reads.reads_flag)
    qed
  }
qed
lemma parse_args_append:
  assumes "reads opts xs vs" "store_all store vs a = Inr b"
  shows "parse_args opts store a (xs @ ys) = parse_args opts store b ys"
  using assms by (simp add: reads_iff parse_args_def parse_words_append split_beta store_all_append)

lemma parse_args_reads: "parse_args opts store a ws = Inr b \<longleftrightarrow> (\<exists>vs. reads opts ws vs \<and> store_all store vs a = Inr b)"
proof -
  have "parse_args opts store a ws = Inr b \<longleftrightarrow> snd (parse_words opts ws) \<and> store_all store (fst (parse_words opts ws)) a = Inr b"
    by (auto simp: parse_args_def usage_def split_beta split: sum.splits arg_error.splits if_splits)
  then show ?thesis unfolding reads_iff by (cases "parse_words opts ws") auto
qed

end
