(* ===== verification/Sweep_Setup.thy ===== *)
theory Sweep_Setup
  imports Port_Sweep Arg_Parser Ip_Address
begin

text \<open>
  The port sweep (\<open>src/scripts/port-sweep.py\<close>) up to its loop: lists of targets, the discovery of hosts in a subnet, the
  command line, the checks of \<open>main\<close> and the plan of the sweep, its files, and \<open>main\<close> itself. Files, the answer of the devices API,
  sockets and the time are given by a \<open>sweep_world\<close>; the address of the API, the seeding of random numbers and the JSON text are
  not modelled.
\<close>

section \<open>Lists of targets\<close>

fun clean_loop :: "string list \<Rightarrow> string list \<Rightarrow> string list" where
  "clean_loop [] cleaned = cleaned"
| "clean_loop (t # ts) cleaned =
     (let v = strip t in
      if v = [] \<or> v \<in> {''0.0.0.0'', ''::''} \<or> v \<in> set cleaned then clean_loop ts cleaned
      else clean_loop ts (cleaned @ [v]))"

definition clean_targets :: "string list \<Rightarrow> string list" where
  "clean_targets targets = clean_loop targets []"

text \<open>\<open>str(x or "")\<close>, where \<open>str_of\<close> is \<open>str()\<close> of a value that is not a string.\<close>

definition text_of :: "(json \<Rightarrow> string) \<Rightarrow> json option \<Rightarrow> string" where
  "text_of str_of v = (case v of None \<Rightarrow> []
     | Some j \<Rightarrow> if \<not> truthy j then [] else (case j of J_str s \<Rightarrow> s | _ \<Rightarrow> str_of j))"

definition api_targets :: "(json \<Rightarrow> string) \<Rightarrow> json \<Rightarrow> sweep_error + string list" where
  "api_targets str_of payload =
     (let devices = (case payload of J_obj d \<Rightarrow> (case map_of d ''devices'' of None \<Rightarrow> payload | Some v \<Rightarrow> v) | _ \<Rightarrow> payload) in
      case devices of
        J_list ds \<Rightarrow> Inr (clean_targets (List.map_filter (\<lambda>device. case device of
            J_obj d \<Rightarrow> (let ip = strip (text_of str_of (map_of d ''ip_address'')) in if ip = [] then None else Some ip)
          | _ \<Rightarrow> None) ds))
      | _ \<Rightarrow> Inl Bad_api_response)"

section \<open>Discovery\<close>

text \<open>\<open>ip_network(s, strict=False)\<close>: the address is masked, and a failure for IPv4 tries IPv6.\<close>

definition loose_network_of :: "version \<Rightarrow> (string \<Rightarrow> ip_addr option) \<Rightarrow> string \<Rightarrow> ip_net option" where
  "loose_network_of v parse s =
     (let build = (\<lambda>ad p. case ad of None \<Rightarrow> None | Some a \<Rightarrow> (case p of None \<Rightarrow> None
         | Some p \<Rightarrow> Some \<lparr>network_address = \<lparr>ip_version = v, ip_int = ip_int a AND netmask_int v p, scope_id = None\<rparr>, prefixlen = p\<rparr>)) in
      case split_on CHR ''/'' s of
        [ad] \<Rightarrow> build (parse ad) (Some (max_prefixlen v))
      | [ad, msk] \<Rightarrow> build (parse ad) (make_netmask v msk)
      | _ \<Rightarrow> None)"

definition loose_network :: "string \<Rightarrow> ip_net option" where
  "loose_network s = (case loose_network_of V4 ipv4_address s of Some n \<Rightarrow> Some n | None \<Rightarrow> loose_network_of V6 ipv6_address s)"

text \<open>\<open>network.hosts()\<close>, printed: without network and broadcast address, except in the smallest networks.\<close>

fun net_hosts :: "ip_net \<Rightarrow> string list" where
  "net_hosts net =
     (let n = ip_int (network_address net); p = prefixlen net in
      case ip_version (network_address net) of
        V4 \<Rightarrow> map v4_str (if p = 32 then [n] else if p = 31 then [n, n + 1] else [n + 1..n + 2 ^ (32 - p) - 2])
      | V6 \<Rightarrow> map v6_str (if p = 128 then [n] else if p = 127 then [n, n + 1] else [n + 1..n + 2 ^ (128 - p) - 1]))"

definition discovery_network :: "string \<Rightarrow> string \<Rightarrow> (ip_net \<times> string option) option" where
  "discovery_network local_ip value =
     (if lower (strip value) = ''auto''
      then (case split_on CHR ''.'' local_ip of
          a # b # c # _ \<Rightarrow> map_option (\<lambda>net. (net, Some local_ip)) (loose_network (join ''.'' [a, b, c, ''0/24'']))
        | _ \<Rightarrow> None)
      else map_option (\<lambda>net. (net, None)) (loose_network value))"

fun host_responds :: "(string \<Rightarrow> int \<Rightarrow> outcome) \<Rightarrow> string \<Rightarrow> int list \<Rightarrow> bool" where
  "host_responds answer host [] = False"
| "host_responds answer host (p # ps) = (case answer host p of
      Open \<Rightarrow> True | Refused \<Rightarrow> True | Timeout \<Rightarrow> host_responds answer host ps | _ \<Rightarrow> host_responds answer host ps)"

text \<open>
  The key by which hosts are sorted, \<^term>\<open>None\<close> where \<open>int\<close> raises, and the search itself. \<open>finish\<close> is the order in
  which the probes of the pool end.
\<close>

definition octets :: "string \<Rightarrow> int list option" where
  "octets ip = those (map parse_int (split_on CHR ''.'' ip))"

definition discover_targets ::
  "string \<Rightarrow> (string list \<Rightarrow> string list) \<Rightarrow> (string \<Rightarrow> int \<Rightarrow> outcome) \<Rightarrow> string \<Rightarrow> int list \<Rightarrow> bool \<Rightarrow> sweep_error + string list" where
  "discover_targets local_ip finish answer subnet ports exclude_self =
     (case discovery_network local_ip subnet of None \<Rightarrow> Inl Bad_network
      | Some (network, detected_self) \<Rightarrow>
          let self_ip = (if exclude_self then detected_self else None);
              hosts = filter (\<lambda>host. Some host \<noteq> self_ip) (net_hosts network);
              discovered = filter (\<lambda>host. host_responds answer host ports) (finish hosts)
          in case find (\<lambda>ip. octets ip = None) discovered of
               Some ip \<Rightarrow> Inl (Bad_host ip)
             | None \<Rightarrow> Inr (sort_key (\<lambda>ip. the (octets ip)) discovered))"

section \<open>Loading the targets\<close>

definition file_targets :: "string \<Rightarrow> string list" where
  "file_targets content = map strip (filter (\<lambda>line. strip line \<noteq> [] \<and> \<not> starts_with line ''#'') (splitlines content))"

record sweep_args =
  target :: string
  targets_file :: "string option"
  targets_api :: "string option"
  api_active_only :: bool
  discover_subnet :: "string option"
  discovery_ports :: "string option"
  discovery_include_self :: bool
  profile :: string
  ports_arg :: "string option"
  rate :: "py_float option"
  timeout :: py_float
  api_timeout :: py_float
  discovery_timeout :: py_float
  discovery_workers :: int
  duration :: "py_float option"
  repeat :: int
  jitter :: py_float
  randomize :: bool
  seed :: "int option"
  progress_every :: int
  dry_run :: bool
  label :: "string option"
  run_id :: "string option"
  out_dir :: string

definition given :: "string option \<Rightarrow> bool" where
  "given v = (case v of None \<Rightarrow> False | Some s \<Rightarrow> s \<noteq> [])"

text \<open>What a start reads: files, the answer of the API at an address, its own address, what its probes meet, the time and a new run id.\<close>

record sweep_world =
  w_file :: "string \<Rightarrow> string option"
  w_api :: "string \<Rightarrow> bool \<Rightarrow> json option"
  w_str :: "json \<Rightarrow> string"
  w_local_ip :: string
  w_finish :: "string list \<Rightarrow> string list"
  w_answer :: "string \<Rightarrow> int \<Rightarrow> outcome"
  w_now :: int
  w_fresh :: string

definition load_targets :: "sweep_world \<Rightarrow> sweep_args \<Rightarrow> sweep_error + string list" where
  "load_targets w args =
     (let found =
        (if given (targets_file args) then
           (case w_file w (the (targets_file args)) of None \<Rightarrow> Inl Unreadable_file | Some t \<Rightarrow> Inr (file_targets t))
         else if given (targets_api args) then
           (case w_api w (the (targets_api args)) (api_active_only args) of None \<Rightarrow> Inl Api_unreachable
            | Some payload \<Rightarrow> api_targets (w_str w) payload)
         else if given (discover_subnet args) then
           (case parse_discovery_ports (discovery_ports args) of Inl e \<Rightarrow> Inl e
            | Inr ports \<Rightarrow> discover_targets (w_local_ip w) (w_finish w) (w_answer w) (the (discover_subnet args)) ports
                (\<not> discovery_include_self args))
         else Inr [target args])
      in case found of Inl e \<Rightarrow> Inl e
         | Inr ts \<Rightarrow> let targets = clean_targets ts in if targets = [] then Inl No_targets else Inr targets)"

section \<open>The command line\<close>

text \<open>The parser, option by option.\<close>

definition sweep_options :: options where
  "sweep_options =
     [(''-h'', False), (''--help'', False), (''--target'', True), (''--targets-file'', True), (''--targets-api'', True),
      (''--api-active-only'', False), (''--api-timeout'', True), (''--discover-subnet'', True), (''--discovery-ports'', True),
      (''--discovery-timeout'', True), (''--discovery-workers'', True), (''--discovery-include-self'', False),
      (''--profile'', True), (''--ports'', True), (''--rate'', True), (''--timeout'', True), (''--duration'', True),
      (''--repeat'', True), (''--jitter'', True), (''--randomize'', False), (''--seed'', True), (''--progress-every'', True),
      (''--dry-run'', False), (''--label'', True), (''--run-id'', True), (''--out-dir'', True)]"

definition sweep_store :: "string \<Rightarrow> string \<Rightarrow> sweep_args \<Rightarrow> arg_error + sweep_args" where
  "sweep_store opt v a =
     (if opt = ''--target'' then Inr (a\<lparr>target := v\<rparr>)
      else if opt = ''--targets-file'' then Inr (a\<lparr>targets_file := Some v\<rparr>)
      else if opt = ''--targets-api'' then Inr (a\<lparr>targets_api := Some v\<rparr>)
      else if opt = ''--api-active-only'' then Inr (a\<lparr>api_active_only := True\<rparr>)
      else if opt = ''--api-timeout'' then typed (parse_float v) (\<lambda>x. a\<lparr>api_timeout := x\<rparr>)
      else if opt = ''--discover-subnet'' then Inr (a\<lparr>discover_subnet := Some v\<rparr>)
      else if opt = ''--discovery-ports'' then Inr (a\<lparr>discovery_ports := Some v\<rparr>)
      else if opt = ''--discovery-timeout'' then typed (parse_float v) (\<lambda>x. a\<lparr>discovery_timeout := x\<rparr>)
      else if opt = ''--discovery-workers'' then typed (parse_int v) (\<lambda>x. a\<lparr>discovery_workers := x\<rparr>)
      else if opt = ''--discovery-include-self'' then Inr (a\<lparr>discovery_include_self := True\<rparr>)
      else if opt = ''--profile'' then choice (map fst PROFILES) v (a\<lparr>profile := v\<rparr>)
      else if opt = ''--ports'' then Inr (a\<lparr>ports_arg := Some v\<rparr>)
      else if opt = ''--rate'' then typed (parse_float v) (\<lambda>x. a\<lparr>rate := Some x\<rparr>)
      else if opt = ''--timeout'' then typed (parse_float v) (\<lambda>x. a\<lparr>timeout := x\<rparr>)
      else if opt = ''--duration'' then map_sum id (\<lambda>x. a\<lparr>duration := Some x\<rparr>) (parse_duration v)
      else if opt = ''--repeat'' then typed (parse_int v) (\<lambda>x. a\<lparr>repeat := x\<rparr>)
      else if opt = ''--jitter'' then typed (parse_float v) (\<lambda>x. a\<lparr>jitter := x\<rparr>)
      else if opt = ''--randomize'' then Inr (a\<lparr>randomize := True\<rparr>)
      else if opt = ''--seed'' then typed (parse_int v) (\<lambda>x. a\<lparr>seed := Some x\<rparr>)
      else if opt = ''--progress-every'' then typed (parse_int v) (\<lambda>x. a\<lparr>progress_every := x\<rparr>)
      else if opt = ''--dry-run'' then Inr (a\<lparr>dry_run := True\<rparr>)
      else if opt = ''--label'' then Inr (a\<lparr>label := Some v\<rparr>)
      else if opt = ''--run-id'' then Inr (a\<lparr>run_id := Some v\<rparr>)
      else if opt = ''--out-dir'' then Inr (a\<lparr>out_dir := v\<rparr>)
      else Inl Usage)"

definition sweep_defaults :: sweep_args where
  "sweep_defaults =
     \<lparr>target = ''192.168.50.1'', targets_file = None, targets_api = None, api_active_only = False, discover_subnet = None,
      discovery_ports = None, discovery_include_self = False, profile = ''positive'', ports_arg = None, rate = None,
      timeout = Finite (3 / 4), api_timeout = Finite 5, discovery_timeout = to_float (1 / 5), discovery_workers = 64,
      duration = None, repeat = 1, jitter = to_float (1 / 10), randomize = False, seed = None, progress_every = 25,
      dry_run = False, label = None, run_id = None, out_dir = ''artifacts/port-sweep''\<rparr>"

text \<open>The checks at the start of \<open>main\<close>, in their order.\<close>

definition check_args :: "sweep_args \<Rightarrow> sweep_error option" where
  "check_args args =
     (if rate args \<noteq> None \<and> py_le (the (rate args)) (Finite 0) then Some (Bad_argument ''--rate'')
      else if py_le (timeout args) (Finite 0) then Some (Bad_argument ''--timeout'')
      else if py_le (api_timeout args) (Finite 0) then Some (Bad_argument ''--api-timeout'')
      else if py_le (discovery_timeout args) (Finite 0) then Some (Bad_argument ''--discovery-timeout'')
      else if discovery_workers args \<le> 0 then Some (Bad_argument ''--discovery-workers'')
      else if repeat args \<le> 0 then Some (Bad_argument ''--repeat'')
      else if 1 < length (filter given [targets_file args, targets_api args, discover_subnet args]) then Some (Bad_argument ''--targets-file'')
      else if duration args \<noteq> None \<and> py_less (the (duration args)) (Finite 0) then Some (Bad_argument ''--duration'')
      else if py_less (jitter args) (Finite 0) then Some (Bad_argument ''--jitter'')
      else if progress_every args < 0 then Some (Bad_argument ''--progress-every'') else None)"

section \<open>The plan of a sweep\<close>

text \<open>The instant the year 10000 starts, in microseconds: no \<open>datetime\<close> is that late.\<close>

definition max_instant :: int where
  "max_instant = 253402300800 * 1000000"

fun microseconds :: "py_float \<Rightarrow> int option" where
  "microseconds (Finite q) = Some (round_half_even (q * 1000000))"
| "microseconds _ = None"

record sweep_plan =
  pl_targets :: "string list"
  pl_ports :: "int list"
  pl_rate :: py_float
  pl_duration :: py_float
  pl_label :: string
  pl_target_source :: string
  pl_estimated_probe_count :: int
  pl_estimated_end :: "int option"
  pl_expected_signal :: string

text \<open>
  From the checks of \<open>main\<close> to the start of the sweep. \<open>int(duration * rate)\<close> raises when the product is infinite, and
  the sum of an instant and a duration when the result is too late.
\<close>

definition make_plan :: "sweep_world \<Rightarrow> sweep_args \<Rightarrow> sweep_error + sweep_plan" where
  "make_plan w args =
     (case check_args args of Some e \<Rightarrow> Inl e | None \<Rightarrow>
      case load_targets w args of Inl e \<Rightarrow> Inl e | Inr targets \<Rightarrow>
      case parse_ports (ports_arg args) (profile args) of Inl e \<Rightarrow> Inl e | Inr ports \<Rightarrow>
      case map_of PROFILES (profile args) of None \<Rightarrow> Inl (Unknown_profile (profile args)) | Some prof \<Rightarrow>
      let r = (case rate args of None \<Rightarrow> to_float (pr_rate prof) | Some x \<Rightarrow> if x = Finite 0 then to_float (pr_rate prof) else x);
          d = (case duration args of None \<Rightarrow> to_float (pr_duration_seconds prof) | Some x \<Rightarrow> x);
          lab = (if given (label args) then the (label args) else pr_label prof);
          timed = py_less (Finite 0) d;
          base_count = int (length targets * length ports) * repeat args;
          count = (if timed then map_option (max base_count) (py_int (py_times d r)) else Some base_count);
          end_at = (if timed then map_option (\<lambda>us. w_now w + us) (microseconds d) else None)
      in if count = None \<or> timed \<and> (case end_at of None \<Rightarrow> True | Some e \<Rightarrow> max_instant \<le> e) then Inl Overflow
         else Inr \<lparr>pl_targets = targets, pl_ports = ports, pl_rate = r, pl_duration = d, pl_label = lab,
           pl_target_source = (if given (discover_subnet args) then ''discovery'' else if given (targets_api args) then ''api''
             else if given (targets_file args) then ''file'' else ''single''),
           pl_estimated_probe_count = the count, pl_estimated_end = end_at,
           pl_expected_signal = (if profile args \<in> {''positive'', ''slow'', ''aggressive''} then ''port_churn'' else ''none_or_boundary'')\<rparr>)"

section \<open>The files of a run\<close>

text \<open>\<open>run.json\<close> and \<open>summary.json\<close>, without time stamps and notes.\<close>

record sweep_payload =
  rp_run_id :: string
  rp_label :: string
  rp_profile :: string
  rp_description :: string
  rp_targets :: "string list"
  rp_target_source :: string
  rp_discover_subnet :: "string option"
  rp_discovery_ports :: "int list option"
  rp_ports :: "int list"
  rp_target_count :: nat
  rp_port_count :: nat
  rp_estimated_probe_count :: int
  rp_rate_per_second :: py_float
  rp_duration_seconds :: py_float
  rp_timeout_seconds :: py_float
  rp_repeat :: int
  rp_jitter :: py_float
  rp_randomize :: bool
  rp_seed :: "int option"
  rp_progress_every :: int
  rp_estimated_end_at :: "int option"
  rp_dry_run :: bool
  rp_expected_signal :: string

text \<open>The ports of the discovery have been read once already, so that \<open>parse_discovery_ports\<close> does not raise here.\<close>

definition run_payload :: "string \<Rightarrow> sweep_args \<Rightarrow> sweep_plan \<Rightarrow> sweep_payload" where
  "run_payload fresh args plan =
     \<lparr>rp_run_id = (if given (run_id args) then the (run_id args) else fresh), rp_label = pl_label plan, rp_profile = profile args,
      rp_description = pr_description (the (map_of PROFILES (profile args))), rp_targets = pl_targets plan,
      rp_target_source = pl_target_source plan, rp_discover_subnet = discover_subnet args,
      rp_discovery_ports = (if given (discover_subnet args)
        then (case parse_discovery_ports (discovery_ports args) of Inl e \<Rightarrow> None | Inr ps \<Rightarrow> Some ps) else None),
      rp_ports = pl_ports plan, rp_target_count = length (pl_targets plan), rp_port_count = length (pl_ports plan),
      rp_estimated_probe_count = pl_estimated_probe_count plan, rp_rate_per_second = pl_rate plan,
      rp_duration_seconds = pl_duration plan, rp_timeout_seconds = timeout args, rp_repeat = repeat args, rp_jitter = jitter args,
      rp_randomize = randomize args, rp_seed = seed args, rp_progress_every = progress_every args,
      rp_estimated_end_at = pl_estimated_end plan, rp_dry_run = dry_run args, rp_expected_signal = pl_expected_signal plan\<rparr>"

record sweep_summary =
  sm_run_id :: string
  sm_label :: string
  sm_profile :: string
  sm_targets :: "string list"
  sm_ports :: "int list"
  sm_probe_count :: nat
  sm_cycle_count :: nat
  sm_duration_seconds :: py_float
  sm_interrupted :: bool
  sm_outcomes :: "outcome \<Rightarrow> nat"
  sm_expected_signal :: string

text \<open>A run that an exception breaks off writes no summary.\<close>

fun summary_of :: "sweep_payload \<Rightarrow> sweep_result \<Rightarrow> sweep_summary option" where
  "summary_of payload (Broken_off t s) = None"
| "summary_of payload (Ended s code) = Some
     \<lparr>sm_run_id = rp_run_id payload, sm_label = rp_label payload, sm_profile = rp_profile payload, sm_targets = rp_targets payload,
      sm_ports = rp_ports payload, sm_probe_count = probe_count s, sm_cycle_count = cycle_count s,
      sm_duration_seconds = rp_duration_seconds payload, sm_interrupted = interrupted s, sm_outcomes = counts s,
      sm_expected_signal = rp_expected_signal payload\<rparr>"

datatype sweep_exit =
    Exit_usage arg_error
  | Exit_error sweep_error
  | Exit_dry sweep_payload
  | Exit_run sweep_payload "(sweep_result \<times> sweep_summary option) option"

fun seconds :: "py_float \<Rightarrow> real" where
  "seconds (Finite q) = of_rat q"
| "seconds _ = 0"

definition sweep_main :: "sweep_world \<Rightarrow> sweep_env \<Rightarrow> real \<Rightarrow> string list \<Rightarrow> sweep_exit" where
  "sweep_main w env started words =
     (case parse_args sweep_options sweep_store sweep_defaults words of Inl e \<Rightarrow> Exit_usage e | Inr args \<Rightarrow>
      case make_plan w args of Inl e \<Rightarrow> Exit_error e | Inr plan \<Rightarrow>
      let payload = run_payload (w_fresh w) args plan in
      if dry_run args then Exit_dry payload
      else Exit_run payload (map_option (\<lambda>r. (r, summary_of payload r))
        (run_sweep env (randomize args) (nat (repeat args))
          (if py_less (Finite 0) (pl_duration plan) then Some (started + seconds (pl_duration plan)) else None)
          (pl_targets plan) (pl_ports plan))))"

lemma parsed_discovery_ports:
  assumes "make_plan w args = Inr plan" and "given (discover_subnet args)"
  shows "\<exists>ps. parse_discovery_ports (discovery_ports args) = Inr ps"
proof -
  have "check_args args = None" using assms(1) by (auto simp: make_plan_def split: option.splits)
  then have "length (filter given [targets_file args, targets_api args, discover_subnet args]) \<le> 1"
    by (auto simp: check_args_def split: if_splits)
  then have n: "\<not> given (targets_file args)" "\<not> given (targets_api args)" using assms(2) by (auto split: if_splits)
  obtain ts where "load_targets w args = Inr ts" using assms(1) by (auto simp: make_plan_def split: option.splits sum.splits)
  then show ?thesis using n assms(2) by (auto simp: load_targets_def Let_def split: sum.splits)
qed

end
