(* ===== verification/Float_Bounds.thy ===== *)
theory Float_Bounds
  imports Durations
begin

text \<open>
  Facts on the rounding of doubles (\<open>to_float\<close> of \<open>Durations\<close>): its exponent is monotone, a double is rounded to itself, and
  rounding never crosses a double. They carry the bounds of the rates a backtest reports.
\<close>

section \<open>Exponents\<close>

lemma pow2_powi: "pow2 e = 2 powi e"
  by (auto simp: pow2_def power_int_def field_simps)

lemma pow2_add: "pow2 (a + b) = pow2 a * pow2 b"
  by (simp add: pow2_powi power_int_add)

lemma pow2_mono: "pow2 a \<le> pow2 b \<longleftrightarrow> a \<le> b" "pow2 a < pow2 b \<longleftrightarrow> a < b"
proof -
  have less: "pow2 a < pow2 b" if "a < b" for a b
    using power_int_strict_increasing [OF that, of "2 :: rat"] by (simp add: pow2_powi)
  then show "pow2 a < pow2 b \<longleftrightarrow> a < b" "pow2 a \<le> pow2 b \<longleftrightarrow> a \<le> b" by (metis linorder_neq_iff order_less_asym not_less)+
qed

lemma pow2_nat: "pow2 (int n) = 2 ^ n"
  by (simp add: pow2_def)

lemma bitlen_pow2_bounds:
  assumes "0 < (k :: int)"
  shows "pow2 (bitlen k - 1) \<le> of_int k" "of_int k < pow2 (bitlen k)"
proof -
  note b = bitlen_bounds [OF assms]
  have "1 \<le> bitlen k" using assms by (metis bitlen_eq_zero_iff bitlen_nonneg int_one_le_iff_zero_less le_less not_less)
  then have "pow2 (bitlen k - 1) = of_int (2 ^ nat (bitlen k - 1))" "pow2 (bitlen k) = of_int (2 ^ nat (bitlen k))"
    by (simp_all add: pow2_def)
  with b show "pow2 (bitlen k - 1) \<le> of_int k" "of_int k < pow2 (bitlen k)" by (simp_all only: of_int_le_iff of_int_less_iff)
qed

lemma fl_exponent_bounds:
  assumes "x \<noteq> 0"
  shows "pow2 (fl_exponent x + 52) \<le> \<bar>x\<bar> \<and> \<bar>x\<bar> < pow2 (fl_exponent x + 53)"
proof -
  obtain a b where q: "quotient_of x = (a, b)" by fastforce
  have b: "0 < b" and x: "x = of_int a / of_int b" using quotient_of_denom_pos [OF q] quotient_of_div [OF q] by simp_all
  have a: "0 < \<bar>a\<bar>" using assms x by auto
  define A B where "A = bitlen \<bar>a\<bar>" and "B = bitlen b"
  note pa = bitlen_pow2_bounds [OF a, folded A_def] and pb = bitlen_pow2_bounds [OF b, folded B_def]
  have ax: "\<bar>x\<bar> * of_int b = of_int \<bar>a\<bar>" using b by (simp add: x abs_divide)
  have pos: "0 < (of_int b :: rat)" using b by simp
  have lo: "pow2 (A - B - 1) \<le> \<bar>x\<bar>"
  proof (rule ccontr)
    assume "\<not> ?thesis"
    then have "\<bar>x\<bar> * of_int b < pow2 (A - B - 1) * of_int b" using pos by (simp add: mult_strict_right_mono)
    also have "\<dots> \<le> pow2 (A - B - 1) * pow2 B" using pb(2) pow2_pos [of "A - B - 1"] by (intro mult_left_mono) simp_all
    also have "\<dots> = pow2 (A - 1)" by (simp flip: pow2_add)
    finally show False using pa(1) ax by simp
  qed
  have hi: "\<bar>x\<bar> < pow2 (A - B + 1)"
  proof (rule ccontr)
    assume "\<not> ?thesis"
    then have "pow2 (A - B + 1) * of_int b \<le> \<bar>x\<bar> * of_int b" using pos by (simp add: mult_right_mono)
    moreover have "pow2 (A - B + 1) * pow2 (B - 1) \<le> pow2 (A - B + 1) * of_int b"
      using pb(1) pow2_pos [of "A - B + 1"] by (intro mult_left_mono) simp_all
    moreover have "pow2 (A - B + 1) * pow2 (B - 1) = pow2 A" by (simp flip: pow2_add)
    ultimately show False using pa(2) ax by simp
  qed
  define e where "e = A - B - 53"
  have f: "fl_exponent x = (if 2 ^ 53 \<le> \<bar>x\<bar> / pow2 e then e + 1 else e)"
    by (simp add: fl_exponent_def q Let_def e_def A_def B_def)
  have c: "2 ^ 53 \<le> \<bar>x\<bar> / pow2 e \<longleftrightarrow> pow2 (e + 53) \<le> \<bar>x\<bar>"
    using pow2_pos [of e] pow2_nat [of 53] by (simp add: pow2_add pos_le_divide_eq mult.commute)
  show ?thesis
  proof (cases "2 ^ 53 \<le> \<bar>x\<bar> / pow2 e")
    case True
    have "fl_exponent x + 52 = e + 53" "fl_exponent x + 53 = A - B + 1" using True by (simp_all add: f e_def)
    with True c hi show ?thesis by metis
  next
    case False
    have "fl_exponent x = e" "e + 52 = A - B - 1" using False by (simp_all add: f e_def)
    with False c lo show ?thesis by (metis not_less)
  qed
qed

lemma fl_exponent_mono:
  assumes "x \<noteq> 0" "\<bar>x\<bar> \<le> \<bar>y\<bar>"
  shows "fl_exponent x \<le> fl_exponent y"
proof -
  have "y \<noteq> 0" using assms by auto
  have "pow2 (fl_exponent x + 52) < pow2 (fl_exponent y + 53)"
    using fl_exponent_bounds [OF assms(1)] fl_exponent_bounds [OF \<open>y \<noteq> 0\<close>] assms(2) by linarith
  then show ?thesis by (simp add: pow2_mono)
qed

section \<open>Rounding\<close>

lemma round_half_even_mono: "x \<le> y \<Longrightarrow> round_half_even x \<le> round_half_even y"
proof -
  assume "x \<le> y"
  then have f: "\<lfloor>x\<rfloor> \<le> \<lfloor>y\<rfloor>" by (rule floor_mono)
  have r: "round_half_even x \<in> {\<lfloor>x\<rfloor>, \<lfloor>x\<rfloor> + 1}" "round_half_even y \<in> {\<lfloor>y\<rfloor>, \<lfloor>y\<rfloor> + 1}" by (simp_all add: round_half_even_def Let_def)
  show ?thesis
  proof (cases "\<lfloor>x\<rfloor> = \<lfloor>y\<rfloor>")
    case True
    with \<open>x \<le> y\<close> show ?thesis by (auto simp: round_half_even_def Let_def)
  next
    case False
    with f r show ?thesis by auto
  qed
qed

lemma round_half_even_ge: "of_int k \<le> x \<Longrightarrow> k \<le> round_half_even x"
  using round_half_even_mono [of "of_int k" x] by simp

lemma round_half_even_le: "x \<le> of_int k \<Longrightarrow> round_half_even x \<le> k"
  using round_half_even_mono [of x "of_int k"] by simp

text \<open>The numbers a finite double can be.\<close>

definition is_double :: "rat \<Rightarrow> bool" where
  "is_double c \<longleftrightarrow> \<bar>c\<bar> < pow2 1024 \<and> (\<exists>k e. c = of_int k * pow2 e \<and> \<bar>k\<bar> < 2 ^ 53 \<and> - 1074 \<le> e)"

definition unit_exponent :: "rat \<Rightarrow> int" where
  "unit_exponent x = max (fl_exponent x) (- 1074)"

lemma to_float_unit:
  "x \<noteq> 0 \<Longrightarrow> to_float x = (let y = of_int (round_half_even (x / pow2 (unit_exponent x))) * pow2 (unit_exponent x)
     in if pow2 1024 \<le> \<bar>y\<bar> then Infinity (x < 0) else Finite y)"
  by (simp add: to_float_def unit_exponent_def Let_def)

lemma multiple_of_unit:
  assumes "is_double c" and "c \<noteq> 0" and "e \<le> unit_exponent c"
  shows "\<exists>k. c = of_int k * pow2 e"
proof -
  obtain k e' where k: "c = of_int k * pow2 e'" "\<bar>k\<bar> < 2 ^ 53" "- 1074 \<le> e'" using assms(1) by (auto simp: is_double_def)
  have "\<bar>c\<bar> < pow2 (e' + 53)"
  proof -
    have "(of_int \<bar>k\<bar> :: rat) < of_int (2 ^ 53)" using k(2) by (simp only: of_int_less_iff)
    then have "of_int \<bar>k\<bar> * pow2 e' < pow2 53 * pow2 e'" using pow2_pos [of e'] pow2_nat [of 53] by (intro mult_strict_right_mono) simp_all
    then show ?thesis using k(1) pow2_pos [of e'] by (simp add: pow2_add abs_mult mult.commute)
  qed
  with fl_exponent_bounds [OF assms(2)] have "pow2 (fl_exponent c + 52) < pow2 (e' + 53)" by linarith
  then have "e \<le> e'" using assms(3) k(3) by (simp add: pow2_mono unit_exponent_def)
  then have "pow2 e' = of_int (2 ^ nat (e' - e)) * pow2 e" using pow2_add [of "e' - e" e] by (simp add: pow2_def)
  then have "c = of_int (k * 2 ^ nat (e' - e)) * pow2 e" by (simp add: k(1))
  then show ?thesis by blast
qed

lemma unit_exponent_mono: "x \<noteq> 0 \<Longrightarrow> \<bar>x\<bar> \<le> \<bar>y\<bar> \<Longrightarrow> unit_exponent x \<le> unit_exponent y"
  using fl_exponent_mono [of x y] by (auto simp: unit_exponent_def)

text \<open>Rounding does not cross a double.\<close>

lemma to_float_upto:
  assumes "is_double c" and "0 \<le> q" and "q \<le> c"
  shows "\<exists>r. to_float q = Finite r \<and> 0 \<le> r \<and> r \<le> c"
proof (cases "q = 0")
  case True
  with assms show ?thesis by (simp add: to_float_def)
next
  case False
  define e where "e = unit_exponent q"
  have "c \<noteq> 0" "0 < q" using False assms by auto
  have "e \<le> unit_exponent c" using unit_exponent_mono [OF False, of c] assms by (simp add: e_def)
  from multiple_of_unit [OF assms(1) \<open>c \<noteq> 0\<close> this] obtain k where k: "c = of_int k * pow2 e" by blast
  let ?r = "of_int (round_half_even (q / pow2 e)) * pow2 e"
  have "q / pow2 e \<le> of_int k" "0 \<le> q / pow2 e" using assms k pow2_pos [of e] by (simp_all add: divide_le_eq)
  then have "round_half_even (q / pow2 e) \<le> k" "0 \<le> round_half_even (q / pow2 e)"
    using round_half_even_le round_half_even_ge [of 0 "q / pow2 e"] by simp_all
  then have "0 \<le> ?r" "?r \<le> c" using pow2_pos [of e] by (simp_all add: k)
  moreover have "c < pow2 1024" using assms by (simp add: is_double_def)
  ultimately show ?thesis using False by (simp add: to_float_unit Let_def flip: e_def)
qed

lemma to_float_from:
  assumes "is_double c" and "0 \<le> c" and "c \<le> q" and "to_float q = Finite r"
  shows "c \<le> r"
proof (cases "c = 0")
  case True
  then show ?thesis
  proof (cases "q = 0")
    case False
    then have "0 < q" using assms True by simp
    have "0 \<le> q / pow2 (unit_exponent q)" using \<open>0 < q\<close> pow2_pos by (simp add: less_imp_le)
    then have "0 \<le> round_half_even (q / pow2 (unit_exponent q))" using round_half_even_ge [of 0] by simp
    then show ?thesis using assms(4) False True pow2_pos [of "unit_exponent q"]
      by (auto simp: to_float_unit Let_def split: if_splits)
  qed (use assms in \<open>simp add: to_float_def\<close>)
next
  case False
  then have q: "q \<noteq> 0" "0 < q" using assms by auto
  define e where "e = unit_exponent q"
  let ?y = "of_int (round_half_even (q / pow2 e)) * pow2 e"
  have r: "r = ?y" using assms(4) q by (auto simp: to_float_unit Let_def e_def split: if_splits)
  have ec: "unit_exponent c \<le> e" using unit_exponent_mono [OF False, of q] assms by (simp add: e_def)
  show ?thesis
  proof (cases "e \<le> unit_exponent c")
    case True
    from multiple_of_unit [OF assms(1) False True] obtain k where k: "c = of_int k * pow2 e" by blast
    have "of_int k \<le> q / pow2 e" using assms(3) pow2_pos [of e] by (simp add: k le_divide_eq)
    then show ?thesis using round_half_even_ge pow2_pos [of e] by (simp add: r k)
  next
    case lt: False
    then have e: "e = fl_exponent q" "fl_exponent c < e" by (auto simp: e_def unit_exponent_def split: if_splits)
    have "pow2 e * 2 ^ 52 \<le> q" using fl_exponent_bounds [OF q(1)] q(2) pow2_nat [of 52] by (simp add: e pow2_add)
    then have "of_int (2 ^ 52) \<le> q / pow2 e" using pow2_pos [of e] by (simp add: le_divide_eq mult.commute)
    then have "2 ^ 52 \<le> round_half_even (q / pow2 e)" by (rule round_half_even_ge)
    then have "(of_int (2 ^ 52) :: rat) \<le> of_int (round_half_even (q / pow2 e))" by (simp only: of_int_le_iff)
    then have "of_int (2 ^ 52) * pow2 e \<le> ?y" using pow2_pos [of e] by (simp only: mult_right_mono less_imp_le)
    moreover have "c < pow2 (fl_exponent c + 53)" using fl_exponent_bounds [OF False] assms(2) by simp
    moreover have "pow2 (fl_exponent c + 53) \<le> pow2 (e + 52)" using e(2) by (simp add: pow2_mono)
    moreover have "pow2 (e + 52) = of_int (2 ^ 52) * pow2 e" using pow2_nat [of 52] by (simp add: pow2_add)
    ultimately show ?thesis by (simp only: r)
  qed
qed

lemma to_float_double: "is_double c \<Longrightarrow> 0 \<le> c \<Longrightarrow> to_float c = Finite c"
  using to_float_upto [of c c] to_float_from [of c c] by force

text \<open>The result of a rounding is a double, and so is its half or double.\<close>

lemma to_float_is_double:
  assumes "to_float q = Finite r"
  shows "is_double r"
proof (cases "q = 0")
  case True
  then have "r = of_int 0 * pow2 0 \<and> \<bar>0 :: int\<bar> < 2 ^ 53 \<and> - 1074 \<le> (0 :: int)" using assms by (simp add: to_float_def)
  then show ?thesis using True assms pow2_pos [of 1024] unfolding is_double_def to_float_def by fastforce
next
  case False
  define e where "e = unit_exponent q"
  define k where "k = round_half_even (q / pow2 e)"
  have r: "r = of_int k * pow2 e" "\<bar>r\<bar> < pow2 1024" using assms False by (auto simp: to_float_unit Let_def e_def k_def split: if_splits)
  have "\<bar>q\<bar> \<le> pow2 (e + 53)"
    using fl_exponent_bounds [OF False] pow2_mono(1) [of "fl_exponent q + 53" "e + 53"] by (auto simp: e_def unit_exponent_def)
  then have "\<bar>q / pow2 e\<bar> \<le> 2 ^ 53" using pow2_pos [of e] pow2_nat [of 53] by (simp add: abs_divide divide_le_eq pow2_add mult.commute)
  then have "q / pow2 e \<le> of_int (2 ^ 53)" "of_int (- (2 ^ 53)) \<le> q / pow2 e" unfolding abs_le_iff by simp_all
  then have k: "\<bar>k\<bar> \<le> 2 ^ 53" using round_half_even_le [of "q / pow2 e" "2 ^ 53"] round_half_even_ge [of "- (2 ^ 53)" "q / pow2 e"] by (simp add: k_def)
  show ?thesis
  proof (cases "\<bar>k\<bar> = 2 ^ 53")
    case True
    have "even k" using True by (metis dvd_abs_iff dvd_power pos2 zero_less_numeral)
    then obtain j where j: "k = 2 * j" by (rule evenE)
    then have "r = of_int j * pow2 (e + 1)" using r(1) pow2_nat [of 1] by (simp add: pow2_add)
    moreover have "\<bar>j\<bar> < 2 ^ 53" using True j by (simp add: abs_mult)
    moreover have "- 1074 \<le> e + 1" by (simp add: e_def unit_exponent_def)
    ultimately show ?thesis using r(2) unfolding is_double_def by blast
  next
    case False
    then have "\<bar>k\<bar> < 2 ^ 53" using k by simp
    moreover have "- 1074 \<le> e" by (simp add: e_def unit_exponent_def)
    ultimately show ?thesis using r unfolding is_double_def by blast
  qed
qed

lemma is_double_double:
  assumes "is_double c" "\<bar>2 * c\<bar> < pow2 1024"
  shows "is_double (2 * c)"
proof -
  obtain k e where k: "c = of_int k * pow2 e" "\<bar>k\<bar> < 2 ^ 53" "- 1074 \<le> e" using assms(1) by (auto simp: is_double_def)
  have "2 * c = of_int k * pow2 (e + 1)" using k(1) pow2_nat [of 1] by (simp add: pow2_add)
  moreover have "- 1074 \<le> e + 1" using k(3) by simp
  ultimately show ?thesis using k(2) assms(2) unfolding is_double_def by blast
qed

lemma is_double_twice:
  assumes "is_double c" "\<bar>c\<bar> \<le> 1"
  shows "is_double (2 * c)"
proof (rule is_double_double [OF assms(1)])
  have "\<bar>2 * c\<bar> \<le> pow2 1" using assms(2) by (simp add: pow2_def abs_mult)
  then show "\<bar>2 * c\<bar> < pow2 1024" using pow2_mono(2) [of 1 1024] by simp
qed

lemma is_double_int:
  assumes "\<bar>k\<bar> < 2 ^ 53"
  shows "is_double (of_int k)"
  using to_float_int [OF assms] by (rule to_float_is_double)

text \<open>Negative numbers stay negative.\<close>

lemma to_float_negative:
  assumes "q \<le> 0"
  shows "to_float q = Infinity True \<or> (\<exists>r. to_float q = Finite r \<and> r \<le> 0)"
proof (cases "q = 0")
  case True
  then show ?thesis by (simp add: to_float_def)
next
  case False
  have "q / pow2 (unit_exponent q) \<le> 0" using assms pow2_pos [of "unit_exponent q"] by (simp add: divide_le_0_iff)
  then have "round_half_even (q / pow2 (unit_exponent q)) \<le> 0" using round_half_even_le [of _ 0] by simp
  then have "of_int (round_half_even (q / pow2 (unit_exponent q))) * pow2 (unit_exponent q) \<le> 0"
    using pow2_pos [of "unit_exponent q"] by (simp add: mult_le_0_iff)
  then show ?thesis using False assms by (simp add: to_float_unit Let_def)
qed

end
