(* ===== verification/Sweep_Properties.thy ===== *)
theory Sweep_Properties
  imports Sweep_Setup Float_Bounds
begin

text \<open>
  What the discovery of \<open>Sweep_Setup\<close> finds: exactly the hosts of the subnet that answer, in numerical order.
\<close>

section \<open>What discovery finds\<close>

lemma those_Some: "list_all (\<lambda>x. f x = Some (g x)) xs \<Longrightarrow> those (map f xs) = Some (map g xs)"
  by (induction xs) auto

text \<open>The four octets of an address, and their order.\<close>

definition quad :: "int \<Rightarrow> int list" where
  "quad n = [n div 16777216 mod 256, n div 65536 mod 256, n div 256 mod 256, n mod 256]"

lemma parse_int_int_str:
  assumes "0 \<le> k" "k < 256"
  shows "parse_int (int_str k) = Some k"
proof -
  obtain n where n: "k = int n" "n < 256" using assms zero_le_imp_eq_int by fastforce
  have d: "list_all is_digit (nat_str n)" "nat_str n \<noteq> []" "dec_val (nat_str n) = int n" using nat_str_digits by auto
  have "CHR ''_'' \<notin> set (nat_str n)" using d(1) digit_facts(3) by (auto simp: list_all_iff)
  then have "split_on CHR ''_'' (nat_str n) = [nat_str n]" by (rule split_on_plain)
  moreover have "length (nat_str n) \<le> 3" using nat_str_length [of n 3] n by simp
  ultimately show ?thesis using n d by (simp add: parse_int_def int_str_def strip_plain digits_plain)
qed

lemma octets_quad: "octets (v4_str n) = Some (quad n)"
proof -
  have "split_on CHR ''.'' (v4_str n) = map int_str (quad n)"
    unfolding v4_str_def quad_def by (rule split_on_join) (auto simp: octet_roundtrip)
  then show ?thesis by (simp add: octets_def quad_def parse_int_int_str)
qed

lemma div_mod_less:
  fixes n m :: int
  assumes "n < m"
  shows "n div 256 < m div 256 \<or> n div 256 = m div 256 \<and> n mod 256 < m mod 256"
proof (cases "n div 256 < m div 256")
  case False
  then have "n div 256 = m div 256" using zdiv_mono1 [of n m 256] assms by simp
  then show ?thesis using assms div_mult_mod_eq [of n 256] div_mult_mod_eq [of m 256] by linarith
qed simp

lemma quad_mono:
  assumes "n < m" "0 \<le> n" "m < 2 ^ 32"
  shows "quad n < quad m"
proof -
  have d: "x div 65536 = x div 256 div 256" "x div 16777216 = x div 256 div 256 div 256" for x :: int
    using zdiv_zmult2_eq [of 256 x 256] zdiv_zmult2_eq [of 256 x 65536] zdiv_zmult2_eq [of 256 "x div 256" 256] by simp_all
  define n1 n2 n3 where n: "n1 = n div 256" "n2 = n1 div 256" "n3 = n2 div 256"
  define m1 m2 m3 where m: "m1 = m div 256" "m2 = m1 div 256" "m3 = m2 div 256"
  have "n div 16777216 < 256" "m div 16777216 < 256" "0 \<le> n div 16777216" "0 \<le> m div 16777216" using assms by auto
  then have "0 \<le> n3" "n3 < 256" "0 \<le> m3" "m3 < 256" by (simp_all only: n m d)
  then have t: "n3 mod 256 = n3" "m3 mod 256 = m3" by (simp_all only: mod_pos_pos_trivial)
  have qn: "quad n = [n3, n2 mod 256, n1 mod 256, n mod 256]" using t(1) by (simp only: quad_def d n)
  have qm: "quad m = [m3, m2 mod 256, m1 mod 256, m mod 256]" using t(2) by (simp only: quad_def d m)
  from div_mod_less [OF assms(1)] have 1: "n1 < m1 \<or> n1 = m1 \<and> n mod 256 < m mod 256" by (simp only: n m)
  have 2: "n2 < m2 \<or> n2 = m2 \<and> n1 mod 256 < m1 mod 256" if "n1 < m1" using div_mod_less [OF that] by (simp only: n m)
  have 3: "n3 < m3 \<or> n3 = m3 \<and> n2 mod 256 < m2 mod 256" if "n2 < m2" using div_mod_less [OF that] by (simp only: n m)
  have eq: "n2 = m2" if "n1 = m1" using that by (simp only: n m)
  have eq': "n3 = m3" if "n2 = m2" using that by (simp only: n m)
  show ?thesis
  proof (cases "n1 < m1")
    case False
    with 1 have "n1 = m1" "n mod 256 < m mod 256" by blast+
    with eq eq' show ?thesis unfolding qn qm Cons_less_Cons by blast
  next
    case True
    show ?thesis
    proof (cases "n2 < m2")
      case False
      with 2 [OF True] eq' show ?thesis unfolding qn qm Cons_less_Cons by blast
    next
      case True
      from 3 [OF this] show ?thesis unfolding qn qm Cons_less_Cons by blast
    qed
  qed
qed

lemma v4_str_inj:
  assumes "0 \<le> n" "n < 2 ^ 32" "0 \<le> m" "m < 2 ^ 32" "v4_str n = v4_str m"
  shows "n = m"
  by (metis v4_roundtrip [OF assms(1,2)] v4_roundtrip [OF assms(3,4)] assms(5) option.inject)

text \<open>The numbers of the hosts of an IPv4 network.\<close>

definition host_numbers :: "ip_net \<Rightarrow> int list" where
  "host_numbers net =
     (let n = ip_int (network_address net); p = prefixlen net
      in if p = 32 then [n] else if p = 31 then [n, n + 1] else [n + 1..n + 2 ^ (32 - p) - 2])"

lemma net_hosts_numbers: "ip_version (network_address net) = V4 \<Longrightarrow> net_hosts net = map v4_str (host_numbers net)"
  by (simp add: host_numbers_def Let_def)

lemma host_numbers_sorted: "sorted_wrt (<) (host_numbers net)"
proof -
  have "sorted_wrt (<) [a..b]" for a b :: int by (simp only: strict_sorted_iff) simp
  then show ?thesis by (simp add: host_numbers_def Let_def)
qed

lemma host_numbers_range:
  assumes "prefixlen net \<le> 32" "h \<in> set (host_numbers net)"
  shows "ip_int (network_address net) \<le> h" "h < ip_int (network_address net) + 2 ^ (32 - prefixlen net)"
  using assms by (auto simp: host_numbers_def Let_def split: if_splits)

lemma loose_network_of_valid:
  assumes n: "loose_network_of v parse s = Some n"
    and parse: "\<And>t a. parse t = Some a \<Longrightarrow> valid_addr a \<and> ip_version a = v"
  shows "valid_net n \<and> ip_version (network_address n) = v"
proof -
  from n obtain t a p where a: "parse t = Some a" and p: "p \<le> max_prefixlen v"
    and eq: "n = \<lparr>network_address = \<lparr>ip_version = v, ip_int = ip_int a AND netmask_int v p, scope_id = None\<rparr>, prefixlen = p\<rparr>"
    by (auto simp: loose_network_of_def Let_def make_netmask_le split: list.splits option.splits)
  let ?m = "2 ^ (max_prefixlen v - p) :: int"
  have r: "0 \<le> ip_int a" "ip_int a < 2 ^ max_prefixlen v" using parse [OF a] by (auto simp: valid_addr_def)
  from and_netmask [OF r p] have i: "ip_int a AND netmask_int v p = ip_int a - ip_int a mod ?m" .
  have "0 \<le> ip_int a mod ?m" "ip_int a mod ?m \<le> ip_int a" using r(1) by (simp_all add: zmod_le_nonneg_dividend)
  then have "0 \<le> ip_int a - ip_int a mod ?m" "ip_int a - ip_int a mod ?m < 2 ^ max_prefixlen v" using r(2) by linarith+
  moreover have "(ip_int a - ip_int a mod ?m) mod ?m = 0" by (simp add: minus_mod_eq_mult_div)
  ultimately show ?thesis using p by (simp add: eq i valid_net_def valid_addr_def)
qed

lemma loose_network_valid: "loose_network s = Some n \<Longrightarrow> valid_net n"
proof -
  assume n: "loose_network s = Some n"
  have v4: "ipv4_address t = Some a \<Longrightarrow> valid_addr a \<and> ip_version a = V4" for t a
    by (auto simp: ipv4_address_def valid_addr_def dest!: v4_int_range split: option.splits)
  have v6: "ipv6_address t = Some a \<Longrightarrow> valid_addr a \<and> ip_version a = V6" for t a
    by (auto simp: ipv6_address_def valid_addr_def dest!: v6_int_range split: option.splits list.splits if_splits)
  from n show ?thesis using loose_network_of_valid [OF _ v4] loose_network_of_valid [OF _ v6]
    by (auto simp: loose_network_def split: option.splits)
qed

lemma discovery_network_valid: "discovery_network ip s = Some (net, self) \<Longrightarrow> valid_net net"
  by (auto simp: discovery_network_def dest!: loose_network_valid split: if_splits list.splits)

lemma valid_net_top:
  assumes "valid_net net" "ip_version (network_address net) = V4"
  shows "0 \<le> ip_int (network_address net)" "prefixlen net \<le> 32"
    "ip_int (network_address net) + 2 ^ (32 - prefixlen net) \<le> 2 ^ 32"
proof -
  let ?n = "ip_int (network_address net)" and ?k = "32 - prefixlen net"
  show r: "0 \<le> ?n" "prefixlen net \<le> 32" using assms by (simp_all add: valid_net_def valid_addr_def)
  have "?n mod 2 ^ ?k = 0" "?n < 2 ^ 32" using assms by (simp_all add: valid_net_def valid_addr_def)
  then obtain q where q: "?n = 2 ^ ?k * q" by auto
  have "(2 :: int) ^ 32 = 2 ^ ?k * 2 ^ prefixlen net" using r(2) by (simp flip: power_add)
  note w = this
  have "2 ^ ?k * q < 2 ^ ?k * 2 ^ prefixlen net" using \<open>?n < 2 ^ 32\<close> unfolding w q .
  then have "q + 1 \<le> 2 ^ prefixlen net" unfolding mult_less_cancel_left by auto
  then have "2 ^ ?k * (q + 1) \<le> (2 :: int) ^ 32" unfolding w by (intro mult_left_mono) simp_all
  then show "?n + 2 ^ ?k \<le> 2 ^ 32" using q by (simp add: algebra_simps)
qed

lemma sort_by_octets:
  assumes ns: "sorted_wrt (<) ns" "\<And>n. n \<in> set ns \<Longrightarrow> 0 \<le> n \<and> n < 2 ^ 32" and m: "mset xs = mset (map v4_str ns)"
  shows "sort_key (\<lambda>ip. the (octets ip)) xs = map v4_str ns"
proof (rule properties_for_sort_key)
  let ?f = "\<lambda>ip. the (octets ip)"
  show "mset (map v4_str ns) = mset xs" using m by simp
  have "sorted_wrt (<) (map quad ns)"
    using ns quad_mono by (auto simp: sorted_wrt_map intro: sorted_wrt_mono_rel [rotated, OF ns(1)])
  then show "sorted (map ?f (map v4_str ns))" by (simp add: comp_def octets_quad strict_sorted_iff)
  have d: "distinct (map v4_str ns)"
    using ns v4_str_inj strict_sorted_iff by (auto simp: distinct_map inj_on_def)
  have inj: "a = b" if "a \<in> set xs" "b \<in> set xs" "?f a = ?f b" for a b
  proof -
    from mset_eq_setD [OF m] have "set xs = v4_str ` set ns" by (simp only: list.set_map)
    with that obtain i j where ij: "i \<in> set ns" "j \<in> set ns" "a = v4_str i" "b = v4_str j" by auto
    then have "quad i = quad j" using that(3) by (simp add: octets_quad)
    then have "\<not> i < j" "\<not> j < i" using quad_mono ns(2) ij by (metis order_less_irrefl)+
    then show ?thesis using ij by simp
  qed
  fix k
  assume "k \<in> set (map v4_str ns)"
  then have k: "k \<in> set xs" using mset_eq_setD [OF m] by simp
  have "filter (\<lambda>x. ?f k = ?f x) zs = filter ((=) k) zs" if "set zs = set xs" for zs
    using inj k that by (intro filter_cong) auto
  moreover have "filter ((=) k) zs = replicate (count_list zs k) k" for zs by (induction zs) auto
  moreover have "set (map v4_str ns) = set xs" using mset_eq_setD [OF m] by simp
  moreover have "count_list (map v4_str ns) k = count_list xs k" using m by (metis count_mset)
  ultimately show "filter (\<lambda>x. ?f k = ?f x) (map v4_str ns) = filter (\<lambda>x. ?f k = ?f x) xs" by simp
qed

lemma host_responds_iff:
  "host_responds answer host ps \<longleftrightarrow> (\<exists>p \<in> set ps. answer host p = Open \<or> answer host p = Refused)"
  by (induction ps) (auto split: outcome.splits)

lemma find_None_all: "find P xs = None \<longleftrightarrow> (\<forall>x \<in> set xs. \<not> P x)"
  by (induction xs) auto

text \<open>
  C21: what discovery finds in an IPv4 subnet. In whatever order the pool finishes, the targets are the hosts of
  the network, without this host where its own network was asked for, that accept or refuse a connection on one of the
  ports, in numerical order and each once; all of them are addresses inside the network.
\<close>

theorem discovery_exact:
  assumes net: "discovery_network local_ip subnet = Some (net, own)" and v4: "ip_version (network_address net) = V4"
    and perm: "\<forall>xs. mset (finish xs) = mset xs"
  shows "let found = filter (\<lambda>n. \<not> (exclude \<and> own = Some (v4_str n)) \<and>
           (\<exists>p \<in> set ports. answer (v4_str n) p = Open \<or> answer (v4_str n) p = Refused)) (host_numbers net)
    in discover_targets local_ip finish answer subnet ports exclude = Inr (map v4_str found) \<and> sorted_wrt (<) found \<and>
       (\<forall>n \<in> set found. \<exists>a. ip_address (v4_str n) = Some a \<and> in_network a net)"
proof -
  let ?self = "if exclude then own else None"
  let ?ok = "\<lambda>n. \<not> (exclude \<and> own = Some (v4_str n)) \<and> (\<exists>p \<in> set ports. answer (v4_str n) p = Open \<or> answer (v4_str n) p = Refused)"
  let ?found = "filter ?ok (host_numbers net)"
  let ?hosts = "filter (\<lambda>host. Some host \<noteq> ?self) (net_hosts net)"
  let ?disc = "filter (\<lambda>host. host_responds answer host ports) (finish ?hosts)"
  have val: "valid_net net" using discovery_network_valid [OF net] .
  note top = valid_net_top [OF val v4]
  have r: "0 \<le> n \<and> n < 2 ^ 32" if "n \<in> set (host_numbers net)" for n
    using host_numbers_range [OF top(2) that] top(1,3) by linarith
  have m: "mset ?disc = mset (map v4_str ?found)"
  proof -
    have "mset ?disc = mset (filter (\<lambda>host. host_responds answer host ports) ?hosts)" using perm by (metis mset_filter)
    also have "filter (\<lambda>host. host_responds answer host ports) ?hosts = map v4_str ?found"
      by (auto simp: net_hosts_numbers [OF v4] filter_map comp_def host_responds_iff simp del: net_hosts.simps
          intro!: arg_cong [of _ _ "map v4_str"] filter_cong)
    finally show ?thesis .
  qed
  have s: "sorted_wrt (<) ?found" using host_numbers_sorted by (rule sorted_wrt_filter_wrt)
  have eq: "set ?disc = v4_str ` set ?found" using mset_eq_setD [OF m] by (simp only: list.set_map)
  have "octets ip \<noteq> None" if "ip \<in> set ?disc" for ip
  proof -
    from that have "ip \<in> v4_str ` set ?found" unfolding eq .
    then obtain n where "ip = v4_str n" by (rule imageE)
    then show ?thesis by (simp add: octets_quad)
  qed
  then have "find (\<lambda>ip. octets ip = None) ?disc = None" unfolding find_None_all by blast
  moreover have "sort_key (\<lambda>ip. the (octets ip)) ?disc = map v4_str ?found" using r by (intro sort_by_octets [OF s _ m]) auto
  ultimately have d: "discover_targets local_ip finish answer subnet ports exclude = Inr (map v4_str ?found)"
    by (simp add: discover_targets_def net Let_def)
  have "\<exists>a. ip_address (v4_str n) = Some a \<and> in_network a net" if n: "n \<in> set (host_numbers net)" for n
  proof -
    let ?a = "\<lparr>ip_version = V4, ip_int = n, scope_id = None\<rparr>"
    have a: "ip_address (v4_str n) = Some ?a"
      using r [OF n] v4_roundtrip [of n] by (simp add: ip_address_def ipv4_address_def)
    have "in_network ?a net" unfolding in_network_iff [OF val ip_address_valid [OF a]]
      using host_numbers_range [OF top(2) n] v4 by simp
    with a show ?thesis by blast
  qed
  with d s show ?thesis by (auto simp: Let_def)
qed

theorem discovery_exact_witness:
  "\<exists>n1 n2. discover_targets ''192.168.50.7'' rev (\<lambda>h p. if h = ''192.168.50.9'' \<or> h = ''192.168.50.10'' \<and> p = 80 then Refused else Timeout)
     ''192.168.50.8/29'' [22, 80] True = Inr [v4_str n1, v4_str n2] \<and> n1 < n2"
proof -
  have net: "discovery_network ''192.168.50.7'' ''192.168.50.8/29'' =
      Some (\<lparr>network_address = \<lparr>ip_version = V4, ip_int = 3232248328, scope_id = None\<rparr>, prefixlen = 29\<rparr>, None)" by code_simp
  have found: "filter (\<lambda>n. \<not> (True \<and> None = Some (v4_str n)) \<and> (\<exists>p \<in> set [22, 80 :: int].
       (if v4_str n = ''192.168.50.9'' \<or> v4_str n = ''192.168.50.10'' \<and> p = 80 then Refused else Timeout) = Open \<or>
       (if v4_str n = ''192.168.50.9'' \<or> v4_str n = ''192.168.50.10'' \<and> p = 80 then Refused else Timeout) = Refused))
     (host_numbers \<lparr>network_address = \<lparr>ip_version = V4, ip_int = 3232248328, scope_id = None\<rparr>, prefixlen = 29\<rparr>) =
     [3232248329, 3232248330]" by code_simp
  from discovery_exact [OF net, of rev True "[22, 80]" "\<lambda>h p. if h = ''192.168.50.9'' \<or> h = ''192.168.50.10'' \<and> p = 80 then Refused else Timeout"]
  show ?thesis unfolding found Let_def by (intro exI [of _ 3232248329] exI [of _ 3232248330]) simp
qed
section \<open>Sleeping\<close>

text \<open>Whatever the numbers, a sleep is not negative (nor NaN) and does not pass the end of the run.\<close>

lemma py_max_zero: "py_le (Finite 0) (py_max (Finite 0) x)"
  by (cases x) (auto simp: py_max_def)

lemma sleep_for_nonneg: "py_le (Finite 0) (sleep_for delay jit u remaining)"
  using py_max_zero by (auto simp: sleep_for_def Let_def py_min_def split: option.splits)

lemma py_min_upto: "py_le (Finite 0) x \<Longrightarrow> py_le (Finite 0) y \<Longrightarrow> py_le (py_min x y) y \<and> py_le (py_min x y) x"
  by (cases x; cases y) (auto simp: py_min_def)

lemma sleep_for_ends: "py_le (sleep_for delay jit u (Some r)) (py_max (Finite 0) r)"
  using py_min_upto [OF py_max_zero py_max_zero] by (simp add: sleep_for_def Let_def)

text \<open>With a jitter of at most 1 it is at most twice the delay, although every operation is rounded.\<close>

lemma sleep_for_twice:
  assumes d: "is_double d" "0 \<le> d" "2 * d < pow2 1024" and j: "0 \<le> j" "j \<le> 1" and u: "0 \<le> u" "u \<le> 1"
  shows "py_le (sleep_for (Finite d) (Finite j) u remaining) (Finite (2 * d))"
proof -
  have "d * j \<le> d" using d(2) j by (simp add: mult_left_le)
  then obtain s where s: "to_float (d * j) = Finite s" "0 \<le> s" "s \<le> d" using to_float_upto [OF d(1), of "d * j"] d(2) j(1) by auto
  have dd: "is_double (2 * d)" using d by (intro is_double_double) simp_all
  have ds: "is_double s" using to_float_is_double [OF s(1)] .
  have ds2: "is_double (2 * s)" using ds s d(3) by (intro is_double_double) simp_all
  have "2 * s * u \<le> 2 * s" using u s(2) by (simp add: mult_left_le)
  then obtain x where x: "to_float (2 * s * u) = Finite x" "0 \<le> x" "x \<le> 2 * s"
    using to_float_upto [OF ds2, of "2 * s * u"] s(2) u(1) by auto
  have "py_minus (Finite s) (Finite (- s)) = Finite (2 * s)" using to_float_double [OF ds2] s(2) by (simp add: py_minus_def)
  then have y: "uniform (py_neg (Finite s)) (Finite s) u = to_float (x - s)" using x(1) by (simp add: uniform_def)
  let ?p = "py_max (Finite 0) (py_plus (Finite d) (to_float (x - s)))"
  have p: "py_le ?p (Finite (2 * d))"
  proof (cases "s \<le> x")
    case True
    then obtain r where r: "to_float (x - s) = Finite r" "0 \<le> r" "r \<le> s" using to_float_upto [OF ds, of "x - s"] x(3) by auto
    then obtain t where "to_float (d + r) = Finite t" "t \<le> 2 * d" using to_float_upto [OF dd, of "d + r"] s(3) d(2) by auto
    then show ?thesis using r(1) d(2) by (auto simp: py_max_def)
  next
    case False
    then consider "to_float (x - s) = Infinity True" | r where "to_float (x - s) = Finite r" "r \<le> 0" using to_float_negative [of "x - s"] by auto
    then show ?thesis
    proof cases
      case 1
      then show ?thesis using d(2) by (simp add: py_max_def)
    next
      case (2 r)
      show ?thesis
      proof (cases "0 \<le> d + r")
        case True
        then obtain t where "to_float (d + r) = Finite t" "t \<le> d" using to_float_upto [OF d(1), of "d + r"] 2 by auto
        then show ?thesis using 2 d(2) by (auto simp: py_max_def)
      next
        case False
        then have "to_float (d + r) = Infinity True \<or> (\<exists>t. to_float (d + r) = Finite t \<and> t \<le> 0)" by (intro to_float_negative) simp
        then show ?thesis using 2 d(2) by (auto simp: py_max_def)
      qed
    qed
  qed
  have e: "sleep_for (Finite d) (Finite j) u remaining = (case remaining of None \<Rightarrow> ?p | Some r \<Rightarrow> py_min ?p (py_max (Finite 0) r))"
    by (cases remaining) (simp_all add: sleep_for_def s(1) y [simplified] Let_def)
  show ?thesis
  proof (cases remaining)
    case (Some r)
    have "py_le (py_min ?p (py_max (Finite 0) r)) ?p" using py_min_upto [OF py_max_zero py_max_zero] by blast
    with p Some e show ?thesis by (cases ?p; cases "py_min ?p (py_max (Finite 0) r)") auto
  next
    case None
    show ?thesis unfolding e unfolding None option.case by (rule p)
  qed
qed

end
