(* ===== verification/Research_Runner.thy ===== *)
theory Research_Runner
  imports Sweep_Properties
begin

text \<open>
  The research runner (\<open>src/scripts/research-traffic-runner.py\<close>) and its shortcut (\<open>src/research.py\<close>): the presets, the command of each phase, its own
  command line, the manifest, the loop over the phases with its gaps, and detaching. Child processes, the stop flag, the clock and the
  shuffling of random numbers are given from outside; what is written to the files is kept as a list of markers and of
  states, without time stamps and durations. The printed summary is not modelled.
\<close>

section \<open>Plans\<close>

definition DEFAULT_PHASES :: "string list" where
  "DEFAULT_PHASES = [''negative'', ''borderline'', ''positive'', ''slow'', ''aggressive'']"

definition PORT_SWEEP_PHASES :: "string list" where
  "PORT_SWEEP_PHASES = [''negative'', ''borderline'', ''positive'', ''slow'', ''aggressive'']"

definition PORT_SWEEP_DURATIONS :: "(string \<times> rat) list" where
  "PORT_SWEEP_DURATIONS = [(''negative'', 300), (''borderline'', 300), (''positive'', 300), (''slow'', 900), (''aggressive'', 300)]"

definition PRESETS :: "(string \<times> (string \<times> nat) list) list" where
  "PRESETS = [(''balanced35'', [(''negative'', 10), (''positive'', 10), (''borderline'', 5), (''slow'', 5), (''aggressive'', 5)])]"

definition split_csv :: "string \<Rightarrow> arg_error + string list" where
  "split_csv value =
     (let phases = filter (\<lambda>p. p \<noteq> []) (map strip (split_on CHR '','' value)) in
      if \<not> set phases \<subseteq> set (''normal'' # PORT_SWEEP_PHASES) then Inl (Argument_type_error ''unknown phase(s)'')
      else if phases = [] then Inl (Argument_type_error ''at least one phase is required'')
      else Inr phases)"

text \<open>One pass over the order; \<^term>\<open>None\<close> is the \<open>KeyError\<close> of a phase without a count.\<close>

fun preset_round :: "string list \<Rightarrow> (string \<times> nat) list \<Rightarrow> string list \<Rightarrow> ((string \<times> nat) list \<times> string list) option" where
  "preset_round [] remaining phases = Some (remaining, phases)"
| "preset_round (p # ps) remaining phases =
     (case map_of remaining p of None \<Rightarrow> None
      | Some n \<Rightarrow> if 0 < n then preset_round ps (AList.update p (n - 1) remaining) (phases @ [p])
          else preset_round ps remaining phases)"

partial_function (option) preset_loop :: "string list \<Rightarrow> (string \<times> nat) list \<Rightarrow> string list \<Rightarrow> string list option" where
  "preset_loop order remaining phases =
     (if 0 < sum_list (map snd remaining)
      then (case preset_round order remaining phases of None \<Rightarrow> None | Some (r, ps) \<Rightarrow> preset_loop order r ps)
      else Some phases)"

declare preset_loop.simps [code]

definition preset_phases :: "(int option \<Rightarrow> string list \<Rightarrow> string list) \<Rightarrow> string \<Rightarrow> int option \<Rightarrow> bool \<Rightarrow> string list option" where
  "preset_phases shuffled name rs do_shuffle =
     (case map_of PRESETS name of None \<Rightarrow> None
      | Some numbers \<Rightarrow> map_option (\<lambda>phases. if do_shuffle then shuffled rs phases else phases)
          (preset_loop [''negative'', ''positive'', ''borderline'', ''slow'', ''aggressive''] numbers []))"

section \<open>The command line\<close>

record runner_args =
  r_target :: string
  r_targets_file :: "string option"
  r_targets_api :: "string option"
  r_api_active_only :: bool
  r_discover_subnet :: string
  no_discover :: bool
  r_phases :: "string list"
  preset :: "string option"
  shuffle_phases :: bool
  normal_profile :: string
  normal_duration :: py_float
  sweep_duration :: "py_float option"
  gap :: py_float
  r_seed :: "int option"
  r_randomize :: bool
  r_dry_run :: bool
  detach :: bool
  r_run_id :: "string option"
  r_out_dir :: string
  child_out_root :: string

definition runner_options :: options where
  "runner_options =
     [(''-h'', False), (''--help'', False), (''--target'', True), (''--targets-file'', True), (''--targets-api'', True),
      (''--api-active-only'', False), (''--discover-subnet'', True), (''--no-discover'', False), (''--phases'', True),
      (''--preset'', True), (''--shuffle-phases'', False), (''--normal-profile'', True), (''--normal-duration'', True),
      (''--sweep-duration'', True), (''--gap'', True), (''--seed'', True), (''--randomize'', False), (''--dry-run'', False),
      (''--detach'', False), (''--run-id'', True), (''--out-dir'', True), (''--child-out-root'', True)]"

text \<open>The runner's \<open>parse_duration\<close> has the text of the sweep's.\<close>

definition runner_parse_duration :: "string \<Rightarrow> arg_error + py_float" where
  "runner_parse_duration = parse_duration"

definition runner_store :: "string \<Rightarrow> string \<Rightarrow> runner_args \<Rightarrow> arg_error + runner_args" where
  "runner_store opt v a =
     (if opt = ''--target'' then Inr (a\<lparr>r_target := v\<rparr>)
      else if opt = ''--targets-file'' then Inr (a\<lparr>r_targets_file := Some v\<rparr>)
      else if opt = ''--targets-api'' then Inr (a\<lparr>r_targets_api := Some v\<rparr>)
      else if opt = ''--api-active-only'' then Inr (a\<lparr>r_api_active_only := True\<rparr>)
      else if opt = ''--discover-subnet'' then Inr (a\<lparr>r_discover_subnet := v\<rparr>)
      else if opt = ''--no-discover'' then Inr (a\<lparr>no_discover := True\<rparr>)
      else if opt = ''--phases'' then map_sum id (\<lambda>x. a\<lparr>r_phases := x\<rparr>) (split_csv v)
      else if opt = ''--preset'' then choice (map fst PRESETS) v (a\<lparr>preset := Some v\<rparr>)
      else if opt = ''--shuffle-phases'' then Inr (a\<lparr>shuffle_phases := True\<rparr>)
      else if opt = ''--normal-profile'' then choice [''sensor'', ''plug'', ''camera-idle''] v (a\<lparr>normal_profile := v\<rparr>)
      else if opt = ''--normal-duration'' then map_sum id (\<lambda>x. a\<lparr>normal_duration := x\<rparr>) (runner_parse_duration v)
      else if opt = ''--sweep-duration'' then map_sum id (\<lambda>x. a\<lparr>sweep_duration := Some x\<rparr>) (runner_parse_duration v)
      else if opt = ''--gap'' then map_sum id (\<lambda>x. a\<lparr>gap := x\<rparr>) (runner_parse_duration v)
      else if opt = ''--seed'' then typed (parse_int v) (\<lambda>x. a\<lparr>r_seed := Some x\<rparr>)
      else if opt = ''--randomize'' then Inr (a\<lparr>r_randomize := True\<rparr>)
      else if opt = ''--dry-run'' then Inr (a\<lparr>r_dry_run := True\<rparr>)
      else if opt = ''--detach'' then Inr (a\<lparr>detach := True\<rparr>)
      else if opt = ''--run-id'' then Inr (a\<lparr>r_run_id := Some v\<rparr>)
      else if opt = ''--out-dir'' then Inr (a\<lparr>r_out_dir := v\<rparr>)
      else if opt = ''--child-out-root'' then Inr (a\<lparr>child_out_root := v\<rparr>)
      else Inl Usage)"

text \<open>The defaults; those of the durations are \<open>parse_duration("10m")\<close> and \<open>parse_duration("60s")\<close>.\<close>

definition runner_defaults :: runner_args where
  "runner_defaults =
     \<lparr>r_target = ''192.168.50.1'', r_targets_file = None, r_targets_api = None, r_api_active_only = False,
      r_discover_subnet = ''auto'', no_discover = False, r_phases = DEFAULT_PHASES, preset = None, shuffle_phases = False,
      normal_profile = ''sensor'', normal_duration = Finite 600, sweep_duration = None, gap = Finite 60, r_seed = None,
      r_randomize = False, r_dry_run = False, detach = False, r_run_id = None, r_out_dir = ''artifacts/research-runs'',
      child_out_root = ''artifacts''\<rparr>"

text \<open>The guaranteed length of a phase.\<close>

definition phase_duration :: "runner_args \<Rightarrow> string \<Rightarrow> py_float option" where
  "phase_duration args phase =
     (if phase = ''normal'' then Some (normal_duration args)
      else case sweep_duration args of Some d \<Rightarrow> Some d
        | None \<Rightarrow> map_option Finite (map_of PORT_SWEEP_DURATIONS phase))"

text \<open>The whole run with its gaps; \<^term>\<open>None\<close> is a phase without a duration, which no accepted plan has.\<close>

definition estimated_duration :: "runner_args \<Rightarrow> py_float option" where
  "estimated_duration args =
     map_option (\<lambda>ds. py_plus (float_sum ds) (py_times (Finite (of_nat (length (r_phases args) - 1))) (gap args)))
       (those (map (phase_duration args) (r_phases args)))"

text \<open>\<open>fmt_duration\<close> of a float: \<open>int(round(x))\<close> raises for infinities and NaN.\<close>

fun fmt_float_duration :: "py_float \<Rightarrow> string option" where
  "fmt_float_duration (Finite q) = Some (fmt_duration q)"
| "fmt_float_duration _ = None"

section \<open>The command of a phase\<close>

definition phase_run_id :: "string \<Rightarrow> nat \<Rightarrow> string \<Rightarrow> string" where
  "phase_run_id rid index phase = rid @ ''-'' @ pad2 (int index) @ ''-'' @ phase"

definition seed_args :: "runner_args \<Rightarrow> nat \<Rightarrow> string list" where
  "seed_args args index = (case r_seed args of None \<Rightarrow> [] | Some s \<Rightarrow> [''--seed'', int_str (s + int index)])"

definition target_args :: "runner_args \<Rightarrow> string list" where
  "target_args args =
     (if given (r_targets_file args) then [''--targets-file'', the (r_targets_file args)]
      else if given (r_targets_api args)
      then [''--targets-api'', the (r_targets_api args)] @ (if r_api_active_only args then [''--api-active-only''] else [])
      else if no_discover args then [''--target'', r_target args]
      else [''--discover-subnet'', r_discover_subnet args])"

text \<open>The interpreter, the repository's root and the run id are given; the words after the script are its arguments.\<close>

definition normal_words :: "runner_args \<Rightarrow> string \<Rightarrow> nat \<Rightarrow> string list" where
  "normal_words args rid index =
     [''--profile'', normal_profile args, ''--duration'', float_str (normal_duration args),
      ''--run-id'', phase_run_id rid index ''normal'', ''--out-dir'', path_div (child_out_root args) ''iot-emulator''] @
     seed_args args index"

definition sweep_words :: "runner_args \<Rightarrow> string \<Rightarrow> string \<Rightarrow> nat \<Rightarrow> string list" where
  "sweep_words args rid phase index =
     target_args args @
     [''--profile'', phase, ''--run-id'', phase_run_id rid index phase,
      ''--out-dir'', path_div (child_out_root args) ''port-sweep''] @
     seed_args args index @
     (case sweep_duration args of None \<Rightarrow> [] | Some d \<Rightarrow> [''--duration'', float_str d]) @
     (if r_randomize args then [''--randomize''] else [])"

definition phase_command :: "string \<Rightarrow> string \<Rightarrow> runner_args \<Rightarrow> string \<Rightarrow> string \<Rightarrow> nat \<Rightarrow> string list" where
  "phase_command python repo_root args rid phase index =
     (if phase = ''normal''
      then python # (repo_root @ ''/scripts/iot-device-emulator.py'') # normal_words args rid index
      else python # (repo_root @ ''/scripts/port-sweep.py'') # sweep_words args rid phase index)"

definition commands :: "string \<Rightarrow> string \<Rightarrow> runner_args \<Rightarrow> string \<Rightarrow> (string \<times> string list) list" where
  "commands python repo_root args rid =
     map (\<lambda>(i, phase). (phase, phase_command python repo_root args rid phase i))
       (zip [1..<length (r_phases args) + 1] (r_phases args))"

section \<open>The run\<close>

text \<open>
  What happens meanwhile: the value of \<open>STOP_REQUESTED\<close> and of the clock at the \<open>n\<close>-th look at them, and the return code of
  the \<open>n\<close>-th child.
\<close>

record run_env =
  stop :: "nat \<Rightarrow> bool"
  clock :: "nat \<Rightarrow> rat"
  child :: "nat \<Rightarrow> string list \<Rightarrow> int"

datatype marker =
    Run_start string
  | Phase_start string "string list"
  | Phase_end string int
  | Gap_start string
  | Gap_end string
  | Run_end string int bool

record phase_record =
  rec_phase :: string
  rec_returncode :: int
  rec_command :: "string list"

record run_status =
  st_status :: string
  st_current_phase :: "string option"
  st_completed_phases :: nat
  st_total_phases :: nat

record run_state =
  run_looks :: nat
  phase_records :: "phase_record list"
  markers :: "marker list"
  status_file :: run_status

definition append_jsonl :: "marker \<Rightarrow> run_state \<Rightarrow> run_state" where
  "append_jsonl m s = s\<lparr>markers := markers s @ [m]\<rparr>"

text \<open>The wait of a gap; the result is the number of looks made so far.\<close>

partial_function (option) gap_loop :: "run_env \<Rightarrow> py_float \<Rightarrow> nat \<Rightarrow> nat option" where
  "gap_loop env end_at n =
     (if \<not> stop env n \<and> py_less (Finite (clock env (n + 1))) end_at then gap_loop env end_at (n + 2) else Some (n + 2))"

declare gap_loop.simps [code]

definition sleep_gap :: "run_env \<Rightarrow> py_float \<Rightarrow> string \<Rightarrow> bool \<Rightarrow> run_state \<Rightarrow> run_state option" where
  "sleep_gap env wait after_phase dry s =
     (if py_le wait (Finite 0) then Some s
      else let s1 = append_jsonl (Gap_start after_phase) s in
        if dry then Some s1
        else map_option (\<lambda>n. append_jsonl (Gap_end after_phase) (s1\<lparr>run_looks := n\<rparr>))
          (gap_loop env (py_plus (Finite (clock env (run_looks s))) wait) (run_looks s + 1)))"

definition run_phase :: "run_env \<Rightarrow> nat \<Rightarrow> string list \<Rightarrow> bool \<Rightarrow> int" where
  "run_phase env n command dry = (if dry then 0 else child env n command)"

definition start_phase :: "nat \<Rightarrow> string \<Rightarrow> string list \<Rightarrow> run_state \<Rightarrow> run_state" where
  "start_phase tot phase command s =
     append_jsonl (Phase_start phase command)
       (s\<lparr>status_file := \<lparr>st_status = ''running'', st_current_phase = Some phase, st_completed_phases = length (phase_records s),
          st_total_phases = tot\<rparr>\<rparr>)"

definition end_phase :: "nat \<Rightarrow> string \<Rightarrow> string list \<Rightarrow> int \<Rightarrow> run_state \<Rightarrow> run_state" where
  "end_phase tot phase command rc s =
     (let s1 = append_jsonl (Phase_end phase rc) s;
          recs = phase_records s @ [\<lparr>rec_phase = phase, rec_returncode = rc, rec_command = command\<rparr>]
      in s1\<lparr>phase_records := recs, status_file := \<lparr>st_status = (if rc = 0 then ''running'' else ''failed''), st_current_phase = None,
           st_completed_phases = length recs, st_total_phases = tot\<rparr>\<rparr>)"

text \<open>The loop over the commands: the state, the exit code and whether it was interrupted.\<close>

fun phase_loop :: "run_env \<Rightarrow> runner_args \<Rightarrow> nat \<Rightarrow> nat \<Rightarrow> (string \<times> string list) list \<Rightarrow> run_state \<Rightarrow> (run_state \<times> int \<times> bool) option" where
  "phase_loop env args tot idx [] s = Some (s, 0, False)"
| "phase_loop env args tot idx ((phase, command) # rest) s =
     (let s0 = s\<lparr>run_looks := run_looks s + 1\<rparr> in
      if stop env (run_looks s) then Some (s0, 0, True)
      else let s1 = start_phase tot phase command s0;
               rc = run_phase env (length (phase_records s)) command (r_dry_run args);
               s2 = end_phase tot phase command rc s1
           in if rc \<noteq> 0 then Some (s2, rc, False)
              else if idx + 1 < tot
              then (case sleep_gap env (gap args) phase (r_dry_run args) s2 of None \<Rightarrow> None
                    | Some s3 \<Rightarrow> phase_loop env args tot (idx + 1) rest s3)
              else phase_loop env args tot (idx + 1) rest s2)"

definition start_run :: "string \<Rightarrow> nat \<Rightarrow> run_state" where
  "start_run rid tot =
     \<lparr>run_looks = 0, phase_records = [], markers = [Run_start rid],
      status_file = \<lparr>st_status = ''running'', st_current_phase = None, st_completed_phases = 0, st_total_phases = tot\<rparr>\<rparr>"

definition finish_run :: "string \<Rightarrow> nat \<Rightarrow> int \<Rightarrow> bool \<Rightarrow> run_state \<Rightarrow> run_state" where
  "finish_run rid tot exit_code intr s =
     (append_jsonl (Run_end rid exit_code intr) s)\<lparr>status_file :=
        \<lparr>st_status = (if intr then ''interrupted'' else if exit_code \<noteq> 0 then ''failed'' else ''complete''),
         st_current_phase = None, st_completed_phases = length (phase_records s), st_total_phases = tot\<rparr>\<rparr>"

definition run_phases :: "run_env \<Rightarrow> runner_args \<Rightarrow> string \<Rightarrow> (string \<times> string list) list \<Rightarrow> (run_state \<times> int \<times> bool) option" where
  "run_phases env args rid cmds =
     map_option (\<lambda>(s, exit_code, intr).
         let stopped = stop env (run_looks s); code = (if stopped then 130 else exit_code); i = (stopped \<or> intr)
         in (finish_run rid (length cmds) code i s, code, i))
       (phase_loop env args (length cmds) 0 cmds (start_run rid (length cmds)))"

text \<open>\<open>summary.json\<close>, from what \<^const>\<open>run_phases\<close> gives.\<close>

record run_summary =
  rs_run_id :: string
  rs_interrupted :: bool
  rs_exit_code :: int
  rs_phase_count :: nat
  rs_phases :: "phase_record list"

definition run_summary_of :: "string \<Rightarrow> run_state \<times> int \<times> bool \<Rightarrow> run_summary" where
  "run_summary_of rid x = (case x of (s, exit_code, intr) \<Rightarrow>
     \<lparr>rs_run_id = rid, rs_interrupted = intr, rs_exit_code = exit_code, rs_phase_count = length (phase_records s), rs_phases = phase_records s\<rparr>)"

section \<open>The manifest\<close>

record run_manifest =
  mf_run_id :: string
  mf_phases :: "string list"
  mf_preset :: "string option"
  mf_preset_counts :: "(string \<times> nat) list option"
  mf_normal_profile :: string
  mf_normal_duration :: py_float
  mf_sweep_duration :: "py_float option"
  mf_gap :: py_float
  mf_target :: string
  mf_targets_file :: "string option"
  mf_targets_api :: "string option"
  mf_discover_subnet :: "string option"
  mf_api_active_only :: bool
  mf_randomize :: bool
  mf_seed :: "int option"
  mf_shuffle_phases :: bool
  mf_dry_run :: bool
  mf_estimated_duration :: py_float
  mf_estimated_human :: string
  mf_commands :: "(string \<times> string list) list"

text \<open>The manifest; \<^term>\<open>None\<close> when the estimated duration cannot be printed.\<close>

definition make_manifest :: "runner_args \<Rightarrow> string \<Rightarrow> (string \<times> string list) list \<Rightarrow> py_float \<Rightarrow> run_manifest option" where
  "make_manifest args rid cmds est =
     map_option (\<lambda>human.
       \<lparr>mf_run_id = rid, mf_phases = r_phases args, mf_preset = preset args,
        mf_preset_counts = (if given (preset args) then map_of PRESETS (the (preset args)) else None),
        mf_normal_profile = normal_profile args, mf_normal_duration = normal_duration args, mf_sweep_duration = sweep_duration args,
        mf_gap = gap args, mf_target = r_target args, mf_targets_file = r_targets_file args, mf_targets_api = r_targets_api args,
        mf_discover_subnet = (if no_discover args then None else Some (r_discover_subnet args)),
        mf_api_active_only = r_api_active_only args, mf_randomize = r_randomize args, mf_seed = r_seed args,
        mf_shuffle_phases = shuffle_phases args, mf_dry_run = r_dry_run args, mf_estimated_duration = est, mf_estimated_human = human,
        mf_commands = cmds\<rparr>)
     (fmt_float_duration est)"

section \<open>Detaching and the program\<close>

text \<open>The status file of a detached run, without the process id and the time.\<close>

record detach_status =
  ds_run_id :: string
  ds_status :: string
  ds_log :: string
  ds_summary :: string
  ds_markers :: string
  ds_estimated_duration :: py_float
  ds_estimated_human :: string
  ds_command :: "string list"

definition detached_words :: "string list \<Rightarrow> string \<Rightarrow> string list" where
  "detached_words argv rid =
     (let child_args = filter (\<lambda>item. item \<noteq> ''--detach'') argv in
      if ''--run-id'' \<notin> set child_args \<and> \<not> list_ex (\<lambda>item. starts_with item ''--run-id='') child_args
      then child_args @ [''--run-id'', rid] else child_args)"

text \<open>\<open>detach\<close> once the child is started: the status, \<^term>\<open>None\<close> when the estimated duration cannot be printed.\<close>

definition detach_status_of :: "string \<Rightarrow> string \<Rightarrow> py_float \<Rightarrow> string list \<Rightarrow> detach_status option" where
  "detach_status_of run_dir rid est command =
     map_option (\<lambda>human.
       \<lparr>ds_run_id = rid, ds_status = ''detached'', ds_log = path_div run_dir ''research.log'', ds_summary = path_div run_dir ''summary.json'',
        ds_markers = path_div run_dir ''markers.jsonl'', ds_estimated_duration = est, ds_estimated_human = human, ds_command = command\<rparr>)
     (fmt_float_duration est)"

datatype runner_exit =
    R_usage arg_error
  | R_key_error
  | R_refused string
  | R_detached "string list" "detach_status option"
  | R_overflow
  | R_dry run_manifest
  | R_run run_manifest "(run_state \<times> int \<times> bool) option" "run_summary option"

text \<open>
  \<open>main\<close>; \<open>fresh\<close> is the run id made from the time and a random number, and \<open>args.phases\<close> is replaced by those of a preset.
\<close>

definition runner_main ::
  "run_env \<Rightarrow> (int option \<Rightarrow> string list \<Rightarrow> string list) \<Rightarrow> string \<Rightarrow> string \<Rightarrow> string \<Rightarrow> string list \<Rightarrow> runner_exit" where
  "runner_main env shuffled fresh python repo_root argv =
     (case parse_args runner_options runner_store runner_defaults argv of Inl e \<Rightarrow> R_usage e | Inr args0 \<Rightarrow>
      case (if given (preset args0) then preset_phases shuffled (the (preset args0)) (r_seed args0) (shuffle_phases args0)
            else Some (r_phases args0)) of None \<Rightarrow> R_key_error | Some ps \<Rightarrow>
      let args = args0\<lparr>r_phases := ps\<rparr>;
          sources = length (filter given [r_targets_file args, r_targets_api args]);
          rid = (if given (r_run_id args) then the (r_run_id args) else fresh)
      in if 1 < sources \<or> no_discover args \<and> 0 < sources then R_refused ''use only one target source''
         else if detach args \<and> r_dry_run args then R_refused ''--detach cannot be used with --dry-run''
         else (case estimated_duration args of None \<Rightarrow> R_key_error | Some est \<Rightarrow>
           if detach args
           then (let command = python # (repo_root @ ''/scripts/research-traffic-runner.py'') # detached_words argv rid
                 in R_detached command (detach_status_of (path_div (r_out_dir args) rid) rid est command))
           else (let cmds = commands python repo_root args rid in
             case make_manifest args rid cmds est of None \<Rightarrow> R_overflow | Some manifest \<Rightarrow>
             if r_dry_run args then R_dry manifest
             else let ended = run_phases env args rid cmds in R_run manifest ended (map_option (run_summary_of rid) ended))))"

section \<open>The shortcut\<close>

text \<open>\<open>src/research.py\<close>: without arguments it starts the default plan in the background.\<close>

definition DEFAULT_RESEARCH_ARGS :: "string list" where
  "DEFAULT_RESEARCH_ARGS = [''--preset'', ''balanced35'', ''--gap'', ''5m'', ''--randomize'', ''--shuffle-phases'', ''--detach'']"

definition research_words :: "string list \<Rightarrow> string list" where
  "research_words argv = (if argv = [] then DEFAULT_RESEARCH_ARGS else argv)"

end
