(* ===== verification/Runner_Properties.thy ===== *)
theory Runner_Properties
  imports Research_Runner
begin

text \<open>
  Properties of the research runner: its plans, the commands it starts, the loop over the phases, and detaching.
\<close>

section \<open>Presets\<close>

lemma fst_update: "k \<in> set (map fst al) \<Longrightarrow> map fst (AList.update k v al) = map fst al"
  by (induction al) auto

text \<open>A round takes one phase of every kind that is left, in the order given.\<close>

lemma preset_round_takes:
  assumes "distinct ps" "set ps \<subseteq> set (map fst rem)"
  shows "\<exists>rem'. preset_round ps rem phases = Some (rem', phases @ filter (\<lambda>p. 0 < the (map_of rem p)) ps) \<and>
    map fst rem' = map fst rem \<and>
    (\<forall>p \<in> set (map fst rem). the (map_of rem' p) = the (map_of rem p) - (if p \<in> set ps then 1 else 0))"
  using assms
proof (induction ps arbitrary: rem phases)
  case (Cons p ps)
  then obtain n where n: "map_of rem p = Some n" by (metis domIff dom_map_of_conv_image_fst insert_subset list.set_map list.simps(15) not_None_eq)
  let ?rem = "if 0 < n then AList.update p (n - 1) rem else rem"
  let ?phases = "if 0 < n then phases @ [p] else phases"
  have k: "map fst ?rem = map fst rem" using Cons.prems by (auto simp: fst_update)
  have l: "map_of ?rem q = (if q = p then Some (n - 1) else map_of rem q)" for q
    using n by (auto simp: map_of_update_if)
  obtain rem' where r: "preset_round ps ?rem ?phases = Some (rem', ?phases @ filter (\<lambda>q. 0 < the (map_of ?rem q)) ps)"
    "map fst rem' = map fst rem"
    "\<forall>q \<in> set (map fst rem). the (map_of rem' q) = the (map_of ?rem q) - (if q \<in> set ps then 1 else 0)"
    using Cons.IH [of ?rem ?phases] Cons.prems k by auto
  have "filter (\<lambda>q. 0 < the (map_of ?rem q)) ps = filter (\<lambda>q. 0 < the (map_of rem q)) ps"
    using Cons.prems(1) by (intro filter_cong) (auto simp: l)
  moreover have "the (map_of rem' q) = the (map_of rem q) - (if q \<in> set (p # ps) then 1 else 0)" if "q \<in> set (map fst rem)" for q
    using r(3) that n Cons.prems(1) by (auto simp: l)
  ultimately show ?case using r(1,2) n by (intro exI [of _ rem']) auto
qed auto

lemma sum_counts: "distinct (map fst al) \<Longrightarrow> sum_list (map snd al) = (\<Sum>p \<in> set (map fst al). the (map_of al p))"
proof (induction al)
  case (Cons x al)
  obtain k v where x: "x = (k, v)" by force
  have "(\<Sum>p \<in> set (map fst al). the (map_of (x # al) p)) = (\<Sum>p \<in> set (map fst al). the (map_of al p))"
    using Cons.prems x by (intro sum.cong) auto
  then show ?case using Cons x by simp
qed simp

text \<open>The rounds end, and have then taken every phase as often as it was to be.\<close>

lemma preset_loop_counts:
  assumes "distinct order" "distinct (map fst rem)" "set (map fst rem) = set order"
  shows "\<exists>ps. preset_loop order rem phases = Some (phases @ ps) \<and> set ps \<subseteq> set order \<and>
    (\<forall>p \<in> set order. count_list ps p = the (map_of rem p))"
  using assms(2,3)
proof (induction "sum_list (map snd rem)" arbitrary: rem phases rule: less_induct)
  case less
  note sum = sum_counts [OF less.prems(1), unfolded less.prems(2)]
  show ?case
  proof (cases "0 < sum_list (map snd rem)")
    case False
    then have "\<forall>p \<in> set order. the (map_of rem p) = 0" using sum by simp
    moreover have "preset_loop order rem phases = Some phases" unfolding preset_loop.simps [of order rem] if_not_P [OF False] ..
    ultimately show ?thesis by (intro exI [of _ "[]"]) simp
  next
    case True
    let ?now = "filter (\<lambda>p. 0 < the (map_of rem p)) order"
    obtain rem' where r: "preset_round order rem phases = Some (rem', phases @ ?now)" "map fst rem' = map fst rem"
      "\<forall>p \<in> set order. the (map_of rem' p) = the (map_of rem p) - 1"
      using preset_round_takes [OF assms(1), of rem phases] unfolding less.prems(2) by auto
    have "sum_list (map snd rem') < sum_list (map snd rem)"
    proof -
      obtain p where p: "p \<in> set order" "0 < the (map_of rem p)" using True sum by (metis gr0I sum.neutral less_numeral_extra(3))
      have "(\<Sum>p \<in> set order. the (map_of rem' p)) < (\<Sum>p \<in> set order. the (map_of rem p))"
        using r(3) p by (intro sum_strict_mono_ex1) (auto intro!: bexI [of _ p])
      then show ?thesis using sum_counts [of rem'] sum less.prems r(2) by (simp del: set_map)
    qed
    from less.hyps [OF this] obtain ps where ps: "preset_loop order rem' (phases @ ?now) = Some ((phases @ ?now) @ ps)"
      "set ps \<subseteq> set order" "\<forall>p \<in> set order. count_list ps p = the (map_of rem' p)"
      using r(2) less.prems by metis
    have "count_list (?now @ ps) p = the (map_of rem p)" if "p \<in> set order" for p
    proof -
      have "count_list ?now p = (if 0 < the (map_of rem p) then 1 else 0)"
        using assms(1) that by (induction order) auto
      then show ?thesis using ps(3) r(3) that by auto
    qed
    moreover have "preset_loop order rem phases = Some (phases @ ?now @ ps)"
      using True r(1) ps(1) by (simp add: preset_loop.simps [of order rem])
    ultimately show ?thesis using ps(2) by (intro exI [of _ "?now @ ps"]) auto
  qed
qed

text \<open>
  The plan of a preset. Whatever the preset, its plan is finite and holds every phase exactly as often as the table
  says, shuffled or not, and only phases of the port sweep, so that each has a duration; unshuffled, no phase of
  \<open>balanced35\<close> is followed by itself.
\<close>

theorem preset_plan:
  assumes perm: "\<forall>s xs. mset (shuffled s xs) = mset xs" and preset: "map_of PRESETS name = Some table"
  shows "\<exists>ps. preset_phases shuffled name rs sh = Some ps \<and> length ps = sum_list (map snd table) \<and>
    (\<forall>p. count_list ps p = (case map_of table p of None \<Rightarrow> 0 | Some n \<Rightarrow> n)) \<and>
    (\<forall>p \<in> set ps. p \<in> set PORT_SWEEP_PHASES \<and> phase_duration args p \<noteq> None) \<and>
    (\<not> sh \<longrightarrow> list_all (\<lambda>(p, q). p \<noteq> q) (zip ps (tl ps)))"
proof -
  let ?order = "[''negative'', ''positive'', ''borderline'', ''slow'', ''aggressive'']"
  have t: "table = [(''negative'', 10), (''positive'', 10), (''borderline'', 5), (''slow'', 5), (''aggressive'', 5)]"
    "name = ''balanced35''" using preset by (auto simp: PRESETS_def split: if_splits)
  have d: "distinct ?order" "distinct (map fst table)" "set (map fst table) = set ?order" by (auto simp: t)
  obtain ps where ps: "preset_loop ?order table [] = Some ps" "set ps \<subseteq> set ?order" "\<forall>p \<in> set ?order. count_list ps p = the (map_of table p)"
    using preset_loop_counts [OF d, of "[]"] by auto
  have "preset_phases (\<lambda>_ x. x) ''balanced35'' None False = Some (concat (replicate 5 ?order) @ concat (replicate 5 [''negative'', ''positive'']))"
    by code_simp
  then have ps': "ps = concat (replicate 5 ?order) @ concat (replicate 5 [''negative'', ''positive''])"
    using ps(1) preset by (simp add: preset_phases_def t)
  let ?res = "if sh then shuffled rs ps else ps"
  have m: "mset ?res = mset ps" using perm by simp
  have "preset_phases shuffled name rs sh = Some ?res" using ps(1) preset by (simp add: preset_phases_def)
  moreover have "length ?res = sum_list (map snd table)"
    using mset_eq_length [OF m] by (simp add: ps' t numeral_eq_Suc)
  moreover have "count_list ?res p = (case map_of table p of None \<Rightarrow> 0 | Some n \<Rightarrow> n)" for p
  proof -
    have "count_list ?res p = count_list ps p" using m by (metis count_mset)
    also have "\<dots> = (case map_of table p of None \<Rightarrow> 0 | Some n \<Rightarrow> n)"
    proof (cases "p \<in> set ?order")
      case True
      then show ?thesis using ps(3) d(3) by (auto split: option.split simp: t)
    next
      case False
      then have "count_list ps p = 0" using ps(2) unfolding count_list_0_iff by blast
      moreover have "map_of table p = None" using False d(3) unfolding map_of_eq_None_iff by (metis list.set_map)
      ultimately show ?thesis by simp
    qed
    finally show ?thesis .
  qed
  moreover have "p \<in> set PORT_SWEEP_PHASES \<and> phase_duration args p \<noteq> None" if "p \<in> set ?res" for p
  proof -
    have "p \<in> set ?order" using that mset_eq_setD [OF m] ps(2) by auto
    then show ?thesis by (auto simp: PORT_SWEEP_PHASES_def phase_duration_def PORT_SWEEP_DURATIONS_def split: option.split)
  qed
  moreover have "list_all (\<lambda>(p, q). p \<noteq> q) (zip ps (tl ps))" by (simp add: ps' numeral_eq_Suc)
  ultimately show ?thesis by (intro exI [of _ ?res]) auto
qed

theorem preset_plan_witness:
  "\<exists>ps. preset_phases (\<lambda>_. rev) ''balanced35'' None True = Some ps \<and> length ps = 35 \<and> count_list ps ''slow'' = 5"
proof -
  let ?table = "[(''negative'', 10), (''positive'', 10), (''borderline'', 5), (''slow'', 5), (''aggressive'', 5)]"
  have "map_of PRESETS ''balanced35'' = Some ?table" by (simp add: PRESETS_def)
  note plan = preset_plan [OF _ this, of "\<lambda>_. rev" None True runner_defaults]
  have "\<exists>ps. preset_phases (\<lambda>_. rev) ''balanced35'' None True = Some ps \<and> length ps = sum_list (map snd ?table) \<and>
      count_list ps ''slow'' = (case map_of ?table ''slow'' of None \<Rightarrow> 0 | Some n \<Rightarrow> n)"
    using plan by (metis mset_rev)
  then show ?thesis by simp
qed

section \<open>What the sweep makes of a phase's command\<close>

lemma sweep_opts:
  "value_option sweep_options ''--target''"
  "value_option sweep_options ''--targets-file''"
  "value_option sweep_options ''--targets-api''"
  "value_option sweep_options ''--discover-subnet''"
  "value_option sweep_options ''--profile''"
  "value_option sweep_options ''--run-id''"
  "value_option sweep_options ''--out-dir''"
  "value_option sweep_options ''--seed''"
  "value_option sweep_options ''--duration''"
  "flag_option sweep_options ''--api-active-only''"
  "flag_option sweep_options ''--randomize''"
  by code_simp+

lemma sweep_store_simps:
  "sweep_store ''--target'' v a = Inr (a\<lparr>target := v\<rparr>)"
  "sweep_store ''--targets-file'' v a = Inr (a\<lparr>targets_file := Some v\<rparr>)"
  "sweep_store ''--targets-api'' v a = Inr (a\<lparr>targets_api := Some v\<rparr>)"
  "sweep_store ''--api-active-only'' v a = Inr (a\<lparr>api_active_only := True\<rparr>)"
  "sweep_store ''--discover-subnet'' v a = Inr (a\<lparr>discover_subnet := Some v\<rparr>)"
  "sweep_store ''--profile'' v a = choice (map fst PROFILES) v (a\<lparr>profile := v\<rparr>)"
  "sweep_store ''--duration'' v a = map_sum id (\<lambda>x. a\<lparr>duration := Some x\<rparr>) (parse_duration v)"
  "sweep_store ''--randomize'' v a = Inr (a\<lparr>randomize := True\<rparr>)"
  "sweep_store ''--seed'' v a = typed (parse_int v) (\<lambda>x. a\<lparr>seed := Some x\<rparr>)"
  "sweep_store ''--run-id'' v a = Inr (a\<lparr>run_id := Some v\<rparr>)"
  "sweep_store ''--out-dir'' v a = Inr (a\<lparr>out_dir := v\<rparr>)"
  by (simp_all add: sweep_store_def)

lemma profile_choice: "phase \<in> set PORT_SWEEP_PHASES \<Longrightarrow> choice (map fst PROFILES) phase a = Inr a"
  by (auto simp: choice_def PORT_SWEEP_PHASES_def PROFILES_def)

text \<open>Numbers and paths written into a command.\<close>

lemma sweep_no_digit: "no_digit_options sweep_options"
  by code_simp

lemma phase_run_id_plain: "plain rid \<Longrightarrow> rid \<noteq> [] \<Longrightarrow> plain (phase_run_id rid i phase)"
  by (auto simp: phase_run_id_def plain_def)

text \<open>The namespace of the child.\<close>

definition child_targets :: "runner_args \<Rightarrow> sweep_args \<Rightarrow> sweep_args" where
  "child_targets args a =
     (if given (r_targets_file args) then a\<lparr>targets_file := r_targets_file args\<rparr>
      else if given (r_targets_api args) then a\<lparr>targets_api := r_targets_api args, api_active_only := r_api_active_only args\<rparr>
      else if no_discover args then a\<lparr>target := r_target args\<rparr>
      else a\<lparr>discover_subnet := Some (r_discover_subnet args)\<rparr>)"

definition child_args :: "runner_args \<Rightarrow> string \<Rightarrow> string \<Rightarrow> nat \<Rightarrow> sweep_args" where
  "child_args args rid phase index =
     (child_targets args sweep_defaults)\<lparr>profile := phase, run_id := Some (phase_run_id rid index phase),
        out_dir := path_div (child_out_root args) ''port-sweep'', seed := map_option (\<lambda>s. s + int index) (r_seed args),
        duration := sweep_duration args, randomize := r_randomize args\<rparr>"

definition plain_words :: "runner_args \<Rightarrow> string \<Rightarrow> bool" where
  "plain_words args rid \<longleftrightarrow> rid \<noteq> [] \<and> list_all plain [rid, r_target args, r_discover_subnet args, path_div (child_out_root args) ''port-sweep''] \<and>
     
     (case r_targets_file args of None \<Rightarrow> True | Some f \<Rightarrow> plain f) \<and> (case r_targets_api args of None \<Rightarrow> True | Some u \<Rightarrow> plain u)"

lemma parse_target_args:
  assumes p: "plain_words args rid"
  shows "parse_args sweep_options sweep_store sweep_defaults (target_args args @ ws) =
    parse_args sweep_options sweep_store (child_targets args sweep_defaults) ws"
proof -
  have "plain (r_target args)" "plain (r_discover_subnet args)" 
    "case r_targets_file args of None \<Rightarrow> True | Some f \<Rightarrow> plain f" "case r_targets_api args of None \<Rightarrow> True | Some u \<Rightarrow> plain u"
    using p by (simp_all add: plain_words_def)
  moreover have "sweep_defaults\<lparr>targets_api := x, api_active_only := False\<rparr> = sweep_defaults\<lparr>targets_api := x\<rparr>" for x
    by (simp add: sweep_defaults_def)
  ultimately show ?thesis
    by (auto simp: target_args_def child_targets_def given_def parse_store_value parse_store_flag sweep_store_simps sweep_opts
        split: option.splits)
qed


text \<open>
  What the sweep makes of the command the runner starts for a phase. When the words the runner was given do not
  look like options, the sweep accepts the command line and its checks, and what it is asked to do is the phase's
  profile with the profile's ports and rate, at the one target source the runner was given, with the phase's run
  id and seed, and for as long as the runner reckons with.
\<close>

lemma child_command_accepted:
  assumes phase: "phase \<in> set PORT_SWEEP_PHASES" and words: "plain_words args rid"
    and seed: "\<And>s. r_seed args = Some s \<Longrightarrow> length (int_str (s + int index)) \<le> 4300"
    and dur: "\<And>d. sweep_duration args = Some d \<Longrightarrow> plain (float_str d) \<and> parse_duration (float_str d) = Inr d"
  shows "parse_args sweep_options sweep_store sweep_defaults (drop 2 (phase_command python repo_root args rid phase index)) =
      Inr (child_args args rid phase index) \<and>
    check_args (child_args args rid phase index) = None \<and>
    parse_ports (ports_arg (child_args args rid phase index)) phase = Inr (pr_ports (the (map_of PROFILES phase))) \<and>
    (sweep_duration args = None \<longrightarrow> map_option (Finite \<circ> pr_duration_seconds) (map_of PROFILES phase) = phase_duration args phase)"
proof (intro conjI impI)
  note plain = phase_run_id_plain [of rid index phase] words [unfolded plain_words_def, simplified]
  let ?a = "child_targets args sweep_defaults"
  let ?b = "?a\<lparr>profile := phase, run_id := Some (phase_run_id rid index phase), out_dir := path_div (child_out_root args) ''port-sweep''\<rparr>"
  let ?c = "?b\<lparr>seed := map_option (\<lambda>s. s + int index) (r_seed args)\<rparr>"
  let ?d = "?c\<lparr>duration := sweep_duration args\<rparr>"
  have unset: "?b\<lparr>seed := None\<rparr> = ?b" "?c\<lparr>duration := None\<rparr> = ?c" "?d\<lparr>randomize := False\<rparr> = ?d"
    by (simp_all add: child_targets_def sweep_defaults_def)
  have p: "phase \<noteq> ''normal''" "plain phase" using phase by (auto simp: PORT_SWEEP_PHASES_def plain_def)
  show "parse_args sweep_options sweep_store sweep_defaults (drop 2 (phase_command python repo_root args rid phase index)) =
      Inr (child_args args rid phase index)"
  proof -
    have s1: "parse_args sweep_options sweep_store ?a (''--profile'' # phase # ''--run-id'' # phase_run_id rid index phase #
        ''--out-dir'' # path_div (child_out_root args) ''port-sweep'' # ws) = parse_args sweep_options sweep_store ?b ws" for ws
    proof -
      have "parse_args sweep_options sweep_store ?a (''--profile'' # phase # vs) = parse_args sweep_options sweep_store (?a\<lparr>profile := phase\<rparr>) vs" for vs
        using p(2) by (intro parse_store_value) (simp_all add: sweep_opts sweep_store_simps profile_choice [OF phase])
      then show ?thesis using plain by (simp add: parse_store_value sweep_store_simps sweep_opts)
    qed
    have s2: "parse_args sweep_options sweep_store ?b (seed_args args index @ ws) = parse_args sweep_options sweep_store ?c ws" for ws
      using unset(1) seed classify_int_str [OF sweep_no_digit]
      by (auto simp: seed_args_def parse_store_value sweep_store_simps sweep_opts typed_def parse_int_str split: option.splits)
    have s3: "parse_args sweep_options sweep_store ?c ((case sweep_duration args of None \<Rightarrow> [] | Some d \<Rightarrow> [''--duration'', float_str d]) @ ws) =
        parse_args sweep_options sweep_store ?d ws" for ws
      using unset(2) dur by (auto simp: parse_store_value sweep_store_simps sweep_opts split: option.splits)
    have s4: "parse_args sweep_options sweep_store ?d (if r_randomize args then [''--randomize''] else []) =
        Inr (?d\<lparr>randomize := r_randomize args\<rparr>)"
      using unset(3) by (cases "r_randomize args") (simp_all add: parse_store_flag sweep_store_simps sweep_opts parse_args_Nil)
    show ?thesis using p(1) parse_target_args [OF words]
      by (simp add: phase_command_def sweep_words_def s1 s2 s3 s4 child_args_def)
  qed
next
  have d: "duration (child_args args rid phase index) = sweep_duration args" by (simp add: child_args_def)
  have c: "rate a = None" "timeout a = Finite (3 / 4)" "api_timeout a = Finite 5" "discovery_timeout a = to_float (1 / 5)"
    "discovery_workers a = 64" "repeat a = 1" "jitter a = to_float (1 / 10)" "progress_every a = 25"
    "length (filter given [targets_file a, targets_api a, discover_subnet a]) \<le> 1" if "a = child_args args rid phase index" for a
    using that by (auto simp: child_args_def child_targets_def sweep_defaults_def given_def)
  show "check_args (child_args args rid phase index) = None"
    using c(9) [OF refl] dur parse_duration_nonneg by (auto simp: check_args_def c(1-8) [OF refl] to_float_literals d)
next
  have "ports_arg (child_args args rid phase index) = None" by (simp add: child_args_def child_targets_def sweep_defaults_def)
  moreover have "map_of PROFILES phase \<noteq> None" using phase by (auto simp: PORT_SWEEP_PHASES_def PROFILES_def)
  ultimately show "parse_ports (ports_arg (child_args args rid phase index)) phase = Inr (pr_ports (the (map_of PROFILES phase)))"
    by (auto simp: parse_ports_def)
next
  assume "sweep_duration args = None"
  then show "map_option (Finite \<circ> pr_duration_seconds) (map_of PROFILES phase) = phase_duration args phase"
    using phase by (auto simp: phase_duration_def PORT_SWEEP_PHASES_def PROFILES_def PORT_SWEEP_DURATIONS_def)
qed

section \<open>The run\<close>

text \<open>The markers that a list of phases leaves, of \<open>n\<close> that were still to come, with or without gaps between them.\<close>

fun phase_markers :: "bool \<Rightarrow> nat \<Rightarrow> phase_record list \<Rightarrow> marker list" where
  "phase_markers gaps n [] = []"
| "phase_markers gaps n (r # rs) =
     [Phase_start (rec_phase r) (rec_command r), Phase_end (rec_phase r) (rec_returncode r)] @
     (if gaps \<and> rec_returncode r = 0 \<and> 1 < n then [Gap_start (rec_phase r), Gap_end (rec_phase r)] else []) @
     phase_markers gaps (n - 1) rs"

text \<open>Every gap ends: the clock passes its end, or a stop is requested for good.\<close>

definition waits_end :: "run_env \<Rightarrow> py_float \<Rightarrow> bool" where
  "waits_end env w \<longleftrightarrow> (\<exists>N. \<forall>n \<ge> N. stop env n) \<or>
     (\<forall>i. \<exists>N. \<forall>n \<ge> N. \<not> py_less (Finite (clock env n)) (py_plus (Finite (clock env i)) w))"

lemma gap_loop_returns:
  assumes "(\<forall>n \<ge> N. stop env n) \<or> (\<forall>n \<ge> N. \<not> py_less (Finite (clock env n)) e)"
  shows "\<exists>n'. gap_loop env e n = Some n' \<and> n < n'"
proof (induction "N - n" arbitrary: n rule: less_induct)
  case less
  show ?case
  proof (cases "\<not> stop env n \<and> py_less (Finite (clock env (n + 1))) e")
    case True
    then have "n < N" using assms by (meson le_add1 le_trans not_less)
    then have "N - (n + 2) < N - n" by simp
    from less [OF this] obtain n' where "gap_loop env e (n + 2) = Some n'" "n + 2 < n'" by blast
    with True show ?thesis by (intro exI [of _ n']) (simp add: gap_loop.simps [of env e n])
  next
    case False
    then show ?thesis by (auto simp: gap_loop.simps [of env e n])
  qed
qed

lemma sleep_gap_returns:
  assumes "waits_end env w"
  shows "\<exists>n'. run_looks s \<le> n' \<and> sleep_gap env w phase False s =
    Some (s\<lparr>run_looks := n', markers := markers s @ (if py_le w (Finite 0) then [] else [Gap_start phase, Gap_end phase])\<rparr>)"
proof (cases "py_le w (Finite 0)")
  case True
  then show ?thesis by (intro exI [of _ "run_looks s"]) (simp add: sleep_gap_def)
next
  case False
  from assms obtain N where "(\<forall>n \<ge> N. stop env n) \<or>
      (\<forall>n \<ge> N. \<not> py_less (Finite (clock env n)) (py_plus (Finite (clock env (run_looks s))) w))"
    unfolding waits_end_def by blast
  from gap_loop_returns [OF this, of "run_looks s + 1"] obtain n' where
    "gap_loop env (py_plus (Finite (clock env (run_looks s))) w) (run_looks s + 1) = Some n'" "run_looks s + 1 < n'" by blast
  with False show ?thesis by (intro exI [of _ n']) (simp add: sleep_gap_def append_jsonl_def Let_def)
qed

lemma phase_frame [simp]:
  "phase_records (start_phase tot phase command s) = phase_records s" "run_looks (start_phase tot phase command s) = run_looks s"
  "markers (start_phase tot phase command s) = markers s @ [Phase_start phase command]"
  "phase_records (end_phase tot phase command rc s) =
     phase_records s @ [\<lparr>rec_phase = phase, rec_returncode = rc, rec_command = command\<rparr>]"
  "run_looks (end_phase tot phase command rc s) = run_looks s"
  "markers (end_phase tot phase command rc s) = markers s @ [Phase_end phase rc]"
  by (simp_all add: start_phase_def end_phase_def append_jsonl_def Let_def)

text \<open>What the loop leaves behind when it starts with \<open>s\<close> and still has \<open>cmds\<close> to do.\<close>

definition loop_result ::
  "run_env \<Rightarrow> runner_args \<Rightarrow> (string \<times> string list) list \<Rightarrow> run_state \<Rightarrow> phase_record list \<Rightarrow> run_state \<times> int \<times> bool \<Rightarrow> bool" where
  "loop_result env args cmds s rs res \<longleftrightarrow>
     (case res of (s', code, intr) \<Rightarrow>
        phase_records s' = phase_records s @ rs \<and>
        map (\<lambda>r. (rec_phase r, rec_command r)) rs = take (length rs) cmds \<and>
        (\<forall>i < length rs. rec_returncode (rs ! i) = child env (length (phase_records s) + i) (rec_command (rs ! i))) \<and>
        (\<forall>r \<in> set (butlast rs). rec_returncode r = 0) \<and>
        markers s' = markers s @ phase_markers (\<not> py_le (gap args) (Finite 0)) (length cmds) rs \<and>
        run_looks s \<le> run_looks s' \<and>
        code = (if rs = [] then 0 else rec_returncode (last rs)) \<and>
        (if intr then code = 0 \<and> stop env (run_looks s' - 1) \<and> 0 < run_looks s' else code = 0 \<longrightarrow> length rs = length cmds))"

lemma phase_loop_result:
  assumes "waits_end env (gap args)" "\<not> r_dry_run args" "idx + length cmds = tot"
  shows "\<exists>rs res. phase_loop env args tot idx cmds s = Some res \<and> loop_result env args cmds s rs res"
  using assms(3)
proof (induction cmds arbitrary: idx s)
  case Nil
  show ?case by (intro exI [of _ "[]"] exI [of _ "(s, 0, False)"]) (simp add: loop_result_def)
next
  case (Cons c rest)
  obtain phase command where c: "c = (phase, command)" by force
  let ?s0 = "s\<lparr>run_looks := run_looks s + 1\<rparr>"
  let ?rc = "child env (length (phase_records s)) command"
  let ?r = "\<lparr>rec_phase = phase, rec_returncode = ?rc, rec_command = command\<rparr>"
  let ?s2 = "end_phase tot phase command ?rc (start_phase tot phase command ?s0)"
  have s2: "phase_records ?s2 = phase_records s @ [?r]" "run_looks ?s2 = run_looks s + 1"
    "markers ?s2 = markers s @ [Phase_start phase command, Phase_end phase ?rc]"
    by simp_all
  consider (stop) "stop env (run_looks s)" | (failed) "\<not> stop env (run_looks s)" "?rc \<noteq> 0" | (passed) "\<not> stop env (run_looks s)" "?rc = 0"
    by blast
  then show ?case
  proof cases
    case stop
    then show ?thesis
      by (intro exI [of _ "[]"] exI [of _ "(?s0, 0, True)"]) (simp add: c loop_result_def)
  next
    case failed
    have "phase_loop env args tot idx (c # rest) s = Some (?s2, ?rc, False)"
      using failed assms(2) by (simp add: c Let_def run_phase_def)
    moreover have "loop_result env args (c # rest) s [?r] (?s2, ?rc, False)"
      using failed by (simp add: loop_result_def c)
    ultimately show ?thesis by blast
  next
    case passed
    let ?gap = "if \<not> py_le (gap args) (Finite 0) \<and> 1 < length (c # rest) then [Gap_start phase, Gap_end phase] else []"
    obtain s3 where s3: "phase_records s3 = phase_records s @ [?r]" "run_looks s + 1 \<le> run_looks s3"
      "markers s3 = markers ?s2 @ ?gap" "phase_loop env args tot idx (c # rest) s = phase_loop env args tot (idx + 1) rest s3"
    proof (cases "idx + 1 < tot")
      case True
      obtain n where n: "run_looks ?s2 \<le> n" "sleep_gap env (gap args) phase False ?s2 =
          Some (?s2\<lparr>run_looks := n, markers := markers ?s2 @ (if py_le (gap args) (Finite 0) then [] else [Gap_start phase, Gap_end phase])\<rparr>)"
        using sleep_gap_returns [OF assms(1), of ?s2 phase] by blast
      show thesis
      proof (rule that)
        let ?s3 = "?s2\<lparr>run_looks := n, markers := markers ?s2 @ (if py_le (gap args) (Finite 0) then [] else [Gap_start phase, Gap_end phase])\<rparr>"
        show "phase_records ?s3 = phase_records s @ [?r]" "run_looks s + 1 \<le> run_looks ?s3" using s2 n(1) by simp_all
        show "markers ?s3 = markers ?s2 @ ?gap" using True Cons.prems by auto
        show "phase_loop env args tot idx (c # rest) s = phase_loop env args tot (idx + 1) rest ?s3"
          using passed True assms(2) n(2) by (simp add: c Let_def run_phase_def)
      qed
    next
      case False
      then have "rest = []" using Cons.prems by (cases rest) auto
      with False show thesis
        using Cons.prems passed assms(2) by (intro that [of ?s2]) (simp_all add: c Let_def run_phase_def)
    qed
    obtain rs res where IH: "phase_loop env args tot (idx + 1) rest s3 = Some res" "loop_result env args rest s3 rs res"
      using Cons.IH [of "idx + 1" s3] Cons.prems by auto
    have "loop_result env args (c # rest) s (?r # rs) res"
    proof -
      obtain s' code intr where res: "res = (s', code, intr)" by (cases res)
      note r = IH(2) [unfolded loop_result_def res prod.case]
      have codes: "\<forall>i < length (?r # rs). rec_returncode ((?r # rs) ! i) = child env (length (phase_records s) + i) (rec_command ((?r # rs) ! i))"
        using r s3(1) by (auto simp: nth_Cons split: nat.split)
      show ?thesis unfolding loop_result_def res prod.case
        using r codes s3(1-3) s2(3) passed(2) by (auto simp: c)
    qed
    with IH(1) s3(4) show ?thesis by auto
  qed
qed


definition ex_run_env :: run_env where
  "ex_run_env = \<lparr>stop = (\<lambda>n. 100 < n), clock = (\<lambda>n. if n < 3 then 0 else 1000), child = (\<lambda>i _. if i = 1 then 1 else 0)\<rparr>"


section \<open>Detaching\<close>

lemma map_sum_comp: "map_sum id f (map_sum id g x) = map_sum id (f \<circ> g) x"
  by (cases x) auto

lemma map_sum_typed: "map_sum id f (typed x g) = typed x (f \<circ> g)"
  by (cases x) (auto simp: typed_def)

lemma map_sum_choice: "map_sum id f (choice names v a) = choice names v (f a)"
  by (simp add: choice_def)

lemma runner_store_detach:
  "opt \<noteq> ''--detach'' \<Longrightarrow> runner_store opt v (a\<lparr>detach := b\<rparr>) = map_sum id (detach_update (\<lambda>_. b)) (runner_store opt v a)"
  by (cases a) (simp add: runner_store_def if_distrib [of "map_sum id (detach_update (\<lambda>_. b))"] map_sum_comp map_sum_typed map_sum_choice comp_def
      cong: if_cong)

lemma store_all_filter:
  "store_all runner_store xs a = Inr b \<Longrightarrow>
     store_all runner_store (filter (\<lambda>x. fst x \<noteq> ''--detach'') xs) (a\<lparr>detach := False\<rparr>) = Inr (b\<lparr>detach := False\<rparr>)"
proof (induction runner_store xs a rule: store_all.induct)
  case (2 opt v xs a)
  obtain c where c: "runner_store opt v a = Inr c" "store_all runner_store xs c = Inr b"
    using 2(2) by (auto split: sum.splits)
  show ?case
  proof (cases "opt = ''--detach''")
    case True
    then have "c = a\<lparr>detach := True\<rparr>" using c(1) by (simp add: runner_store_def)
    with True 2(1) [OF c(1) c(2)] show ?thesis by simp
  next
    case False
    with runner_store_detach [OF False, of v False a] c(1) 2(1) [OF c(1) c(2)] show ?thesis by simp
  qed
qed simp

lemma runner_store_run_id:
  "runner_store opt v a = Inr b \<Longrightarrow> opt = ''--run-id'' \<or> r_run_id a \<noteq> None \<Longrightarrow> r_run_id b \<noteq> None"
  by (auto simp: runner_store_def typed_def choice_def map_sum_def split: if_splits option.splits sum.splits)

lemma store_all_run_id:
  "store_all runner_store xs a = Inr b \<Longrightarrow> ''--run-id'' \<in> fst ` set xs \<or> r_run_id a \<noteq> None \<Longrightarrow> r_run_id b \<noteq> None"
proof (induction runner_store xs a rule: store_all.induct)
  case (2 opt v xs a)
  obtain c where c: "runner_store opt v a = Inr c" "store_all runner_store xs c = Inr b"
    using 2(2) by (auto split: sum.splits)
  from 2(3) runner_store_run_id [OF c(1)] have "''--run-id'' \<in> fst ` set xs \<or> r_run_id c \<noteq> None" by auto
  from 2(1) [OF c(1) c(2) this] show ?case .
qed simp

lemma run_id_words:
  "classify_word runner_options ''--run-id'' = Opt ''--run-id'' None" "starts_with w ''--run-id='' \<Longrightarrow> \<exists>v. classify_word runner_options w = Opt ''--run-id'' (Some v)"
proof -
  show "classify_word runner_options ''--run-id'' = Opt ''--run-id'' None" by code_simp
  assume "starts_with w ''--run-id=''"
  then obtain v where w: "w = ''--run-id='' @ v" unfolding starts_with_def by (metis append_take_drop_id)
  have "list_all (\<lambda>(opt, _). CHR ''='' \<notin> set opt) runner_options" by code_simp
  moreover have "CHR ''='' \<in> set w" using w by simp
  ultimately have "map_of runner_options w = None" by (fastforce simp: map_of_eq_None_iff list_all_iff)
  moreover have "map_of runner_options ''--run-id'' \<noteq> None" by code_simp
  ultimately show "\<exists>v. classify_word runner_options w = Opt ''--run-id'' (Some v)"
    by (simp add: classify_word_def split_eq_def w)
qed

text \<open>
  C38: the detached run has the same plan. When \<open>--detach\<close> is written in full wherever it is given, and the run id is neither
  empty nor looks like an option, the command line of the detached child reads as the parent's arguments with
  \<open>detach\<close> off and the parent's run id, so that the child fills the directory the parent has announced.
\<close>

theorem detached_same_plan:
  assumes parent: "parse_args runner_options runner_store runner_defaults argv = Inr args"
    and full: "\<forall>w \<in> set argv. \<forall>e. classify_word runner_options w = Opt ''--detach'' e \<longrightarrow> w = ''--detach''"
    and rid: "rid = (if given (r_run_id args) then the (r_run_id args) else fresh)" "rid \<noteq> []" "plain rid" "r_run_id args \<noteq> Some []"
  shows "parse_args runner_options runner_store runner_defaults (detached_words argv rid) =
    Inr (args\<lparr>detach := False, r_run_id := Some rid\<rparr>)"
proof -
  let ?words = "filter (\<lambda>item. item \<noteq> ''--detach'') argv"
  let ?args = "args\<lparr>detach := False\<rparr>"
  have flag: "flag_option runner_options ''--detach''" and val: "value_option runner_options ''--run-id''" by code_simp+
  from parent obtain vs where p: "reads runner_options argv vs" "store_all runner_store vs runner_defaults = Inr args"
    by (auto simp: parse_args_reads)
  note f = reads_without [OF flag p(1) full]
  have "runner_defaults\<lparr>detach := False\<rparr> = runner_defaults" by (simp add: runner_defaults_def)
  then have st: "store_all runner_store (filter (\<lambda>x. fst x \<noteq> ''--detach'') vs) runner_defaults = Inr ?args"
    using store_all_filter [OF p(2)] by simp
  show ?thesis
  proof (cases "''--run-id'' \<notin> set ?words \<and> \<not> list_ex (\<lambda>item. starts_with item ''--run-id='') ?words")
    case True
    then have "detached_words argv rid = ?words @ [''--run-id'', rid]" by (simp add: detached_words_def Let_def)
    moreover have "parse_args runner_options runner_store ?args [''--run-id'', rid] = Inr (?args\<lparr>r_run_id := Some rid\<rparr>)"
      using parse_store_value [OF val classify_plain [OF rid(3)], of runner_store ?args "?args\<lparr>r_run_id := Some rid\<rparr>" "[]"]
      by (simp add: runner_store_def parse_args_Nil)
    ultimately show ?thesis using parse_args_append [OF f st] by simp
  next
    case False
    then consider "''--run-id'' \<in> set argv" | item where "item \<in> set argv" "starts_with item ''--run-id=''"
      by (auto simp: list_ex_iff)
    then obtain w e where w: "w \<in> set argv" "classify_word runner_options w = Opt ''--run-id'' e"
      using run_id_words by cases blast+
    then have "r_run_id args \<noteq> None" using reads_given [OF p(1)] store_all_run_id [OF p(2)] by blast
    then have "r_run_id args = Some rid" using rid(1,4) by (auto simp: given_def split: if_splits)
    then have "args\<lparr>detach := False, r_run_id := Some rid\<rparr> = ?args" by simp
    moreover have "detached_words argv rid = ?words" using False by (auto simp: detached_words_def Let_def)
    ultimately show ?thesis using st f parse_args_reads by metis
  qed
qed

theorem detached_same_plan_witness:
  "parse_args runner_options runner_store runner_defaults (detached_words [''--detach'', ''--seed'', ''7''] ''r1'') =
     Inr (runner_defaults\<lparr>r_seed := Some 7, r_run_id := Some ''r1''\<rparr>)"
proof -
  have p: "parse_args runner_options runner_store runner_defaults [''--detach'', ''--seed'', ''7''] =
      Inr (runner_defaults\<lparr>detach := True, r_seed := Some 7\<rparr>)" by code_simp
  have f: "\<forall>w \<in> set [''--detach'', ''--seed'', ''7'']. \<forall>e. classify_word runner_options w = Opt ''--detach'' e \<longrightarrow> w = ''--detach''"
  proof -
    have "classify_word runner_options ''--seed'' = Opt ''--seed'' None" "classify_word runner_options ''7'' = Arg" by code_simp+
    then show ?thesis by simp
  qed
  have r: "''r1'' = (if given (r_run_id (runner_defaults\<lparr>detach := True, r_seed := Some 7\<rparr>)) then the (r_run_id (runner_defaults\<lparr>detach := True, r_seed := Some 7\<rparr>)) else ''r1'')"
    "plain ''r1''" "r_run_id (runner_defaults\<lparr>detach := True, r_seed := Some 7\<rparr>) \<noteq> Some []"
    by (simp_all add: runner_defaults_def given_def plain_def)
  have "runner_defaults\<lparr>detach := True, r_seed := Some 7, detach := False, r_run_id := Some ''r1''\<rparr> =
      runner_defaults\<lparr>r_seed := Some 7, r_run_id := Some ''r1''\<rparr>" by (simp add: runner_defaults_def)
  with detached_same_plan [OF p f r(1) _ r(2,3)] show ?thesis by simp
qed

text \<open>
  An abbreviation that \<open>argparse\<close> takes for \<open>--detach\<close> is left in the child's command line: the child detaches as
  well, with the same words again.
\<close>

lemma abbreviated_detach_repeats:
  "detached_words [''--deta'', ''--run-id'', ''r1''] ''r1'' = [''--deta'', ''--run-id'', ''r1'']"
  "\<exists>status. runner_main env shuffled fresh python repo [''--deta'', ''--run-id'', ''r1''] =
     R_detached (python # (repo @ ''/scripts/research-traffic-runner.py'') # [''--deta'', ''--run-id'', ''r1'']) status"
proof -
  show d: "detached_words [''--deta'', ''--run-id'', ''r1''] ''r1'' = [''--deta'', ''--run-id'', ''r1'']" by code_simp
  have "parse_args runner_options runner_store runner_defaults [''--deta'', ''--run-id'', ''r1''] =
      Inr (runner_defaults\<lparr>detach := True, r_run_id := Some ''r1''\<rparr>)" by code_simp
  moreover have "estimated_duration (runner_defaults\<lparr>detach := True, r_run_id := Some ''r1''\<rparr>) \<noteq> None"
    by (simp add: estimated_duration_def runner_defaults_def DEFAULT_PHASES_def phase_duration_def PORT_SWEEP_DURATIONS_def)
  ultimately show "\<exists>status. runner_main env shuffled fresh python repo [''--deta'', ''--run-id'', ''r1''] =
     R_detached (python # (repo @ ''/scripts/research-traffic-runner.py'') # [''--deta'', ''--run-id'', ''r1'']) status"
    by (auto simp: runner_main_def runner_defaults_def given_def d Let_def)
qed

end
