(* ===== verification/Web_Address.thy ===== *)
theory Web_Address
  imports Durations
begin

text \<open>
  Addresses of web pages as \<open>urllib.parse.urlparse\<close> takes them apart, with the host and the port of the result. Whether
  a host in brackets is an address of version 6 is given from outside.
\<close>

section \<open>Parts of text\<close>

text \<open>\<open>s.partition(c)\<close> and \<open>s.rpartition(c)\<close>: the part before, whether the separator was found, and the part after.\<close>

definition partition_at :: "char \<Rightarrow> string \<Rightarrow> string \<times> bool \<times> string" where
  "partition_at c s = (takeWhile (\<lambda>d. d \<noteq> c) s, c \<in> set s, drop 1 (dropWhile (\<lambda>d. d \<noteq> c) s))"

definition after_last :: "char \<Rightarrow> string \<Rightarrow> string" where
  "after_last c s = rev (takeWhile (\<lambda>d. d \<noteq> c) (rev s))"

definition ascii_letter :: "char \<Rightarrow> bool" where
  "ascii_letter c = (let n = (of_char c :: int) in 65 \<le> n \<and> n \<le> 90 \<or> 97 \<le> n \<and> n \<le> 122)"

definition scheme_char :: "char \<Rightarrow> bool" where
  "scheme_char c \<longleftrightarrow> ascii_letter c \<or> is_digit c \<or> c \<in> {CHR ''+'', CHR ''-'', CHR ''.''}"

section \<open>Taking an address apart\<close>

record web_address =
  u_scheme :: string
  u_netloc :: string
  u_path :: string
  u_params :: string
  u_query :: string
  u_fragment :: string

definition uses_params :: "string list" where
  "uses_params = [[], ''ftp'', ''hdl'', ''prospero'', ''http'', ''imap'', ''https'', ''shttp'', ''rtsp'', ''rtsps'', ''rtspu'', ''sip'',
     ''sips'', ''mms'', ''sftp'', ''tel'']"

definition split_scheme :: "string \<Rightarrow> string \<times> string" where
  "split_scheme s =
     (case partition_at CHR '':'' s of (name, found, rest) \<Rightarrow>
        if found \<and> name \<noteq> [] \<and> ascii_letter (hd name) \<and> list_all scheme_char name then (lower name, rest) else ([], s))"

definition split_netloc :: "string \<Rightarrow> string \<times> string" where
  "split_netloc s =
     (if starts_with s ''//''
      then (let r = drop 2 s; stop = (\<lambda>c. c \<in> {CHR ''/'', CHR ''?'', CHR ''#''})
        in (takeWhile (\<lambda>c. \<not> stop c) r, dropWhile (\<lambda>c. \<not> stop c) r))
      else ([], s))"

definition split_params :: "string \<Rightarrow> string \<times> string" where
  "split_params s =
     (let seg = after_last CHR ''/'' s; base = take (length s - length seg) s in
      case partition_at CHR '';'' seg of (p, found, params) \<Rightarrow> if found then (base @ p, params) else (s, []))"

text \<open>\<^term>\<open>None\<close> is a \<open>ValueError\<close>: brackets that do not match, or hold no address.\<close>

definition urlparse :: "(string \<Rightarrow> bool) \<Rightarrow> string \<Rightarrow> web_address option" where
  "urlparse bracket_ok s =
     (let t = filter (\<lambda>c. c \<notin> {CHR 0x09, CHR 0x0A, CHR 0x0D}) (dropWhile (\<lambda>c. (of_char c :: int) \<le> 32) s);
          (scheme, r1) = split_scheme t; (netloc, r2) = split_netloc r1;
          opening = CHR ''['' \<in> set netloc; closing = CHR '']'' \<in> set netloc
      in if opening \<noteq> closing \<or> opening \<and> \<not> bracket_ok netloc then None
         else
           let (r3, _, fragment) = partition_at CHR ''#'' r2; (r4, _, query) = partition_at CHR ''?'' r3;
               (path, params) = (if scheme \<in> set uses_params then split_params r4 else (r4, []))
           in Some \<lparr>u_scheme = scheme, u_netloc = netloc, u_path = path, u_params = params, u_query = query, u_fragment = fragment\<rparr>)"

text \<open>\<open>hostname\<close> and the text of the port, empty when there is none.\<close>

definition host_and_port :: "web_address \<Rightarrow> string \<times> string" where
  "host_and_port u =
     (case partition_at CHR ''['' (after_last CHR ''@'' (u_netloc u)) of (before, bracket, bracketed) \<Rightarrow>
        if bracket then (case partition_at CHR '']'' bracketed of (host, _, rest) \<Rightarrow> (host, snd (snd (partition_at CHR '':'' rest))))
        else (case partition_at CHR '':'' before of (host, _, port) \<Rightarrow> (host, port)))"

definition url_hostname :: "web_address \<Rightarrow> string option" where
  "url_hostname u = (let h = fst (host_and_port u) in
     if h = [] then None else (case partition_at CHR ''%'' h of (name, found, zone) \<Rightarrow> Some (lower name @ (if found then CHR ''%'' # zone else []))))"

text \<open>\<open>port\<close>: the inner \<^term>\<open>None\<close> is no port, the outer a \<open>ValueError\<close>.\<close>

definition url_port :: "web_address \<Rightarrow> int option option" where
  "url_port u = (let p = snd (host_and_port u) in
     if p = [] then Some None
     else if \<not> list_all is_digit p then None
     else case parse_int p of None \<Rightarrow> None | Some n \<Rightarrow> if n \<le> 65535 then Some (Some n) else None)"

section \<open>Addresses of the usual form\<close>

lemma takeWhile_all: "list_all P xs \<Longrightarrow> takeWhile P xs = xs"
  by (simp add: list_all_iff takeWhile_eq_all_conv)

lemma partition_at_found: "list_all (\<lambda>d. d \<noteq> c) xs \<Longrightarrow> partition_at c (xs @ c # ys) = (xs, True, ys)"
  by (simp add: partition_at_def list_all_iff takeWhile_append dropWhile_append)

lemma partition_at_none: "c \<notin> set xs \<Longrightarrow> partition_at c xs = (xs, False, [])"
proof -
  assume "c \<notin> set xs"
  then have w: "takeWhile (\<lambda>d. d \<noteq> c) xs = xs" "dropWhile (\<lambda>d. d \<noteq> c) xs = []" by (auto simp: takeWhile_eq_all_conv dropWhile_eq_Nil_conv)
  from \<open>c \<notin> set xs\<close> show ?thesis unfolding partition_at_def w by simp
qed

lemma partition_at_parts: "partition_at c s = (a, found, b) \<Longrightarrow> s = a @ (if found then c # b else [])"
proof -
  assume p: "partition_at c s = (a, found, b)"
  show ?thesis
  proof (cases "c \<in> set s")
    case True
    then obtain xs ys where "s = xs @ c # ys" "c \<notin> set xs" by (meson split_list_first)
    then show ?thesis using p partition_at_found [of c xs ys] by (auto simp: list_all_iff)
  next
    case False
    then show ?thesis using p partition_at_none [OF False] by auto
  qed
qed

text \<open>Without brackets nothing is asked of the outside, and \<open>urlparse\<close> always has a result.\<close>

lemma split_scheme_subset: "split_scheme s = (name, rest) \<Longrightarrow> set rest \<subseteq> set s"
  using partition_at_parts [of "CHR '':''" s] by (auto simp: split_scheme_def split: prod.splits if_splits)

lemma split_netloc_subset: "split_netloc s = (netloc, rest) \<Longrightarrow> set netloc \<subseteq> set s"
  by (auto simp: split_netloc_def Let_def dest!: set_takeWhileD in_set_dropD split: if_splits)

lemma urlparse_no_brackets:
  assumes "CHR ''['' \<notin> set s" "CHR '']'' \<notin> set s"
  shows "urlparse b s = urlparse (\<lambda>_. False) s" "urlparse b s \<noteq> None"
proof -
  let ?t = "filter (\<lambda>c. c \<notin> {CHR 0x09, CHR 0x0A, CHR 0x0D}) (dropWhile (\<lambda>c. (of_char c :: int) \<le> 32) s)"
  obtain name r1 where 1: "split_scheme ?t = (name, r1)" by fastforce
  obtain netloc r2 where 2: "split_netloc r1 = (netloc, r2)" by fastforce
  have "set netloc \<subseteq> set s" using split_scheme_subset [OF 1] split_netloc_subset [OF 2] by (auto dest: set_dropWhileD)
  then have n: "CHR ''['' \<notin> set netloc" "CHR '']'' \<notin> set netloc" using assms by blast+
  then show "urlparse b s = urlparse (\<lambda>_. False) s" "urlparse b s \<noteq> None"
    unfolding urlparse_def Let_def 1 2 prod.case by (simp_all split: prod.split)
qed

end
