(* ===== verification/Iot_Emulator.thy ===== *)
theory Iot_Emulator
  imports Sweep_Setup Web_Address "HOL-Library.Char_ord"
begin

text \<open>
  The device emulator (\<open>src/scripts/iot-device-emulator.py\<close>): its profiles, its command line and the checks of \<open>main\<close>,
  and the loop that looks up names, fetches one endpoint and sends heartbeats in cycles, with the records it writes. The clock, the
  random choice, name lookups and sockets are given from outside, so that the sleep between cycles (\<open>sleep_for\<close> of \<open>Port_Sweep\<close>) is
  only computed; time stamps, durations and what is printed are not modelled.
\<close>

section \<open>Profiles\<close>

record emulator_profile =
  em_duration_seconds :: rat
  em_interval_seconds :: rat
  em_jitter :: rat
  em_endpoints :: "string list"
  em_dns_hosts :: "string list"
  em_udp_targets :: "string list"
  em_label :: string
  em_description :: string

definition EMULATOR_PROFILES :: "(string \<times> emulator_profile) list" where
  "EMULATOR_PROFILES =
     [(''sensor'', \<lparr>em_duration_seconds = 600, em_interval_seconds = 30, em_jitter = 1 / 5,
        em_endpoints = [''https://www.cloudflare.com/cdn-cgi/trace'', ''https://example.com/''],
        em_dns_hosts = [''pool.ntp.org'', ''example.com'', ''www.cloudflare.com''], em_udp_targets = [''1.1.1.1:123''],
        em_label = ''benign_iot_sensor'', em_description = ''Low-volume periodic telemetry baseline.''\<rparr>),
      (''plug'', \<lparr>em_duration_seconds = 600, em_interval_seconds = 20, em_jitter = 1 / 4,
        em_endpoints = [''https://example.com/'', ''https://www.google.com/generate_204''],
        em_dns_hosts = [''example.com'', ''www.google.com''], em_udp_targets = [],
        em_label = ''benign_smart_plug'', em_description = ''Small cloud check-ins with light DNS.''\<rparr>),
      (''camera-idle'', \<lparr>em_duration_seconds = 600, em_interval_seconds = 10, em_jitter = 3 / 20,
        em_endpoints = [''https://example.com/'', ''https://www.cloudflare.com/cdn-cgi/trace''],
        em_dns_hosts = [''example.com'', ''www.cloudflare.com'', ''time.cloudflare.com''], em_udp_targets = [''1.1.1.1:123''],
        em_label = ''benign_camera_idle'', em_description = ''Idle camera-like cloud keepalive traffic, not video streaming.''\<rparr>)]"

definition emulator_split_csv :: "string option \<Rightarrow> string list option" where
  "emulator_split_csv value =
     map_option (\<lambda>v. filter (\<lambda>item. item \<noteq> []) (map strip (split_on CHR '','' v))) value"

text \<open>\<open>split_csv(value) or default\<close>.\<close>

definition csv_or :: "string option \<Rightarrow> string list \<Rightarrow> string list" where
  "csv_or value fallback =
     (case emulator_split_csv value of None \<Rightarrow> fallback | Some items \<Rightarrow> if items = [] then fallback else items)"

section \<open>The command line\<close>

record emulator_args =
  e_profile :: string
  e_duration :: "py_float option"
  e_interval :: "py_float option"
  e_jitter :: "py_float option"
  e_endpoints :: "string option"
  e_dns_hosts :: "string option"
  e_udp_targets :: "string option"
  e_timeout :: py_float
  e_max_bytes :: int
  e_seed :: "int option"
  e_dry_run :: bool
  e_run_id :: "string option"
  e_out_dir :: string

definition emulator_options :: options where
  "emulator_options =
     [(''-h'', False), (''--help'', False), (''--profile'', True), (''--duration'', True), (''--interval'', True),
      (''--jitter'', True), (''--endpoints'', True), (''--dns-hosts'', True), (''--udp-targets'', True), (''--timeout'', True),
      (''--max-bytes'', True), (''--seed'', True), (''--dry-run'', False), (''--run-id'', True), (''--out-dir'', True)]"

definition emulator_store :: "string \<Rightarrow> string \<Rightarrow> emulator_args \<Rightarrow> arg_error + emulator_args" where
  "emulator_store opt v a =
     (if opt = ''--profile'' then choice (map fst EMULATOR_PROFILES) v (a\<lparr>e_profile := v\<rparr>)
      else if opt = ''--duration'' then map_sum id (\<lambda>x. a\<lparr>e_duration := Some x\<rparr>) (emulator_parse_duration v)
      else if opt = ''--interval'' then typed (parse_float v) (\<lambda>x. a\<lparr>e_interval := Some x\<rparr>)
      else if opt = ''--jitter'' then typed (parse_float v) (\<lambda>x. a\<lparr>e_jitter := Some x\<rparr>)
      else if opt = ''--endpoints'' then Inr (a\<lparr>e_endpoints := Some v\<rparr>)
      else if opt = ''--dns-hosts'' then Inr (a\<lparr>e_dns_hosts := Some v\<rparr>)
      else if opt = ''--udp-targets'' then Inr (a\<lparr>e_udp_targets := Some v\<rparr>)
      else if opt = ''--timeout'' then typed (parse_float v) (\<lambda>x. a\<lparr>e_timeout := x\<rparr>)
      else if opt = ''--max-bytes'' then typed (parse_int v) (\<lambda>x. a\<lparr>e_max_bytes := x\<rparr>)
      else if opt = ''--seed'' then typed (parse_int v) (\<lambda>x. a\<lparr>e_seed := Some x\<rparr>)
      else if opt = ''--dry-run'' then Inr (a\<lparr>e_dry_run := True\<rparr>)
      else if opt = ''--run-id'' then Inr (a\<lparr>e_run_id := Some v\<rparr>)
      else if opt = ''--out-dir'' then Inr (a\<lparr>e_out_dir := v\<rparr>)
      else Inl Usage)"

definition emulator_defaults :: emulator_args where
  "emulator_defaults =
     \<lparr>e_profile = ''sensor'', e_duration = None, e_interval = None, e_jitter = None, e_endpoints = None, e_dns_hosts = None,
      e_udp_targets = None, e_timeout = Finite 3, e_max_bytes = 2048, e_seed = None, e_dry_run = False, e_run_id = None,
      e_out_dir = ''artifacts/iot-emulator''\<rparr>"

section \<open>The plan\<close>

datatype emulator_error =
    Not_positive string
  | Bad_timing
  | Unknown_emulator_profile string
  | Not_a_number
  | Too_late
  | Lookup_failed string
  | Fetch_failed string
  | Not_ascii string
  | Bad_port string

record emulator_plan =
  ep_run_id :: string
  ep_duration :: py_float
  ep_interval :: py_float
  ep_jitter :: py_float
  ep_endpoints :: "string list"
  ep_dns_hosts :: "string list"
  ep_udp_targets :: "string list"
  ep_label :: string
  ep_estimated_cycles :: int
  ep_estimated_end :: "int option"
  ep_max_bytes :: int

text \<open>The checks of \<open>main\<close>, with a new run id where none is given, \<open>int\<close> of a duration or interval that is not a number, and an end after the last year.\<close>

definition emulator_make_plan :: "string \<Rightarrow> int \<Rightarrow> emulator_args \<Rightarrow> emulator_error + emulator_plan" where
  "emulator_make_plan fresh now args =
     (case map_of EMULATOR_PROFILES (e_profile args) of None \<Rightarrow> Inl (Unknown_emulator_profile (e_profile args)) | Some prof \<Rightarrow>
      if py_le (e_timeout args) (Finite 0) then Inl (Not_positive ''--timeout'')
      else if e_max_bytes args \<le> 0 then Inl (Not_positive ''--max-bytes'')
      else
        let d = (case e_duration args of Some x \<Rightarrow> x | None \<Rightarrow> to_float (em_duration_seconds prof));
            i = (case e_interval args of Some x \<Rightarrow> x | None \<Rightarrow> to_float (em_interval_seconds prof));
            j = (case e_jitter args of Some x \<Rightarrow> x | None \<Rightarrow> to_float (em_jitter prof))
        in if py_less d (Finite 0) \<or> py_le i (Finite 0) \<or> py_less j (Finite 0) then Inl Bad_timing
           else case (if d = Finite 0 then Some 0 else map_option (max 1) (py_int (py_divide d i))) of
               None \<Rightarrow> Inl Not_a_number
             | Some cycles \<Rightarrow>
                 let end_at = (if py_less (Finite 0) d then map_option (\<lambda>us. now + us) (microseconds d) else None)
                 in if py_less (Finite 0) d \<and> (case end_at of None \<Rightarrow> True | Some e \<Rightarrow> max_instant \<le> e) then Inl Too_late
                    else Inr \<lparr>ep_run_id = (if given (e_run_id args) then the (e_run_id args) else fresh),
                      ep_duration = d, ep_interval = i, ep_jitter = j,
                      ep_endpoints = csv_or (e_endpoints args) (em_endpoints prof),
                      ep_dns_hosts = csv_or (e_dns_hosts args) (em_dns_hosts prof),
                      ep_udp_targets = csv_or (e_udp_targets args) (em_udp_targets prof),
                      ep_label = em_label prof, ep_estimated_cycles = cycles, ep_estimated_end = end_at,
                      ep_max_bytes = e_max_bytes args\<rparr>)"

section \<open>The network\<close>

text \<open>
  How an operation on the network ends: with a value, an \<open>OSError\<close> and its text, or another exception, which gets out of the
  operation (a \<open>UnicodeError\<close> for a name the codec of host names refuses, say).
\<close>

datatype 'a net =
    Net_value 'a
  | Net_os_error string
  | Net_raises

text \<open>
  What happens meanwhile: the clock before the \<open>n\<close>-th cycle, and in it the addresses of names, the endpoint chosen, opening a
  connection (with TLS or without), the answer to a request, finding the host of a heartbeat and sending it; and which
  hosts in brackets \<open>urlparse\<close> takes.
\<close>

record emulator_env =
  at_cycle :: "nat \<Rightarrow> rat"
  lookup :: "nat \<Rightarrow> string \<Rightarrow> string list net"
  chosen :: "nat \<Rightarrow> string list \<Rightarrow> string"
  open_connection :: "nat \<Rightarrow> bool \<Rightarrow> string \<Rightarrow> int \<Rightarrow> unit net"
  exchange :: "nat \<Rightarrow> string \<Rightarrow> int \<Rightarrow> string net"
  host_found :: "nat \<Rightarrow> string \<Rightarrow> unit net"
  sent :: "nat \<Rightarrow> string \<Rightarrow> int \<Rightarrow> string \<Rightarrow> unit net"
  bracket_ok :: "string \<Rightarrow> bool"

definition shown_error :: "string \<Rightarrow> string option" where
  "shown_error e = (if e = [] then None else Some e)"

record dns_record =
  dr_host :: string
  dr_ok :: bool
  dr_addresses :: "string list"
  dr_error :: "string option"

definition resolve_host :: "emulator_env \<Rightarrow> nat \<Rightarrow> string \<Rightarrow> dns_record option" where
  "resolve_host env n name = (case lookup env n name of
       Net_value found \<Rightarrow> Some \<lparr>dr_host = name, dr_ok = True, dr_addresses = take 5 (sort (remdups found)), dr_error = None\<rparr>
     | Net_os_error e \<Rightarrow> Some \<lparr>dr_host = name, dr_ok = False, dr_addresses = [], dr_error = shown_error e\<rparr>
     | Net_raises \<Rightarrow> None)"

text \<open>\<open>encode("ascii")\<close> raises for other characters.\<close>

definition ascii :: "string \<Rightarrow> bool" where
  "ascii s = list_all (\<lambda>c. (of_char c :: int) < 128) s"

section \<open>Fetching an endpoint\<close>

text \<open>In the records of this and the next section, what an early return leaves out is \<^term>\<open>None\<close> or 0.\<close>

record http_record =
  hr_url :: string
  hr_host :: "string option"
  hr_port :: "int option"
  hr_ok :: bool
  hr_status :: "int option"
  hr_bytes_read :: nat
  hr_error :: "string option"

definition CRLF :: string where
  "CRLF = [CHR 0x0D, CHR 0x0A]"

definition request_text :: "string \<Rightarrow> string \<Rightarrow> string" where
  "request_text path host =
     ''GET '' @ path @ '' HTTP/1.1'' @ CRLF @ ''Host: '' @ host @ CRLF @ ''User-Agent: pi-agents-iot-emulator/1.0'' @ CRLF @
     ''Accept: */*'' @ CRLF @ ''Connection: close'' @ CRLF @ CRLF"

text \<open>The first line of an answer, where a question mark stands for a byte that is not ASCII, and the number in its second word.\<close>

fun first_line :: "string \<Rightarrow> string" where
  "first_line [] = []"
| "first_line (c # cs) = (if starts_with (c # cs) CRLF then [] else c # first_line cs)"

definition decode_ascii :: "string \<Rightarrow> string" where
  "decode_ascii = map (\<lambda>c. if (of_char c :: int) < 128 then c else CHR ''?'')"

text \<open>\<^term>\<open>None\<close>: \<open>int\<close> raises for more than 4300 digits.\<close>

definition status_of :: "string \<Rightarrow> int option option" where
  "status_of response =
     (case split_ws (decode_ascii (first_line response)) of
        a # b # rest \<Rightarrow> if list_all is_digit b then map_option Some (parse_int b) else Some None
      | _ \<Rightarrow> Some None)"

text \<open>
  \<open>http_get\<close>; \<^term>\<open>None\<close> when an exception other than \<open>OSError\<close> gets out: the \<open>ValueError\<close> of an address or its port, the
  \<open>UnicodeEncodeError\<close> of a request that is not ASCII once the connection is there, or one of the operations.
\<close>

definition http_get :: "emulator_env \<Rightarrow> nat \<Rightarrow> int \<Rightarrow> string \<Rightarrow> http_record option" where
  "http_get env n max_bytes url =
     (case urlparse (bracket_ok env) url of None \<Rightarrow> None | Some parsed \<Rightarrow>
      let scheme = (if u_scheme parsed = [] then ''https'' else u_scheme parsed) in
      case url_hostname parsed of
        None \<Rightarrow> Some \<lparr>hr_url = url, hr_host = None, hr_port = None, hr_ok = False, hr_status = None, hr_bytes_read = 0, hr_error = Some ''missing host''\<rparr>
      | Some host \<Rightarrow> (case url_port parsed of None \<Rightarrow> None | Some given_port \<Rightarrow>
          let https = (scheme = ''https'');
              port = (case given_port of Some p \<Rightarrow> if p \<noteq> 0 then p else if https then 443 else 80 | None \<Rightarrow> if https then 443 else 80);
              path = (if u_path parsed = [] then ''/'' else u_path parsed) @ (if u_query parsed = [] then [] else CHR ''?'' # u_query parsed);
              record = (\<lambda>ok status bytes err. Some \<lparr>hr_url = url, hr_host = Some host, hr_port = Some port, hr_ok = ok, hr_status = status,
                hr_bytes_read = bytes, hr_error = err\<rparr>)
          in case open_connection env n https host port of
               Net_raises \<Rightarrow> None
             | Net_os_error e \<Rightarrow> record False None 0 (shown_error e)
             | Net_value _ \<Rightarrow>
                 if \<not> ascii (request_text path host) then None
                 else (case exchange env n (request_text path host) max_bytes of
                     Net_raises \<Rightarrow> None
                   | Net_os_error e \<Rightarrow> record False None 0 (shown_error e)
                   | Net_value response \<Rightarrow> (case status_of response of None \<Rightarrow> None
                       | Some status \<Rightarrow> record True status (length response) None))))"

section \<open>Heartbeats\<close>

text \<open>\<open>target.rpartition(":")\<close>, and \<open>isdigit\<close>, which superscripts satisfy too.\<close>

definition rpartition :: "string \<Rightarrow> string \<times> string" where
  "rpartition goal =
     (let port = rev (takeWhile (\<lambda>c. c \<noteq> CHR '':'') (rev goal)); host = rev (drop 1 (dropWhile (\<lambda>c. c \<noteq> CHR '':'') (rev goal)))
      in (host, port))"

definition isdigit :: "string \<Rightarrow> bool" where
  "isdigit s \<longleftrightarrow> s \<noteq> [] \<and> list_all (\<lambda>c. is_digit c \<or> (of_char c :: int) \<in> {178, 179, 185}) s"

record udp_record =
  ur_target :: string
  ur_host :: "string option"
  ur_port :: "int option"
  ur_ok :: bool
  ur_bytes_sent :: nat
  ur_error :: "string option"

text \<open>
  One heartbeat: \<open>int\<close> may raise, and a port over 65535 makes \<open>sendto\<close> raise an \<open>OverflowError\<close>, which is no \<open>OSError\<close>, once
  the host has been found.
\<close>

definition udp_heartbeat :: "emulator_env \<Rightarrow> nat \<Rightarrow> string \<Rightarrow> string \<Rightarrow> emulator_error + udp_record" where
  "udp_heartbeat env n payload goal =
     (let (host, port_raw) = rpartition goal in
      if host = [] \<or> \<not> isdigit port_raw
      then Inr \<lparr>ur_target = goal, ur_host = None, ur_port = None, ur_ok = False, ur_bytes_sent = 0, ur_error = Some ''expected host:port''\<rparr>
      else case parse_int port_raw of None \<Rightarrow> Inl (Bad_port goal)
        | Some port \<Rightarrow>
            let record = (\<lambda>ok err. Inr \<lparr>ur_target = goal, ur_host = Some host, ur_port = Some port, ur_ok = ok,
              ur_bytes_sent = length payload, ur_error = err\<rparr>)
            in (case host_found env n host of
                 Net_raises \<Rightarrow> Inl (Lookup_failed host)
               | Net_os_error e \<Rightarrow> record False (shown_error e)
               | Net_value _ \<Rightarrow> if 65535 < port then Inl (Bad_port goal)
                   else (case sent env n host port payload of
                       Net_raises \<Rightarrow> Inl (Lookup_failed host)
                     | Net_os_error e \<Rightarrow> record False (shown_error e)
                     | Net_value _ \<Rightarrow> record True None)))"

section \<open>The cycles\<close>

datatype activity =
    Dns_lookup dns_record
  | Http_get http_record
  | Udp_heartbeat udp_record

datatype event =
    Cycle_start nat
  | Done nat activity
  | Cycle_end nat

record emulation =
  events :: "event list"
  dns_count :: nat
  http_count :: nat
  udp_count :: nat
  error_count :: nat

definition no_emulation :: emulation where
  "no_emulation = \<lparr>events = [], dns_count = 0, http_count = 0, udp_count = 0, error_count = 0\<rparr>"

fun succeeded :: "activity \<Rightarrow> bool" where
  "succeeded (Dns_lookup r) = dr_ok r"
| "succeeded (Http_get r) = hr_ok r"
| "succeeded (Udp_heartbeat r) = ur_ok r"

definition count_action :: "activity \<Rightarrow> emulation \<Rightarrow> emulation" where
  "count_action a s = (case a of Dns_lookup r \<Rightarrow> s\<lparr>dns_count := dns_count s + 1\<rparr>
     | Http_get r \<Rightarrow> s\<lparr>http_count := http_count s + 1\<rparr> | Udp_heartbeat r \<Rightarrow> s\<lparr>udp_count := udp_count s + 1\<rparr>)"

definition log_event :: "event \<Rightarrow> emulation \<Rightarrow> emulation" where
  "log_event e s = s\<lparr>events := events s @ [e]\<rparr>"

definition record_action :: "nat \<Rightarrow> activity \<Rightarrow> emulation \<Rightarrow> emulation" where
  "record_action n a s =
     (let s1 = count_action a (log_event (Done n a) s)
      in if succeeded a then s1 else s1\<lparr>error_count := error_count s1 + 1\<rparr>)"

fun resolve_hosts :: "emulator_env \<Rightarrow> nat \<Rightarrow> string list \<Rightarrow> emulation \<Rightarrow> emulator_error + emulation" where
  "resolve_hosts env n [] s = Inr s"
| "resolve_hosts env n (name # names) s =
     (case resolve_host env n name of None \<Rightarrow> Inl (Lookup_failed name)
      | Some r \<Rightarrow> resolve_hosts env n names (record_action n (Dns_lookup r) s))"

definition fetch_endpoint :: "emulator_env \<Rightarrow> int \<Rightarrow> nat \<Rightarrow> string list \<Rightarrow> emulation \<Rightarrow> emulator_error + emulation" where
  "fetch_endpoint env max_bytes n endpoints s =
     (if endpoints = [] then Inr s
      else let endpoint = chosen env n endpoints in
        case http_get env n max_bytes endpoint of None \<Rightarrow> Inl (Fetch_failed endpoint)
        | Some r \<Rightarrow> Inr (record_action n (Http_get r) s))"

text \<open>The text of a heartbeat names the run and the cycle.\<close>

definition heartbeat_text :: "string \<Rightarrow> nat \<Rightarrow> string" where
  "heartbeat_text rid n = ''iot-heartbeat run='' @ rid @ '' cycle='' @ nat_str n @ [CHR 0x0A]"

fun send_heartbeats :: "emulator_env \<Rightarrow> string \<Rightarrow> nat \<Rightarrow> string list \<Rightarrow> emulation \<Rightarrow> emulator_error + emulation" where
  "send_heartbeats env rid n [] s = Inr s"
| "send_heartbeats env rid n (goal # goals) s =
     (if \<not> ascii (heartbeat_text rid n) then Inl (Not_ascii rid)
      else case udp_heartbeat env n (heartbeat_text rid n) goal of Inl e \<Rightarrow> Inl e
      | Inr r \<Rightarrow> send_heartbeats env rid n goals (record_action n (Udp_heartbeat r) s))"

definition emulator_cycle :: "emulator_env \<Rightarrow> emulator_plan \<Rightarrow> nat \<Rightarrow> emulation \<Rightarrow> emulator_error + emulation" where
  "emulator_cycle env plan n s =
     (case resolve_hosts env n (ep_dns_hosts plan) (log_event (Cycle_start n) s) of Inl e \<Rightarrow> Inl e | Inr s1 \<Rightarrow>
      case fetch_endpoint env (ep_max_bytes plan) n (ep_endpoints plan) s1 of Inl e \<Rightarrow> Inl e | Inr s2 \<Rightarrow>
      case send_heartbeats env (ep_run_id plan) n (ep_udp_targets plan) s2 of Inl e \<Rightarrow> Inl e | Inr s3 \<Rightarrow>
      Inr (log_event (Cycle_end n) s3))"

text \<open>The loop; the result is the number of cycles and what they did, or the exception that got out.\<close>

partial_function (option) emulator_loop ::
  "emulator_env \<Rightarrow> emulator_plan \<Rightarrow> py_float \<Rightarrow> nat \<Rightarrow> emulation \<Rightarrow> (emulator_error + nat \<times> emulation) option" where
  "emulator_loop env plan end_at cycle s =
     (if ep_duration plan = Finite 0 \<and> cycle = 0 \<or> py_less (Finite 0) (ep_duration plan) \<and> py_less (Finite (at_cycle env cycle)) end_at
      then (case emulator_cycle env plan (cycle + 1) s of Inl e \<Rightarrow> Some (Inl e)
          | Inr s' \<Rightarrow> if ep_duration plan = Finite 0 then Some (Inr (cycle + 1, s'))
              else emulator_loop env plan end_at (cycle + 1) s')
      else Some (Inr (cycle, s)))"

declare emulator_loop.simps [code]

definition emulate :: "emulator_env \<Rightarrow> rat \<Rightarrow> emulator_plan \<Rightarrow> (emulator_error + nat \<times> emulation) option" where
  "emulate env started plan =
     emulator_loop env plan
       (if py_less (Finite 0) (ep_duration plan) then py_plus (Finite started) (ep_duration plan) else Finite started) 0 no_emulation"

text \<open>\<open>run.json\<close> and \<open>summary.json\<close>, without time stamps and notes; an exception leaves no summary.\<close>

record emulator_payload =
  ip_run_id :: string
  ip_profile :: string
  ip_label :: string
  ip_description :: string
  ip_estimated_end_at :: "int option"
  ip_duration_seconds :: py_float
  ip_interval_seconds :: py_float
  ip_jitter :: py_float
  ip_endpoints :: "string list"
  ip_dns_hosts :: "string list"
  ip_udp_targets :: "string list"
  ip_estimated_cycles :: int
  ip_seed :: "int option"
  ip_dry_run :: bool

definition emulator_run_payload :: "emulator_args \<Rightarrow> emulator_plan \<Rightarrow> emulator_payload" where
  "emulator_run_payload args plan =
     \<lparr>ip_run_id = ep_run_id plan, ip_profile = e_profile args, ip_label = ep_label plan,
      ip_description = em_description (the (map_of EMULATOR_PROFILES (e_profile args))), ip_estimated_end_at = ep_estimated_end plan,
      ip_duration_seconds = ep_duration plan, ip_interval_seconds = ep_interval plan, ip_jitter = ep_jitter plan,
      ip_endpoints = ep_endpoints plan, ip_dns_hosts = ep_dns_hosts plan, ip_udp_targets = ep_udp_targets plan,
      ip_estimated_cycles = ep_estimated_cycles plan, ip_seed = e_seed args, ip_dry_run = e_dry_run args\<rparr>"

record emulator_summary =
  is_run_id :: string
  is_profile :: string
  is_duration_seconds :: py_float
  is_cycle_count :: nat
  is_counts :: "(string \<times> nat) list"

definition emulator_summary_of :: "emulator_payload \<Rightarrow> nat \<times> emulation \<Rightarrow> emulator_summary" where
  "emulator_summary_of payload x = (case x of (cycle, s) \<Rightarrow>
     \<lparr>is_run_id = ip_run_id payload, is_profile = ip_profile payload, is_duration_seconds = ip_duration_seconds payload, is_cycle_count = cycle,
      is_counts = [(''dns_lookup'', dns_count s), (''http_get'', http_count s), (''udp_heartbeat'', udp_count s), (''error'', error_count s)]\<rparr>)"

datatype emulator_exit =
    E_usage arg_error
  | E_error emulator_error
  | E_dry emulator_payload
  | E_run emulator_payload "(emulator_error + emulator_summary) option"

definition emulator_main :: "emulator_env \<Rightarrow> string \<Rightarrow> int \<Rightarrow> rat \<Rightarrow> string list \<Rightarrow> emulator_exit" where
  "emulator_main env fresh now started words =
     (case parse_args emulator_options emulator_store emulator_defaults words of Inl e \<Rightarrow> E_usage e | Inr args \<Rightarrow>
      case emulator_make_plan fresh now args of Inl e \<Rightarrow> E_error e | Inr plan \<Rightarrow>
      let payload = emulator_run_payload args plan in
      if e_dry_run args then E_dry payload
      else E_run payload (map_option (map_sum id (emulator_summary_of payload)) (emulate env started plan)))"

section \<open>What a run does\<close>

text \<open>The events of one cycle that no exception ends.\<close>

definition dns_event :: "emulator_env \<Rightarrow> nat \<Rightarrow> string \<Rightarrow> event" where
  "dns_event env n name = Done n (Dns_lookup (the (resolve_host env n name)))"

definition http_event :: "emulator_env \<Rightarrow> emulator_plan \<Rightarrow> nat \<Rightarrow> event" where
  "http_event env plan n = Done n (Http_get (the (http_get env n (ep_max_bytes plan) (chosen env n (ep_endpoints plan)))))"

definition udp_event :: "emulator_env \<Rightarrow> string \<Rightarrow> nat \<Rightarrow> string \<Rightarrow> event" where
  "udp_event env rid n goal = Done n (Udp_heartbeat (projr (udp_heartbeat env n (heartbeat_text rid n) goal)))"

definition cycle_events :: "emulator_env \<Rightarrow> emulator_plan \<Rightarrow> nat \<Rightarrow> event list" where
  "cycle_events env plan n =
     [Cycle_start n] @ map (dns_event env n) (ep_dns_hosts plan) @ (if ep_endpoints plan = [] then [] else [http_event env plan n]) @
     map (udp_event env (ep_run_id plan) n) (ep_udp_targets plan) @ [Cycle_end n]"

fun activity_of :: "event \<Rightarrow> activity option" where
  "activity_of (Done n a) = Some a"
| "activity_of _ = None"

definition failed :: "event \<Rightarrow> bool" where
  "failed e = (case activity_of e of None \<Rightarrow> False | Some a \<Rightarrow> \<not> succeeded a)"

text \<open>The counters agree with the events.\<close>

definition tallies :: "emulation \<Rightarrow> bool" where
  "tallies s \<longleftrightarrow>
     dns_count s = length (filter (\<lambda>e. \<exists>r. activity_of e = Some (Dns_lookup r)) (events s)) \<and>
     http_count s = length (filter (\<lambda>e. \<exists>r. activity_of e = Some (Http_get r)) (events s)) \<and>
     udp_count s = length (filter (\<lambda>e. \<exists>r. activity_of e = Some (Udp_heartbeat r)) (events s)) \<and>
     error_count s = length (filter failed (events s))"

lemma record_action_events [simp]: "events (record_action n a s) = events s @ [Done n a]"
  by (cases a) (simp_all add: record_action_def count_action_def log_event_def Let_def)

lemma log_event_events [simp]: "events (log_event e s) = events s @ [e]"
  by (simp add: log_event_def)

lemma tallies_record: "tallies s \<Longrightarrow> tallies (record_action n a s)"
  by (cases a) (simp_all add: tallies_def failed_def record_action_def count_action_def log_event_def Let_def)

lemma tallies_log: "tallies s \<Longrightarrow> activity_of e = None \<Longrightarrow> tallies (log_event e s)"
  by (simp add: tallies_def failed_def log_event_def)

lemma resolve_result:
  "tallies s \<Longrightarrow> case resolve_hosts env n names s of
     Inl e \<Rightarrow> \<exists>name \<in> set names. resolve_host env n name = None \<and> e = Lookup_failed name
   | Inr s' \<Rightarrow> tallies s' \<and> events s' = events s @ map (dns_event env n) names"
proof (induction names arbitrary: s)
  case (Cons name names)
  show ?case
  proof (cases "resolve_host env n name")
    case (Some r)
    with Cons.IH [OF tallies_record [OF Cons.prems, of n "Dns_lookup r"]] show ?thesis by (auto simp: dns_event_def split: sum.splits)
  qed simp
qed simp

text \<open>A target that makes \<open>int\<close> or \<open>sendto\<close> raise.\<close>

definition bad_target :: "string \<Rightarrow> bool" where
  "bad_target goal \<longleftrightarrow>
     (let (host, port_raw) = rpartition goal in host \<noteq> [] \<and> isdigit port_raw \<and>
        (case parse_int port_raw of None \<Rightarrow> True | Some port \<Rightarrow> 65535 < port))"

text \<open>The exceptions that get out of the heartbeats of a cycle.\<close>

definition heartbeat_lost :: "emulator_env \<Rightarrow> string \<Rightarrow> string list \<Rightarrow> emulator_error \<Rightarrow> bool" where
  "heartbeat_lost env rid goals e \<longleftrightarrow> e = Not_ascii rid \<and> (\<exists>n. \<not> ascii (heartbeat_text rid n)) \<or>
     (\<exists>goal \<in> set goals. e = Bad_port goal \<and> bad_target goal \<or>
        e = Lookup_failed (fst (rpartition goal)) \<and>
          (\<exists>n port payload. host_found env n (fst (rpartition goal)) = Net_raises \<or> sent env n (fst (rpartition goal)) port payload = Net_raises))"

lemma udp_heartbeat_raises:
  "udp_heartbeat env n payload goal = Inl e \<Longrightarrow> e = Bad_port goal \<and> bad_target goal \<or>
     e = Lookup_failed (fst (rpartition goal)) \<and>
       (\<exists>n port payload. host_found env n (fst (rpartition goal)) = Net_raises \<or> sent env n (fst (rpartition goal)) port payload = Net_raises)"
  by (auto simp: udp_heartbeat_def bad_target_def Let_def split: if_splits option.splits prod.splits net.splits)

lemma udp_heartbeat_error:
  "udp_heartbeat env n payload goal = Inl e \<Longrightarrow> goal \<in> set goals \<Longrightarrow> heartbeat_lost env rid goals e"
  unfolding heartbeat_lost_def by (drule udp_heartbeat_raises) blast

lemma heartbeats_result:
  "tallies s \<Longrightarrow> set goals \<subseteq> set every \<Longrightarrow> case send_heartbeats env rid n goals s of
     Inl e \<Rightarrow> heartbeat_lost env rid every e
   | Inr s' \<Rightarrow> tallies s' \<and> events s' = events s @ map (udp_event env rid n) goals"
proof (induction goals arbitrary: s)
  case (Cons goal goals)
  let ?text = "heartbeat_text rid n"
  show ?case
  proof (cases "ascii ?text \<and> (\<exists>r. udp_heartbeat env n ?text goal = Inr r)")
    case False
    then show ?thesis using Cons.prems(2) udp_heartbeat_error [of env n ?text goal _ every rid]
      by (cases "udp_heartbeat env n ?text goal") (auto simp: heartbeat_lost_def)
  next
    case True
    then obtain r where "udp_heartbeat env n ?text goal = Inr r" "ascii ?text" by blast
    with Cons.IH [OF tallies_record [OF Cons.prems(1), of n "Udp_heartbeat r"]] Cons.prems(2) show ?thesis
      by (auto simp: udp_event_def split: sum.splits)
  qed
qed simp

definition lost :: "emulator_env \<Rightarrow> emulator_plan \<Rightarrow> emulator_error \<Rightarrow> bool" where
  "lost env plan e \<longleftrightarrow> (\<exists>n. \<exists>name \<in> set (ep_dns_hosts plan). resolve_host env n name = None \<and> e = Lookup_failed name) \<or>
     (\<exists>n. http_get env n (ep_max_bytes plan) (chosen env n (ep_endpoints plan)) = None \<and> e = Fetch_failed (chosen env n (ep_endpoints plan))) \<or>
     heartbeat_lost env (ep_run_id plan) (ep_udp_targets plan) e"

lemma fetch_result:
  "tallies s \<Longrightarrow> case fetch_endpoint env (ep_max_bytes plan) n (ep_endpoints plan) s of
     Inl e \<Rightarrow> http_get env n (ep_max_bytes plan) (chosen env n (ep_endpoints plan)) = None \<and> e = Fetch_failed (chosen env n (ep_endpoints plan))
   | Inr s' \<Rightarrow> tallies s' \<and> events s' = events s @ (if ep_endpoints plan = [] then [] else [http_event env plan n])"
  using tallies_record [of s] by (auto simp: fetch_endpoint_def http_event_def Let_def split: option.split)

lemma cycle_result:
  assumes "tallies s"
  shows "case emulator_cycle env plan n s of Inl e \<Rightarrow> lost env plan e
    | Inr s' \<Rightarrow> tallies s' \<and> events s' = events s @ cycle_events env plan n"
proof (cases "resolve_hosts env n (ep_dns_hosts plan) (log_event (Cycle_start n) s)")
  case (Inl e)
  then show ?thesis using resolve_result [OF tallies_log [OF assms, of "Cycle_start n"], where env = env and n = n and names = "ep_dns_hosts plan"]
    by (auto simp: emulator_cycle_def lost_def)
next
  case 1: (Inr s1)
  with resolve_result [OF tallies_log [OF assms, of "Cycle_start n"], where env = env and n = n and names = "ep_dns_hosts plan"]
  have s1: "tallies s1" "events s1 = events s @ [Cycle_start n] @ map (dns_event env n) (ep_dns_hosts plan)" by simp_all
  note s2 = fetch_result [OF s1(1), where env = env and n = n and plan = plan]
  show ?thesis
  proof (cases "fetch_endpoint env (ep_max_bytes plan) n (ep_endpoints plan) s1")
    case (Inl e)
    then show ?thesis using 1 s2 by (auto simp: emulator_cycle_def lost_def)
  next
    case 2: (Inr s2)
    note s2 = s2 [unfolded 2 sum.case]
    note h = heartbeats_result [OF conjunct1 [OF s2] subset_refl, where env = env and rid = "ep_run_id plan" and n = n and every = "ep_udp_targets plan"]
    show ?thesis
    proof (cases "send_heartbeats env (ep_run_id plan) n (ep_udp_targets plan) s2")
      case (Inl e)
      then show ?thesis using h 1 2 by (simp add: emulator_cycle_def lost_def)
    next
      case (Inr s3)
      then show ?thesis using h s1(2) s2 1 2 tallies_log [of s3 "Cycle_end n"] by (simp add: emulator_cycle_def cycle_events_def)
    qed
  qed
qed

lemma emulator_loop_result:
  assumes d: "py_less (Finite 0) (ep_duration plan)" and N: "\<forall>n \<ge> N. \<not> py_less (Finite (at_cycle env n)) e"
  shows "tallies s \<Longrightarrow> \<exists>r. emulator_loop env plan e cycle s = Some r \<and>
    (case r of Inl err \<Rightarrow> lost env plan err
     | Inr (n, s') \<Rightarrow> cycle \<le> n \<and> tallies s' \<and> events s' = events s @ concat (map (cycle_events env plan) [cycle + 1..<n + 1]) \<and>
         (\<forall>k. cycle \<le> k \<and> k < n \<longrightarrow> py_less (Finite (at_cycle env k)) e) \<and> \<not> py_less (Finite (at_cycle env n)) e)"
proof (induction "N - cycle" arbitrary: cycle s rule: less_induct)
  case less
  have z: "ep_duration plan \<noteq> Finite 0" using d by auto
  show ?case
  proof (cases "py_less (Finite (at_cycle env cycle)) e")
    case False
    then show ?thesis using z less.prems by (auto simp: emulator_loop.simps [of env plan e cycle])
  next
    case True
    show ?thesis
    proof (cases "emulator_cycle env plan (cycle + 1) s")
      case (Inl err)
      then show ?thesis using True d z cycle_result [OF less.prems, of env plan "cycle + 1"]
        by (simp add: emulator_loop.simps [of env plan e cycle])
    next
      case (Inr s1)
      have s1: "tallies s1" "events s1 = events s @ cycle_events env plan (cycle + 1)"
        using cycle_result [OF less.prems, of env plan "cycle + 1"] Inr by simp_all
      have "cycle < N" using True N by (meson not_less)
      then have "N - (cycle + 1) < N - cycle" by simp
      from less.hyps [OF this s1(1)] obtain r where r: "emulator_loop env plan e (cycle + 1) s1 = Some r"
        "case r of Inl err \<Rightarrow> lost env plan err
         | Inr (n, s') \<Rightarrow> cycle + 1 \<le> n \<and> tallies s' \<and> events s' = events s1 @ concat (map (cycle_events env plan) [cycle + 1 + 1..<n + 1]) \<and>
             (\<forall>k. cycle + 1 \<le> k \<and> k < n \<longrightarrow> py_less (Finite (at_cycle env k)) e) \<and> \<not> py_less (Finite (at_cycle env n)) e" by blast
      have loop: "emulator_loop env plan e cycle s = Some r"
        using True d z Inr r(1) by (simp add: emulator_loop.simps [of env plan e cycle])
      show ?thesis
      proof (cases r)
        case (Inl err)
        with loop r(2) show ?thesis by simp
      next
        case (Inr p)
        obtain n s' where p: "p = (n, s')" by force
        note q = r(2) [unfolded Inr p sum.case prod.case]
        have "[cycle + 1..<n + 1] = (cycle + 1) # [cycle + 1 + 1..<n + 1]" using q by (simp add: upt_conv_Cons)
        then have "events s' = events s @ concat (map (cycle_events env plan) [cycle + 1..<n + 1])" using q s1(2) by simp
        moreover have "py_less (Finite (at_cycle env k)) e" if "cycle \<le> k" "k < n" for k
          using q True that by (cases "k = cycle") auto
        ultimately show ?thesis using loop q Inr p by (intro exI [of _ r]) auto
      qed
    qed
  qed
qed

text \<open>
  C36: a run of the emulator. Once a plan is accepted and the clock passes its end, the run ends. Unless an exception got
  out of a lookup, a fetch or a heartbeat (a port that is no number \<open>sendto\<close> takes, a run id that is not ASCII), it has done
  whole cycles only: each looks up every name in order,
  fetches the one endpoint chosen and sends every heartbeat in order; the counters are those of the events. With the
  duration 0 there is exactly one cycle, otherwise cycles start for as long as the end has not been reached.
\<close>

theorem emulator_runs:
  assumes plan: "emulator_make_plan fresh now args = Inr plan"
    and ends: "\<exists>N. \<forall>n \<ge> N. \<not> py_less (Finite (at_cycle env n)) (py_plus (Finite started) (ep_duration plan))"
  shows "\<exists>r. emulate env started plan = Some r \<and>
    (case r of Inl e \<Rightarrow> lost env plan e
     | Inr (n, s) \<Rightarrow> events s = concat (map (cycle_events env plan) [1..<n + 1]) \<and> tallies s \<and>
         (if ep_duration plan = Finite 0 then n = 1
          else (\<forall>k < n. py_less (Finite (at_cycle env k)) (py_plus (Finite started) (ep_duration plan))) \<and>
               \<not> py_less (Finite (at_cycle env n)) (py_plus (Finite started) (ep_duration plan))))"
proof -
  have t: "tallies no_emulation" "events no_emulation = []" by (simp_all add: tallies_def no_emulation_def)
  have "\<not> py_less (ep_duration plan) (Finite 0)" "ep_duration plan \<noteq> NaN"
    using plan by (auto simp: emulator_make_plan_def Let_def split: if_splits option.splits)
  then consider "ep_duration plan = Finite 0" | "py_less (Finite 0) (ep_duration plan)"
    by (cases "ep_duration plan") (auto simp: not_less le_less)
  then show ?thesis
  proof cases
    case 1
    show ?thesis
      using cycle_result [OF t(1), of env plan 1] 1 t(2)
      by (cases "emulator_cycle env plan 1 no_emulation")
        (simp_all add: emulate_def emulator_loop.simps [of env plan _ 0])
  next
    case 2
    then have z: "ep_duration plan \<noteq> Finite 0" by auto
    from ends obtain N where "\<forall>n \<ge> N. \<not> py_less (Finite (at_cycle env n)) (py_plus (Finite started) (ep_duration plan))" by blast
    from emulator_loop_result [OF 2 this t(1), of 0] obtain r where
      r: "emulate env started plan = Some r" "case r of Inl err \<Rightarrow> lost env plan err
        | Inr (n, s') \<Rightarrow> 0 \<le> n \<and> tallies s' \<and> events s' = events no_emulation @ concat (map (cycle_events env plan) [0 + 1..<n + 1]) \<and>
            (\<forall>k. 0 \<le> k \<and> k < n \<longrightarrow> py_less (Finite (at_cycle env k)) (py_plus (Finite started) (ep_duration plan))) \<and>
            \<not> py_less (Finite (at_cycle env n)) (py_plus (Finite started) (ep_duration plan))"
      using 2 by (auto simp: emulate_def)
    then show ?thesis using z t(2) by (intro exI [of _ r]) (auto split: sum.splits)
  qed
qed

definition ex_emulator_env :: emulator_env where
  "ex_emulator_env = \<lparr>at_cycle = (\<lambda>n. 30 * of_nat n), lookup = (\<lambda>_ _. Net_value [''192.0.2.1'']), chosen = (\<lambda>_. hd),
     open_connection = (\<lambda>_ _ _ _. Net_value ()), exchange = (\<lambda>_ _ _. Net_value ''HTTP/1.1 204 No Content''),
     host_found = (\<lambda>_ _. Net_value ()), sent = (\<lambda>_ _ _ _. Net_os_error ''unreachable''), bracket_ok = (\<lambda>_. False)\<rparr>"

theorem emulator_runs_witness:
  "\<exists>plan s. emulator_make_plan ''r1'' 0 (emulator_defaults\<lparr>e_duration := Some (Finite 60)\<rparr>) = Inr plan \<and>
     emulate ex_emulator_env 0 plan = Some (Inr (2, s)) \<and> dns_count s = 6 \<and> error_count s = 2"
proof -
  let ?plan = "\<lparr>ep_run_id = ''r1'', ep_duration = Finite 60, ep_interval = Finite 30, ep_jitter = Finite (3602879701896397 / 18014398509481984),
      ep_endpoints = [''https://www.cloudflare.com/cdn-cgi/trace'', ''https://example.com/''],
      ep_dns_hosts = [''pool.ntp.org'', ''example.com'', ''www.cloudflare.com''], ep_udp_targets = [''1.1.1.1:123''],
      ep_label = ''benign_iot_sensor'', ep_estimated_cycles = 2, ep_estimated_end = Some 60000000, ep_max_bytes = 2048\<rparr>"
  have f: "to_float 30 = Finite 30" "to_float 2 = Finite 2" "to_float 60 = Finite 60" using to_float_int [of 30] to_float_int [of 2] to_float_int [of 60] by simp_all
  have p: "emulator_make_plan ''r1'' 0 (emulator_defaults\<lparr>e_duration := Some (Finite 60)\<rparr>) = Inr ?plan"
    by (simp add: emulator_make_plan_def emulator_defaults_def given_def EMULATOR_PROFILES_def csv_or_def emulator_split_csv_def f
        to_float_literals max_instant_def py_trunc_def round_half_even_def)
  have "\<not> py_less (Finite (at_cycle ex_emulator_env n)) (py_plus (Finite 0) (ep_duration ?plan))" if "2 \<le> n" for n
  proof -
    have "(60 :: rat) \<le> 30 * of_nat n" using that by (metis mult_left_mono numeral_times_numeral of_nat_le_iff of_nat_numeral semiring_norm(11,13) zero_le_numeral)
    then show ?thesis by (simp add: ex_emulator_env_def f)
  qed
  then have "\<exists>N. \<forall>n \<ge> N. \<not> py_less (Finite (at_cycle ex_emulator_env n)) (py_plus (Finite 0) (ep_duration ?plan))" by blast
  from emulator_runs [OF p this] obtain r where r: "emulate ex_emulator_env 0 ?plan = Some r" by blast
  have "map_option (map_sum (\<lambda>_. ()) (\<lambda>(n, s). (n, dns_count s, error_count s))) (emulate ex_emulator_env 0 ?plan) = Some (Inr (2, 6, 2))"
    by code_simp
  with r obtain s where "r = Inr (2, s)" "dns_count s = 6" "error_count s = 2" by (cases r) auto
  with p r show ?thesis by blast
qed

lemma bad_targets:
  "bad_target ''1.1.1.1:70000''" "bad_target (''1.1.1.1:'' @ [char_of (178 :: nat)])" "\<not> bad_target ''1.1.1.1:123''" "\<not> bad_target ''123''"
  by code_simp+

text \<open>Endpoints that end the program whatever the network does: \<open>urlparse\<close>, or the port, raises a \<open>ValueError\<close>.\<close>

lemma bad_endpoint:
  assumes "CHR ''['' \<notin> set url" "CHR '']'' \<notin> set url"
    and "case urlparse (\<lambda>_. False) url of None \<Rightarrow> True | Some u \<Rightarrow> url_hostname u \<noteq> None \<and> url_port u = None"
  shows "http_get env n max_bytes url = None"
  using assms(3) urlparse_no_brackets(1) [OF assms(1,2), of "bracket_ok env"] by (auto simp: http_get_def split: option.splits)

lemma bad_endpoints:
  "http_get env n max_bytes ''http://192.168.50.1:99999/'' = None" "http_get env n max_bytes ''http://192.168.50.1:http/'' = None"
  by (rule bad_endpoint, simp, simp, code_simp)+

end
