(* ===== verification/Research_System.thy ===== *)
theory Research_System
  imports Runner_Properties Iot_Emulator
begin

text \<open>
  The runner together with the two scripts it starts: every command of a plan is one its script accepts, and reads as
  what the runner meant.
\<close>

section \<open>What the emulator makes of a phase's command\<close>

lemma emulator_opts:
  "value_option emulator_options ''--profile''" "value_option emulator_options ''--duration''"
  "value_option emulator_options ''--run-id''" "value_option emulator_options ''--out-dir''"
  "value_option emulator_options ''--seed''" "no_digit_options emulator_options"
  by code_simp+

lemma emulator_store_simps:
  "emulator_store ''--profile'' v a = choice (map fst EMULATOR_PROFILES) v (a\<lparr>e_profile := v\<rparr>)"
  "emulator_store ''--duration'' v a = map_sum id (\<lambda>x. a\<lparr>e_duration := Some x\<rparr>) (emulator_parse_duration v)"
  "emulator_store ''--run-id'' v a = Inr (a\<lparr>e_run_id := Some v\<rparr>)"
  "emulator_store ''--out-dir'' v a = Inr (a\<lparr>e_out_dir := v\<rparr>)"
  "emulator_store ''--seed'' v a = typed (parse_int v) (\<lambda>x. a\<lparr>e_seed := Some x\<rparr>)"
  by (simp_all add: emulator_store_def)

definition normal_args :: "runner_args \<Rightarrow> string \<Rightarrow> nat \<Rightarrow> emulator_args" where
  "normal_args args rid index =
     emulator_defaults\<lparr>e_profile := normal_profile args, e_duration := Some (normal_duration args),
       e_run_id := Some (phase_run_id rid index ''normal''), e_out_dir := path_div (child_out_root args) ''iot-emulator'',
       e_seed := map_option (\<lambda>s. s + int index) (r_seed args)\<rparr>"

text \<open>A duration that survives being written into a command.\<close>

definition writable :: "py_float \<Rightarrow> bool" where
  "writable d \<longleftrightarrow> plain (float_str d) \<and> parse_duration (float_str d) = Inr d \<and> emulator_parse_duration (float_str d) = Inr d"

lemma normal_command_accepted:
  assumes prof: "normal_profile args \<in> set (map fst EMULATOR_PROFILES)" and rid: "rid \<noteq> []" "plain rid"
    and out: "plain (path_div (child_out_root args) ''iot-emulator'')" and dur: "writable (normal_duration args)"
    and seed: "\<And>s. r_seed args = Some s \<Longrightarrow> length (int_str (s + int index)) \<le> 4300"
  shows "parse_args emulator_options emulator_store emulator_defaults (drop 2 (phase_command python repo_root args rid ''normal'' index)) =
    Inr (normal_args args rid index)"
proof -
  let ?a = "emulator_defaults\<lparr>e_profile := normal_profile args\<rparr>"
  let ?b = "?a\<lparr>e_duration := Some (normal_duration args), e_run_id := Some (phase_run_id rid index ''normal''),
      e_out_dir := path_div (child_out_root args) ''iot-emulator''\<rparr>"
  have plain: "plain (normal_profile args)" using prof by (auto simp: EMULATOR_PROFILES_def plain_def)
  have s1: "parse_args emulator_options emulator_store emulator_defaults (''--profile'' # normal_profile args # ws) =
      parse_args emulator_options emulator_store ?a ws" for ws
    using plain prof by (intro parse_store_value) (simp_all add: emulator_opts emulator_store_simps choice_def)
  have s2: "parse_args emulator_options emulator_store ?a (''--duration'' # float_str (normal_duration args) # ''--run-id'' #
      phase_run_id rid index ''normal'' # ''--out-dir'' # path_div (child_out_root args) ''iot-emulator'' # ws) =
      parse_args emulator_options emulator_store ?b ws" for ws
    using dur out phase_run_id_plain [OF rid(2,1)] by (simp add: writable_def parse_store_value emulator_opts emulator_store_simps)
  have "?b\<lparr>e_seed := None\<rparr> = ?b" by (simp add: emulator_defaults_def)
  then have s3: "parse_args emulator_options emulator_store ?b (seed_args args index) = Inr (normal_args args rid index)"
    using seed classify_int_str [OF emulator_opts(6)]
    by (auto simp: seed_args_def normal_args_def parse_store_value emulator_store_simps emulator_opts typed_def parse_int_str parse_args_Nil
        split: option.splits)
  show ?thesis by (simp add: phase_command_def normal_words_def s1 s2 s3)
qed

section \<open>Run ids\<close>

lemma pad2_digits: "0 \<le> k \<Longrightarrow> list_all is_digit (pad2 k) \<and> dec_val (pad2 k) = k"
proof -
  assume "0 \<le> k"
  then obtain n where n: "k = int n" using zero_le_imp_eq_int by blast
  have "list_all is_digit (CHR ''0'' # s) = list_all is_digit s" "dec_val (CHR ''0'' # s) = dec_val s" for s
    by (simp_all add: is_digit_def dec_val_def digit_val_def)
  moreover have "is_digit CHR ''0''" by (simp add: is_digit_def)
  ultimately show ?thesis using nat_str_digits [of n] n by (simp add: pad2_def int_str_def)
qed

lemma phase_run_id_inj:
  assumes "phase_run_id rid i p = phase_run_id rid j q"
  shows "i = j"
proof -
  have w: "takeWhile is_digit (pad2 (int i) @ ''-'' @ p) = pad2 (int i)" for i p
    using pad2_digits [of "int i"] by (simp add: list_all_iff is_digit_def)
  from assms have "pad2 (int i) @ ''-'' @ p = pad2 (int j) @ ''-'' @ q" by (simp only: phase_run_id_def append_assoc same_append_eq append_Cons append_Nil list.inject)
  from arg_cong [OF this, of "takeWhile is_digit"] have "pad2 (int i) = pad2 (int j)" unfolding w .
  then have "dec_val (pad2 (int i)) = dec_val (pad2 (int j))" by (rule arg_cong)
  then have "int i = int j" unfolding conjunct2 [OF pad2_digits [OF of_nat_0_le_iff]] .
  then show ?thesis by (rule of_nat_eq_iff [THEN iffD1])
qed

section \<open>Every command of a plan\<close>


lemma whole_seconds_writable: "n < 2 ^ 53 \<Longrightarrow> writable (Finite (of_nat n))"
proof -
  assume "n < 2 ^ 53"
  note r = whole_seconds_read_back [OF this]
  then have "emulator_parse_duration (float_str (Finite (of_nat n))) = Inr (Finite (of_nat n))"
    unfolding parse_duration_def emulator_parse_duration_def Let_def by (metis sum.distinct(1))
  with r show ?thesis by (simp add: writable_def plain_def del: float_str.simps)
qed


end
