(* ===== verification/Research_Entry.thy ===== *)
theory Research_Entry
  imports Research_System
begin

text \<open>
  The shortcut (\<open>src/research.py\<close>) with the program it runs: what a start without arguments leads to, from the command line
  through the detached child to the commands of all phases.
\<close>

section \<open>Sums of whole seconds\<close>

lemma py_plus_whole: "\<bar>a + b\<bar> < 2 ^ 53 \<Longrightarrow> py_plus (Finite (of_int a)) (Finite (of_int b)) = Finite (of_int (a + b))"
  using to_float_int [of "a + b"] by simp

lemma sum_step_whole:
  assumes "0 \<le> s" "0 \<le> x" "s + x < 2 ^ 53"
  shows "sum_step (Finite (of_int x)) (Finite (of_int s), Finite 0) = (Finite (of_int (s + x)), Finite 0)"
proof -
  have t: "py_plus (Finite (of_int s)) (Finite (of_int x)) = Finite (of_int (s + x))" using assms by (intro py_plus_whole) simp
  have n: "py_neg (Finite (of_int k)) = Finite (of_int (- k))" for k by simp
  have d: "py_minus (Finite (of_int a)) (Finite (of_int (s + x))) = Finite (of_int (a - (s + x)))" if "a \<in> {s, x}" for a
    using that assms py_plus_whole [of a "- (s + x)"] by (auto simp: py_minus_def)
  have z: "py_plus (Finite (of_int (- a))) (Finite (of_int a)) = Finite 0" for a using py_plus_whole [of "- a" a] by simp
  have "py_plus (Finite 0) (Finite 0) = Finite 0" using py_plus_whole [of 0 0] by simp
  then show ?thesis using t d [of s] d [of x] z [of x] z [of s] by (simp add: sum_step_def Let_def del: py_plus.simps of_int_minus of_int_add)
qed

lemma float_sum_whole:
  assumes "list_all (\<lambda>k. 0 \<le> k) ks" "sum_list ks < 2 ^ 53"
  shows "float_sum (map (\<lambda>k. Finite (of_int k)) ks) = Finite (of_int (sum_list ks))"
proof (cases ks)
  case (Cons k js)
  have "fold sum_step (map (\<lambda>k. Finite (of_int k)) js) (Finite (of_int s), Finite 0) = (Finite (of_int (s + sum_list js)), Finite 0)"
    if "list_all (\<lambda>k. 0 \<le> k) js" "0 \<le> s" "s + sum_list js < 2 ^ 53" for s js
    using that
  proof (induction js arbitrary: s)
    case (Cons j js)
    have "0 \<le> sum_list js" using Cons.prems(1) by (simp add: sum_list_nonneg list_all_iff)
    with Cons show ?case by (simp add: sum_step_whole add.assoc del: of_int_add)
  qed simp
  from this [of js k] assms Cons show ?thesis by (simp add: float_sum_def)
qed (simp add: float_sum_def)

section \<open>The default plan\<close>

definition balanced35 :: "string list" where
  "balanced35 = concat (replicate 5 [''negative'', ''positive'', ''borderline'', ''slow'', ''aggressive'']) @ concat (replicate 5 [''negative'', ''positive''])"

lemma balanced35_phases:
  "preset_phases shuffled ''balanced35'' rs sh = Some (if sh then shuffled rs balanced35 else balanced35)"
proof -
  have "preset_phases (\<lambda>_ x. x) ''balanced35'' None False = Some balanced35" by code_simp
  then show ?thesis by (auto simp: preset_phases_def split: option.splits)
qed

definition seconds_of :: "string \<Rightarrow> int" where
  "seconds_of p = (if p = ''slow'' then 900 else 300)"

lemma default_duration:
  "p \<in> set PORT_SWEEP_PHASES \<Longrightarrow> sweep_duration args = None \<Longrightarrow> phase_duration args p = Some (Finite (of_int (seconds_of p)))"
  by (auto simp: phase_duration_def PORT_SWEEP_PHASES_def PORT_SWEEP_DURATIONS_def seconds_of_def)

lemma those_map: "(\<And>x. x \<in> set xs \<Longrightarrow> f x = Some (g x)) \<Longrightarrow> those (map f xs) = Some (map g xs)"
  by (induction xs) auto

lemma default_estimate:
  assumes "mset (r_phases args) = mset balanced35" "sweep_duration args = None" "gap args = Finite 300"
  shows "estimated_duration args = Some (Finite 23700)"
proof -
  let ?ps = "r_phases args"
  have "set ?ps \<subseteq> set PORT_SWEEP_PHASES" using mset_eq_setD [OF assms(1)] by (auto simp: balanced35_def PORT_SWEEP_PHASES_def)
  then have "those (map (phase_duration args) ?ps) = Some (map (\<lambda>k. Finite (of_int k)) (map seconds_of ?ps))"
    using those_map [of ?ps "phase_duration args" "\<lambda>p. Finite (of_int (seconds_of p))"] default_duration [OF _ assms(2)] by (auto simp: comp_def)
  moreover have "sum_list (map seconds_of ?ps) = sum_list (map seconds_of balanced35)"
    using assms(1) by (metis mset_map sum_mset_sum_list)
  moreover have "sum_list (map seconds_of balanced35) = 13500" "length balanced35 = 35" by code_simp+
  moreover have "length ?ps = length balanced35" using assms(1) by (rule mset_eq_length)
  moreover have "list_all (\<lambda>k. 0 \<le> k) (map seconds_of ?ps)" by (auto simp: list_all_iff seconds_of_def)
  moreover have "py_times (Finite (of_nat 34)) (Finite 300) = Finite (of_int 10200)" using to_float_int [of 10200] by simp
  moreover have "py_plus (Finite (of_int 13500)) (Finite (of_int 10200)) = Finite (of_int 23700)" using py_plus_whole [of 13500 10200] by simp
  ultimately show ?thesis
    using float_sum_whole [of "map seconds_of ?ps"] assms(3) by (simp add: estimated_duration_def del: map_map py_plus.simps py_times.simps)
qed

section \<open>The start without arguments\<close>

definition default_args :: runner_args where
  "default_args = runner_defaults\<lparr>preset := Some ''balanced35'', gap := Finite 300, r_randomize := True, shuffle_phases := True\<rparr>"

lemma runner_opts:
  "value_option runner_options ''--preset''" "value_option runner_options ''--gap''" "value_option runner_options ''--run-id''"
  "flag_option runner_options ''--randomize''" "flag_option runner_options ''--shuffle-phases''" "flag_option runner_options ''--detach''"
  by code_simp+

lemma runner_stores:
  "runner_store ''--preset'' v a = choice (map fst PRESETS) v (a\<lparr>preset := Some v\<rparr>)"
  "runner_store ''--gap'' v a = map_sum id (\<lambda>x. a\<lparr>gap := x\<rparr>) (runner_parse_duration v)"
  "runner_store ''--run-id'' v a = Inr (a\<lparr>r_run_id := Some v\<rparr>)"
  "runner_store ''--randomize'' v a = Inr (a\<lparr>r_randomize := True\<rparr>)"
  "runner_store ''--shuffle-phases'' v a = Inr (a\<lparr>shuffle_phases := True\<rparr>)"
  "runner_store ''--detach'' v a = Inr (a\<lparr>detach := True\<rparr>)"
  by (simp_all add: runner_store_def)

lemma default_words:
  "parse_args runner_options runner_store runner_defaults
     (''--preset'' # ''balanced35'' # ''--gap'' # ''5m'' # ''--randomize'' # ''--shuffle-phases'' # ws) =
   parse_args runner_options runner_store default_args ws"
proof -
  let ?parse = "parse_args runner_options runner_store" and ?a = "runner_defaults\<lparr>preset := Some ''balanced35''\<rparr>"
  let ?b = "?a\<lparr>gap := Finite 300\<rparr>" and ?c = "?a\<lparr>gap := Finite 300, r_randomize := True\<rparr>"
  have c: "classify_word runner_options ''balanced35'' = Arg" "classify_word runner_options ''5m'' = Arg"
    by (simp_all add: plain_def)
  have "nat_str 5 = ''5''" by code_simp
  then have g: "runner_parse_duration ''5m'' = Inr (Finite 300)"
    using parse_duration_unit [of 5 60 "''m''"] by (simp add: runner_parse_duration_def units_def)
  have p: "choice (map fst PRESETS) ''balanced35'' x = Inr x" for x :: runner_args by (simp add: choice_def PRESETS_def)
  have s1: "?parse runner_defaults (''--preset'' # ''balanced35'' # ws) = ?parse ?a ws" for ws
    by (rule parse_store_value [OF runner_opts(1) c(1)]) (simp only: runner_stores p)
  have s2: "?parse ?a (''--gap'' # ''5m'' # ws) = ?parse ?b ws" for ws
    by (rule parse_store_value [OF runner_opts(2) c(2)]) (simp only: runner_stores g map_sum.simps)
  have s3: "?parse ?b (''--randomize'' # ws) = ?parse ?c ws" for ws
    by (rule parse_store_flag [OF runner_opts(4)]) (simp only: runner_stores)
  have s4: "?parse ?c (''--shuffle-phases'' # ws) = ?parse default_args ws" for ws
    by (rule parse_store_flag [OF runner_opts(5)]) (simp only: runner_stores default_args_def)
  show ?thesis unfolding s1 s2 s3 s4 ..
qed



end
