(* ===== verification/Model_Scripts.thy ===== *)
theory Model_Scripts
  imports Python_Text "HOL-Library.List_Lexorder" "HOL-Library.Char_ord"
begin

text \<open>
  Activating an archived model (\<open>src/scripts/model-activate.py\<close>) and the bookkeeping of a backtest
  (\<open>src/scripts/model-backtest.py\<close>): the choice of the model, the verdict of a window, the counts behind the
  rankings and the names of the score files. The table \<open>model_registry\<close> belongs to a service outside the repository; its
  columns are those the scripts read. Scoring and the rates of the rankings are in \<open>Backtest\<close>.
\<close>

section \<open>Activating an archived model\<close>

text \<open>
  A row of \<open>model_registry\<close> as the scripts read it (\<^term>\<open>None\<close> is \<open>NULL\<close>), and what the scripts act on: the rows, in the
  order a query returns them, and the files by their paths.
\<close>

record registry_row =
  r_id :: int
  r_device_id :: "int option"
  r_model_type :: string
  r_trained_at :: string
  r_model_path :: "string option"
  r_current_path :: "string option"
  r_artifact_sha256 :: "string option"
  r_active :: bool

record model_store =
  registry :: "registry_row list"
  artifacts :: "string \<Rightarrow> string option"

datatype activate_error =
    Registry_id_not_found int
  | Artifact_missing "string option"
  | Same_file string
  | Database_error

record activation =
  a_registry_id :: int
  a_device_id :: "int option"
  a_model_type :: string
  a_trained_at :: string
  a_source :: string
  a_target :: string
  a_dry_run :: bool

text \<open>\<open>model_root\<close> is in the form \<open>Path\<close> gives it, without a slash at its end.\<close>

definition current_model_path :: "string \<Rightarrow> int option \<Rightarrow> string \<Rightarrow> string" where
  "current_model_path model_root device_id model_type =
     (let name = (if model_type = ''isolation_forest''
        then (case device_id of Some d \<Rightarrow> ''isolation_forest_model_device_'' @ int_str d @ ''.joblib''
              | None \<Rightarrow> ''isolation_forest_model.joblib'')
        else (case device_id of Some d \<Rightarrow> model_type @ ''_model_device_'' @ int_str d @ ''.joblib''
              | None \<Rightarrow> model_type @ ''_model.joblib''))
      in model_root @ ''/'' @ name)"

definition load_registry_row :: "model_store \<Rightarrow> int \<Rightarrow> activate_error + registry_row" where
  "load_registry_row s registry_id = (case filter (\<lambda>r. r_id r = registry_id) (registry s) of
      [] \<Rightarrow> Inl (Registry_id_not_found registry_id) | r # _ \<Rightarrow> Inr r)"

definition or_else :: "string option \<Rightarrow> string \<Rightarrow> string" where
  "or_else x y = (case x of Some t \<Rightarrow> if t = [] then y else t | None \<Rightarrow> y)"

text \<open>The two updates of the table.\<close>

definition deactivate :: "int option \<Rightarrow> string \<Rightarrow> registry_row \<Rightarrow> registry_row" where
  "deactivate device_id model_type r =
     (if r_device_id r = device_id \<and> r_model_type r = model_type then r\<lparr>r_active := False\<rparr> else r)"

definition activate :: "string \<Rightarrow> int \<Rightarrow> registry_row \<Rightarrow> registry_row" where
  "activate target i r = (if r_id r = i then r\<lparr>r_active := True, r_current_path := Some target\<rparr> else r)"

text \<open>\<open>main\<close>; \<open>db_ok\<close> says whether the database takes the updates (it may be locked), which are one transaction.\<close>

definition activate_model :: "bool \<Rightarrow> string \<Rightarrow> int \<Rightarrow> bool \<Rightarrow> model_store \<Rightarrow> (activate_error + activation) \<times> model_store" where
  "activate_model db_ok model_root registry_id dry_run s =
     (case load_registry_row s registry_id of Inl e \<Rightarrow> (Inl e, s) | Inr row \<Rightarrow>
       let target = or_else (r_current_path row) (current_model_path model_root (r_device_id row) (r_model_type row)) in
       case r_model_path row of None \<Rightarrow> (Inl (Artifact_missing None), s) | Some source \<Rightarrow>
       if source = [] then (Inl (Artifact_missing (Some source)), s) else
       case artifacts s source of None \<Rightarrow> (Inl (Artifact_missing (Some source)), s) | Some content \<Rightarrow>
       let summary = \<lparr>a_registry_id = r_id row, a_device_id = r_device_id row, a_model_type = r_model_type row,
             a_trained_at = r_trained_at row, a_source = source, a_target = target, a_dry_run = dry_run\<rparr> in
       if dry_run then (Inr summary, s)
       else if source = target then (Inl (Same_file source), s)
       else
         let s1 = s\<lparr>artifacts := (artifacts s)(target \<mapsto> content)\<rparr> in
         if \<not> db_ok then (Inl Database_error, s1)
         else (Inr summary, s1\<lparr>registry := map (activate target (r_id row) \<circ> deactivate (r_device_id row) (r_model_type row)) (registry s1)\<rparr>))"

section \<open>Scoring windows\<close>

definition is_positive_label :: "string \<Rightarrow> bool" where
  "is_positive_label label \<longleftrightarrow> lower label \<in> {''attack'', ''positive'', ''port_sweep'', ''attack_port_sweep''} \<or> contains ''attack'' (lower label)"

datatype verdict = TP | FN | FP | TN

definition classify :: "string \<Rightarrow> bool \<Rightarrow> verdict" where
  "classify label detected =
     (let positive = lower label \<in> {''attack'', ''positive'', ''port_sweep'', ''attack_port_sweep''} \<or> contains ''attack'' (lower label) in
      if positive \<and> detected then TP else if positive \<and> \<not> detected then FN
      else if \<not> positive \<and> detected then FP else TN)"

definition MODEL_TYPES :: "string list" where
  "MODEL_TYPES = [''isolation_forest'', ''lof'', ''ocsvm'', ''autoencoder'']"

text \<open>\<open>latest_registry_model\<close>: \<open>ORDER BY active DESC, trained_at DESC, id DESC LIMIT 1\<close>.\<close>

definition later :: "registry_row \<Rightarrow> registry_row \<Rightarrow> bool" where
  "later a b \<longleftrightarrow> r_active a \<and> \<not> r_active b \<or> r_active a = r_active b \<and>
     (r_trained_at b < r_trained_at a \<or> r_trained_at b = r_trained_at a \<and> r_id b < r_id a)"

definition latest_registry_model :: "model_store \<Rightarrow> int \<Rightarrow> string \<Rightarrow> registry_row option" where
  "latest_registry_model s device_id model_type =
     fold (\<lambda>r best. case best of None \<Rightarrow> Some r | Some b \<Rightarrow> if later r b then Some r else best)
       (filter (\<lambda>r. r_device_id r = Some device_id \<and> r_model_type r = model_type) (registry s)) None"

text \<open>The result of a window, as far as the rankings read it; delays are kept as they are given.\<close>

record 'f window_result =
  w_model_type :: string
  w_classification :: verdict
  w_label :: string
  w_anomaly_buckets :: nat
  w_bucket_count :: nat
  w_delay :: "'f option"

record 'f ranking =
  k_model_type :: string
  k_tp :: nat
  k_fp :: nat
  k_tn :: nat
  k_fn :: nat
  k_windows :: nat
  k_false_positive_buckets :: nat
  k_benign_buckets :: nat
  k_detection_delays :: "'f list"

definition new_ranking :: "string \<Rightarrow> 'f ranking" where
  "new_ranking t = \<lparr>k_model_type = t, k_tp = 0, k_fp = 0, k_tn = 0, k_fn = 0, k_windows = 0,
     k_false_positive_buckets = 0, k_benign_buckets = 0, k_detection_delays = []\<rparr>"

definition count_window :: "'f window_result \<Rightarrow> 'f ranking \<Rightarrow> 'f ranking" where
  "count_window w k =
     (let k1 = k\<lparr>k_windows := k_windows k + 1\<rparr>;
          k2 = (case w_classification w of TP \<Rightarrow> k1\<lparr>k_tp := k_tp k1 + 1\<rparr> | FP \<Rightarrow> k1\<lparr>k_fp := k_fp k1 + 1\<rparr>
                | TN \<Rightarrow> k1\<lparr>k_tn := k_tn k1 + 1\<rparr> | FN \<Rightarrow> k1\<lparr>k_fn := k_fn k1 + 1\<rparr>);
          k3 = (if is_positive_label (w_label w) then k2
                else k2\<lparr>k_false_positive_buckets := k_false_positive_buckets k2 + w_anomaly_buckets w,
                        k_benign_buckets := k_benign_buckets k2 + w_bucket_count w\<rparr>)
      in case w_delay w of None \<Rightarrow> k3 | Some d \<Rightarrow> k3\<lparr>k_detection_delays := k_detection_delays k3 @ [d]\<rparr>)"

text \<open>The first loop of \<open>model_rankings\<close>: a dictionary in the order the models first occur.\<close>

definition by_model :: "'f window_result list \<Rightarrow> (string \<times> 'f ranking) list" where
  "by_model results = fold (\<lambda>w d.
     let item = (case map_of d (w_model_type w) of None \<Rightarrow> new_ranking (w_model_type w) | Some k \<Rightarrow> k)
     in AList.update (w_model_type w) (count_window w item) d) results []"

text \<open>The names of the score files.\<close>

definition replace_slash :: "string \<Rightarrow> string" where
  "replace_slash s = map (\<lambda>c. if c = CHR ''/'' then CHR ''-'' else c) s"

definition output_name :: "bool \<Rightarrow> bool \<Rightarrow> string \<Rightarrow> string \<Rightarrow> string" where
  "output_name windows_file compare_all scenario model_type =
     (let suffix = (if compare_all then model_type else ''scores''); name = replace_slash scenario in
      if windows_file then ''scores-'' @ name @ ''-'' @ suffix @ ''.jsonl''
      else if compare_all then ''scores-'' @ suffix @ ''.jsonl'' else ''scores.jsonl'')"


section \<open>Properties\<close>

lemma fold_latest:
  assumes "b \<in> set rs" and "\<forall>r \<in> set rs. r \<noteq> b \<longrightarrow> later b r \<and> \<not> later r b"
  shows "fold (\<lambda>r best. case best of None \<Rightarrow> Some r | Some b \<Rightarrow> if later r b then Some r else best) rs None = Some b"
proof -
  let ?f = "\<lambda>r best. case best of None \<Rightarrow> Some r | Some b \<Rightarrow> if later r b then Some r else best"
  have stay: "fold ?f xs (Some b) = Some b" if "set xs \<subseteq> set rs" for xs
    using that assms(2) by (induction xs) (auto simp: later_def)
  have "fold ?f xs best = Some b" if "b \<in> set xs" "set xs \<subseteq> set rs" "best = None \<or> (\<exists>r \<in> set rs. best = Some r)" for xs best
    using that
  proof (induction xs arbitrary: best)
    case (Cons x xs)
    have "?f x best = None \<or> (\<exists>r \<in> set rs. ?f x best = Some r)" using Cons.prems by (auto split: option.splits)
    moreover have "?f x best = Some b" if "x = b" using that Cons.prems(3) assms(2) by (auto split: option.splits)
    ultimately show ?case using Cons stay [of xs] by (cases "x = b") auto
  qed simp
  then show ?thesis using assms(1) by blast
qed

lemma filter_unique: "distinct (map f xs) \<Longrightarrow> x \<in> set xs \<Longrightarrow> filter (\<lambda>y. f y = f x) xs = [x]"
proof (induction xs)
  case (Cons a xs)
  then show ?case
  proof (cases "a = x")
    case True
    with Cons.prems have "\<forall>y \<in> set xs. f y \<noteq> f x" by (metis distinct.simps(2) image_eqI list.set_map list.simps(9))
    then have "filter (\<lambda>y. f y = f x) xs = []" by (simp add: filter_empty_conv)
    with True show ?thesis by simp
  next
    case False
    with Cons.prems have "x \<in> set xs" by simp
    then have "f a \<noteq> f x" using Cons.prems(1) by force
    with Cons \<open>x \<in> set xs\<close> show ?thesis by simp
  qed
qed simp

text \<open>The registry after an activation.\<close>

definition same_model :: "registry_row \<Rightarrow> registry_row \<Rightarrow> bool" where
  "same_model row r \<longleftrightarrow> r_device_id r = r_device_id row \<and> r_model_type r = r_model_type row"

definition reactivated :: "string \<Rightarrow> registry_row \<Rightarrow> registry_row list \<Rightarrow> registry_row list" where
  "reactivated target row rs = map (activate target (r_id row) \<circ> deactivate (r_device_id row) (r_model_type row)) rs"

lemma reactivated_facts:
  assumes "distinct (map r_id rs)" and "row \<in> set rs"
  shows "map r_id (reactivated target row rs) = map r_id rs"
    and "filter (\<lambda>r. \<not> same_model row r) (reactivated target row rs) = filter (\<lambda>r. \<not> same_model row r) rs"
    and "filter (\<lambda>r. r_active r \<and> same_model row r) (reactivated target row rs) =
      [row\<lparr>r_active := True, r_current_path := Some target\<rparr>]"
proof -
  let ?u = "activate target (r_id row) \<circ> deactivate (r_device_id row) (r_model_type row)"
  have same: "same_model row (?u r) = same_model row r" for r
    by (simp add: same_model_def activate_def deactivate_def)
  have only: "r = row" if "r \<in> set rs" "r_id r = r_id row" for r
    using that assms(1,2) by (auto simp: distinct_map dest: inj_onD)
  show "map r_id (reactivated target row rs) = map r_id rs"
    by (simp add: reactivated_def activate_def deactivate_def)
  have "?u r = r" if "r \<in> set rs" "\<not> same_model row r" for r
    using only [OF that(1)] that(2) by (auto simp: same_model_def activate_def deactivate_def)
  then have "map ?u (filter (\<lambda>r. \<not> same_model row r) rs) = filter (\<lambda>r. \<not> same_model row r) rs"
    by (intro map_idI) auto
  moreover have "filter (\<lambda>r. \<not> same_model row r) (map ?u rs) = map ?u (filter (\<lambda>r. \<not> same_model row r) rs)"
    using same by (simp add: filter_map comp_def)
  ultimately show "filter (\<lambda>r. \<not> same_model row r) (reactivated target row rs) = filter (\<lambda>r. \<not> same_model row r) rs"
    by (simp add: reactivated_def)
  have act: "r_active (?u r) \<and> same_model row (?u r) \<longleftrightarrow> r_id r = r_id row" if "r \<in> set rs" for r
    using only [OF that] by (auto simp: same_model_def activate_def deactivate_def)
  have "filter (\<lambda>r. r_active r \<and> same_model row r) (map ?u rs) = map ?u (filter (\<lambda>r. r_active (?u r) \<and> same_model row (?u r)) rs)"
    by (simp add: filter_map comp_def)
  also have "\<dots> = map ?u (filter (\<lambda>r. r_id r = r_id row) rs)"
    using act by (intro arg_cong [of _ _ "map ?u"] filter_cong) auto
  also have "\<dots> = [row\<lparr>r_active := True, r_current_path := Some target\<rparr>]"
    by (simp add: filter_unique [OF assms(1,2)] activate_def deactivate_def)
  finally show "filter (\<lambda>r. r_active r \<and> same_model row r) (reactivated target row rs) =
      [row\<lparr>r_active := True, r_current_path := Some target\<rparr>]"
    by (simp add: reactivated_def)
qed

lemma latest_active:
  assumes "filter (\<lambda>r. r_active r \<and> same_model row r) (registry s) = [new]" and "r_device_id row = Some d"
  shows "latest_registry_model s d (r_model_type row) = Some new"
proof -
  let ?rs = "filter (\<lambda>r. r_device_id r = Some d \<and> r_model_type r = r_model_type row) (registry s)"
  have key: "(r_device_id r = Some d \<and> r_model_type r = r_model_type row) = same_model row r" for r
    using assms(2) by (auto simp: same_model_def)
  have "new \<in> set (filter (\<lambda>r. r_active r \<and> same_model row r) (registry s))" unfolding assms(1) by simp
  then have new: "r_active new" "new \<in> set ?rs" by (auto simp: key)
  have "\<not> r_active r" if "r \<in> set ?rs" "r \<noteq> new" for r
  proof
    assume "r_active r"
    with that(1) have "r \<in> set (filter (\<lambda>r. r_active r \<and> same_model row r) (registry s))" by (auto simp: key)
    then show False using that(2) unfolding assms(1) by simp
  qed
  with new have "\<forall>r \<in> set ?rs. r \<noteq> new \<longrightarrow> later new r \<and> \<not> later r new" by (auto simp: later_def)
  from fold_latest [OF new(2) this] show ?thesis by (simp add: latest_registry_model_def)
qed

text \<open>
  C23: activating a version. When its artifact is there, the file inference reads is replaced by it; the row
  becomes the only active one of its device and model type, records that path, and is the one a backtest of
  that device then picks; rows of other devices and types stay as they are. A dry run changes nothing; when the
  database fails, the file has been replaced already while the registry still names the old version.
\<close>

theorem activate_spec:
  assumes ids: "distinct (map r_id (registry s))" and row: "row \<in> set (registry s)"
    and src: "r_model_path row = Some source" "source \<noteq> []" "artifacts s source = Some content"
    and target: "target = or_else (r_current_path row) (current_model_path model_root (r_device_id row) (r_model_type row))" "source \<noteq> target"
  shows "(\<exists>summary s'. activate_model True model_root (r_id row) False s = (Inr summary, s') \<and>
      artifacts s' = (artifacts s)(target \<mapsto> content) \<and> a_target summary = target \<and>
      map r_id (registry s') = map r_id (registry s) \<and>
      filter (\<lambda>r. \<not> same_model row r) (registry s') = filter (\<lambda>r. \<not> same_model row r) (registry s) \<and>
      filter (\<lambda>r. r_active r \<and> same_model row r) (registry s') = [row\<lparr>r_active := True, r_current_path := Some target\<rparr>] \<and>
      (\<forall>d. r_device_id row = Some d \<longrightarrow>
         latest_registry_model s' d (r_model_type row) = Some (row\<lparr>r_active := True, r_current_path := Some target\<rparr>))) \<and>
    (\<exists>s'. activate_model False model_root (r_id row) False s = (Inl Database_error, s') \<and>
      artifacts s' target = Some content \<and> registry s' = registry s) \<and>
    (\<exists>summary. activate_model db_ok model_root (r_id row) True s = (Inr summary, s))"
proof -
  have l: "load_registry_row s (r_id row) = Inr row"
    using filter_unique [OF ids row] by (simp add: load_registry_row_def)
  note defs = activate_model_def Let_def l src target(1) [symmetric]
  let ?s = "s\<lparr>artifacts := (artifacts s)(target \<mapsto> content), registry := reactivated target row (registry s)\<rparr>"
  obtain summary where ok: "activate_model True model_root (r_id row) False s = (Inr summary, ?s)" "a_target summary = target"
    using target(2) by (simp add: defs reactivated_def)
  note facts = reactivated_facts [OF ids row, of target]
  have "latest_registry_model ?s d (r_model_type row) = Some (row\<lparr>r_active := True, r_current_path := Some target\<rparr>)"
    if "r_device_id row = Some d" for d
    using latest_active [of row ?s, OF _ that] facts(3) by simp
  then have "\<exists>summary s'. activate_model True model_root (r_id row) False s = (Inr summary, s') \<and>
      artifacts s' = (artifacts s)(target \<mapsto> content) \<and> a_target summary = target \<and>
      map r_id (registry s') = map r_id (registry s) \<and>
      filter (\<lambda>r. \<not> same_model row r) (registry s') = filter (\<lambda>r. \<not> same_model row r) (registry s) \<and>
      filter (\<lambda>r. r_active r \<and> same_model row r) (registry s') = [row\<lparr>r_active := True, r_current_path := Some target\<rparr>] \<and>
      (\<forall>d. r_device_id row = Some d \<longrightarrow>
         latest_registry_model s' d (r_model_type row) = Some (row\<lparr>r_active := True, r_current_path := Some target\<rparr>))"
    using ok facts by (intro exI [of _ summary] exI [of _ ?s]) simp
  moreover have "\<exists>s'. activate_model False model_root (r_id row) False s = (Inl Database_error, s') \<and>
      artifacts s' target = Some content \<and> registry s' = registry s"
    using target(2) by (simp add: defs)
  moreover have "\<exists>summary. activate_model db_ok model_root (r_id row) True s = (Inr summary, s)"
    by (simp add: defs)
  ultimately show ?thesis by blast
qed

text \<open>Two archived versions for a device, the older one active.\<close>

definition ex_row :: "int \<Rightarrow> bool \<Rightarrow> registry_row" where
  "ex_row i act = \<lparr>r_id = i, r_device_id = Some 10, r_model_type = ''lof'', r_trained_at = ''2026-05-19'',
     r_model_path = Some (''/data/models/archive/'' @ int_str i), r_current_path = None, r_artifact_sha256 = None, r_active = act\<rparr>"

definition ex_store :: model_store where
  "ex_store = \<lparr>registry = [ex_row 1 True, ex_row 2 False], artifacts = (\<lambda>p. if p = ''/data/models/archive/2'' then Some ''second'' else None)\<rparr>"

theorem activate_spec_witness:
  "\<exists>summary s'. activate_model True ''/data/models'' 2 False ex_store = (Inr summary, s') \<and>
     artifacts s' ''/data/models/lof_model_device_10.joblib'' = Some ''second'' \<and>
     map_option r_id (latest_registry_model s' 10 ''lof'') = Some 2"
proof -
  have p: "''/data/models/archive/'' @ int_str 2 = ''/data/models/archive/2''"
    "or_else (r_current_path (ex_row 2 False)) (current_model_path ''/data/models'' (Some 10) ''lof'') = ''/data/models/lof_model_device_10.joblib''"
    by code_simp+
  have "distinct (map r_id (registry ex_store))" "ex_row 2 False \<in> set (registry ex_store)"
    "r_model_path (ex_row 2 False) = Some ''/data/models/archive/2''" "artifacts ex_store ''/data/models/archive/2'' = Some ''second''"
    "''/data/models/lof_model_device_10.joblib'' =
       or_else (r_current_path (ex_row 2 False)) (current_model_path ''/data/models'' (r_device_id (ex_row 2 False)) (r_model_type (ex_row 2 False)))"
    using p by (simp_all add: ex_store_def ex_row_def)
  note hyps = this
  have "r_id (ex_row 2 False) = 2" "r_device_id (ex_row 2 False) = Some 10" "r_model_type (ex_row 2 False) = ''lof''"
    by (simp_all add: ex_row_def)
  then show ?thesis using activate_spec [OF hyps(1,2,3) _ hyps(4,5)] by fastforce
qed

section \<open>Rankings\<close>

lemma by_model_snoc:
  "by_model (ws @ [w]) = AList.update (w_model_type w)
     (count_window w (case map_of (by_model ws) (w_model_type w) of None \<Rightarrow> new_ranking (w_model_type w) | Some k \<Rightarrow> k)) (by_model ws)"
  by (simp add: by_model_def Let_def)

lemma by_model_lookup:
  "map_of (by_model ws) t = (let xs = filter (\<lambda>w. w_model_type w = t) ws in
     if xs = [] then None else Some (fold count_window xs (new_ranking t)))"
proof (induction ws rule: rev_induct)
  case Nil
  then show ?case by (simp add: by_model_def)
next
  case (snoc w ws)
  then show ?case by (auto simp: by_model_snoc update_conv' Let_def)
qed

lemma by_model_distinct: "distinct (map fst (by_model ws))"
proof (induction ws rule: rev_induct)
  case Nil
  then show ?case by (simp add: by_model_def)
next
  case (snoc w ws)
  then show ?case by (simp add: by_model_snoc distinct_update)
qed

lemma count_windows:
  "k_windows (fold count_window ws k) = k_windows k + length ws"
  "k_tp (fold count_window ws k) = k_tp k + length (filter (\<lambda>w. w_classification w = TP) ws)"
  "k_fp (fold count_window ws k) = k_fp k + length (filter (\<lambda>w. w_classification w = FP) ws)"
  "k_tn (fold count_window ws k) = k_tn k + length (filter (\<lambda>w. w_classification w = TN) ws)"
  "k_fn (fold count_window ws k) = k_fn k + length (filter (\<lambda>w. w_classification w = FN) ws)"
  "k_benign_buckets (fold count_window ws k) = k_benign_buckets k +
     sum_list (map w_bucket_count (filter (\<lambda>w. \<not> is_positive_label (w_label w)) ws))"
  by (induction ws arbitrary: k; simp add: count_window_def Let_def split: verdict.split option.split)+

lemma verdicts_total:
  "length (filter (\<lambda>w. w_classification w = TP) ws) + length (filter (\<lambda>w. w_classification w = FP) ws) +
   length (filter (\<lambda>w. w_classification w = TN) ws) + length (filter (\<lambda>w. w_classification w = FN) ws) = length ws"
proof (induction ws)
  case (Cons w ws)
  then show ?case by (cases "w_classification w") simp_all
qed simp

lemma classify_positive: "classify label det \<in> {TP, FN} \<longleftrightarrow> is_positive_label label"
  by (simp add: classify_def is_positive_label_def Let_def)

lemma positives_total:
  assumes "\<forall>w \<in> set ws. \<exists>det. w_classification w = classify (w_label w) det"
  shows "length (filter (\<lambda>w. w_classification w = TP) ws) + length (filter (\<lambda>w. w_classification w = FN) ws) =
    length (filter (\<lambda>w. is_positive_label (w_label w)) ws)"
  using assms
proof (induction ws)
  case (Cons w ws)
  then obtain det where "w_classification w = classify (w_label w) det" by auto
  then have "w_classification w \<in> {TP, FN} \<longleftrightarrow> is_positive_label (w_label w)" by (simp only: classify_positive)
  with Cons show ?case by auto
qed simp

text \<open>
  The rankings count every window once. There is one ranking for each model that occurs; its windows are the
  results of that model, split exactly into true and false positives and negatives; and when the results
  were classified by the labels, the true positives and false negatives are the windows labelled as attacks.
\<close>

theorem rankings_count:
  "distinct (map fst (by_model results)) \<and>
   (let ws = filter (\<lambda>w. w_model_type w = t) results in
    case map_of (by_model results) t of
      None \<Rightarrow> ws = []
    | Some k \<Rightarrow> ws \<noteq> [] \<and> k_windows k = length ws \<and> k_tp k + k_fp k + k_tn k + k_fn k = k_windows k \<and>
        k_fp k = length (filter (\<lambda>w. w_classification w = FP) ws) \<and>
        k_benign_buckets k = sum_list (map w_bucket_count (filter (\<lambda>w. \<not> is_positive_label (w_label w)) ws)) \<and>
        ((\<forall>w \<in> set results. \<exists>det. w_classification w = classify (w_label w) det) \<longrightarrow>
           k_tp k + k_fn k = length (filter (\<lambda>w. is_positive_label (w_label w)) ws)))"
proof -
  let ?ws = "filter (\<lambda>w. w_model_type w = t) results"
  show ?thesis
    using by_model_distinct [of results] verdicts_total [of ?ws] positives_total [of ?ws]
    by (simp add: by_model_lookup Let_def count_windows new_ranking_def)
qed

definition ex_results :: "int window_result list" where
  "ex_results = map (\<lambda>(label, det). \<lparr>w_model_type = ''lof'', w_classification = classify label det, w_label = label,
     w_anomaly_buckets = 1, w_bucket_count = 4, w_delay = None\<rparr>) [(''benign'', True), (''attack_port_sweep'', True), (''attack_port_sweep'', False)]"

theorem rankings_count_witness:
  "\<exists>k. map_of (by_model ex_results) ''lof'' = Some k \<and> k_windows k = 3 \<and> k_tp k + k_fn k = 2"
proof -
  have c: "\<forall>w \<in> set ex_results. \<exists>det. w_classification w = classify (w_label w) det" by (auto simp: ex_results_def)
  have n: "filter (\<lambda>w. w_model_type w = ''lof'') ex_results = ex_results" "length ex_results = 3" by (simp_all add: ex_results_def)
  have "length (filter (\<lambda>w. is_positive_label (w_label w)) ex_results) = 2" by code_simp
  then show ?thesis
    using rankings_count [of ex_results "''lof''"] c n by (auto simp: Let_def split: option.splits)
qed

end
