(* ===== verification/Backtest.thy ===== *)
theory Backtest
  imports Model_Scripts Arg_Parser "HOL-Library.Product_Lexorder"
begin

text \<open>
  The backtest (\<open>src/scripts/model-backtest.py\<close>) as a whole: its command line, the flows and the model of a window, the result
  of scoring it, the score files, the rankings and the summary. Feature extraction and detectors belong to a package outside
  the repository and are given, as are the reading of time stamps and of the file of windows, by a \<open>backtest_world\<close>. Instants
  are microseconds; run ids, the time of creation and the JSON text are not modelled.
\<close>

section \<open>Greatest and least\<close>

text \<open>\<open>max(xs, default=0.0)\<close> and \<open>min(xs, default=0.0)\<close>.\<close>

definition float_max :: "py_float list \<Rightarrow> py_float" where
  "float_max xs = (case xs of [] \<Rightarrow> Finite 0 | x # ys \<Rightarrow> fold (\<lambda>y m. if py_less m y then y else m) ys x)"

definition float_min :: "py_float list \<Rightarrow> py_float" where
  "float_min xs = (case xs of [] \<Rightarrow> Finite 0 | x # ys \<Rightarrow> fold (\<lambda>y m. if py_less y m then y else m) ys x)"

section \<open>Rankings\<close>

record ranking_row =
  rk_counts :: "py_float ranking"
  rk_precision :: py_float
  rk_recall :: py_float
  rk_f1 :: py_float
  rk_false_positive_rate :: py_float
  rk_mean_delay :: "py_float option"

definition ranking_row_of :: "py_float ranking \<Rightarrow> ranking_row" where
  "ranking_row_of k =
     (let precision = true_divide (int (k_tp k)) (max (int (k_tp k + k_fp k)) 1);
          recall = true_divide (int (k_tp k)) (max (int (k_tp k + k_fn k)) 1);
          f1 = py_divide (py_times (py_times (Finite 2) precision) recall) (py_max (py_plus precision recall) (to_float (1 / 10 ^ 9)));
          delays = k_detection_delays k
      in \<lparr>rk_counts = k, rk_precision = py_round 6 precision, rk_recall = py_round 6 recall, rk_f1 = py_round 6 f1,
          rk_false_positive_rate = py_round 6 (true_divide (int (k_false_positive_buckets k)) (max (int (k_benign_buckets k)) 1)),
          rk_mean_delay = (if delays = [] then None else Some (py_round 3 (py_divide (float_sum delays) (Finite (of_nat (length delays))))))\<rparr>)"

text \<open>The sort key; rates and delays are finite.\<close>

fun finite_value :: "py_float \<Rightarrow> rat" where
  "finite_value (Finite q) = q"
| "finite_value _ = 0"

definition rank_key :: "ranking_row \<Rightarrow> rat \<times> rat \<times> rat" where
  "rank_key r = (- finite_value (rk_f1 r), finite_value (rk_false_positive_rate r),
     case rk_mean_delay r of None \<Rightarrow> 0 | Some d \<Rightarrow> finite_value d)"

definition model_rankings :: "py_float window_result list \<Rightarrow> ranking_row list" where
  "model_rankings results = sort_key rank_key (map (ranking_row_of \<circ> snd) (by_model results))"

section \<open>Scoring a window\<close>

text \<open>A stored flow (its other columns as \<open>'c\<close>), and one row of scores as a detector returns it.\<close>

record 'c flow =
  fl_device_id :: int
  fl_timestamp :: string
  fl_columns :: 'c

record score_row =
  sc_anomaly_score :: "py_float option"
  sc_is_anomaly :: bool
  sc_bucket_start :: "int option"

record scored_row = score_row +
  sc_threshold :: py_float
  sc_norm_score :: py_float
  sc_norm_threshold :: py_float
  sc_score_margin :: py_float

text \<open>
  What a backtest is given: \<open>parse_ts\<close> (\<^term>\<open>None\<close> when it raises) and SQLite's \<open>datetime\<close> in seconds (\<^term>\<open>None\<close> for \<open>NULL\<close>),
  the stored flows, \<open>FeatureExtractor\<close>, the detector an artifact loads as, and what a detector answers.
\<close>

record ('c, 'f, 'd) backtest_world =
  bw_parse_ts :: "string \<Rightarrow> int option"
  bw_datetime :: "string \<Rightarrow> int option"
  bw_flows :: "'c flow list"
  bw_extract :: "int \<Rightarrow> 'c flow list \<Rightarrow> 'f list"
  bw_feature_device :: "'f \<Rightarrow> int"
  bw_detector :: "string \<Rightarrow> string \<Rightarrow> string \<Rightarrow> 'd option"
  bw_score :: "'d \<Rightarrow> 'f list \<Rightarrow> score_row list"
  bw_threshold :: "'d \<Rightarrow> py_float"
  bw_norm_threshold :: "'d \<Rightarrow> py_float"
  bw_norm_score :: "'d \<Rightarrow> py_float \<Rightarrow> py_float"
  bw_windows :: "string \<Rightarrow> (string \<times> json) list list option"
  bw_str :: "json \<Rightarrow> string"

datatype backtest_error =
    Windows_unreadable
  | Window_incomplete
  | Bad_device_id
  | Not_text
  | Bad_timestamp
  | Model_not_found int
  | No_registry_entry int string
  | Model_type_required
  | Load_failed string

definition time_of :: "('c, 'f, 'd) backtest_world \<Rightarrow> json \<Rightarrow> backtest_error + int" where
  "time_of w v = (case v of J_str s \<Rightarrow> (case bw_parse_ts w s of None \<Rightarrow> Inl Bad_timestamp | Some t \<Rightarrow> Inr t) | _ \<Rightarrow> Inl Not_text)"

text \<open>The query compares whole seconds, and orders by the text of the time stamp.\<close>

definition load_flows :: "('c, 'f, 'd) backtest_world \<Rightarrow> int \<Rightarrow> json \<Rightarrow> json \<Rightarrow> backtest_error + 'c flow list" where
  "load_flows w device start end =
     (case time_of w start of Inl e \<Rightarrow> Inl e | Inr t0 \<Rightarrow> case time_of w end of Inl e \<Rightarrow> Inl e | Inr t1 \<Rightarrow>
      Inr (sort_key fl_timestamp (filter (\<lambda>f. fl_device_id f = device \<and>
        (case bw_datetime w (fl_timestamp f) of None \<Rightarrow> False | Some t \<Rightarrow> t0 div 1000000 \<le> t \<and> t \<le> t1 div 1000000)) (bw_flows w))))"

definition score_margin :: "py_float \<Rightarrow> py_float \<Rightarrow> py_float" where
  "score_margin s t = py_minus t s"

definition detection_delay_seconds :: "int \<Rightarrow> int option \<Rightarrow> py_float option" where
  "detection_delay_seconds started first = map_option (\<lambda>t. py_max (Finite 0) (true_divide (t - started) 1000000)) first"

definition raw_score :: "score_row \<Rightarrow> py_float" where
  "raw_score r = (case sc_anomaly_score r of None \<Rightarrow> Finite 0 | Some x \<Rightarrow> x)"

definition scored :: "('c, 'f, 'd) backtest_world \<Rightarrow> 'd \<Rightarrow> score_row \<Rightarrow> scored_row" where
  "scored w d r = (let norm = bw_norm_score w d (raw_score r) in
     \<lparr>sc_anomaly_score = sc_anomaly_score r, sc_is_anomaly = sc_is_anomaly r, sc_bucket_start = sc_bucket_start r,
      sc_threshold = bw_threshold w d, sc_norm_score = norm, sc_norm_threshold = bw_norm_threshold w d,
      sc_score_margin = score_margin norm (bw_norm_threshold w d)\<rparr>)"

record window_run = "py_float window_result" +
  x_model_file :: string
  x_registry :: "registry_row option"
  x_scenario :: json
  x_flow_count :: nat
  x_detected :: bool
  x_first_detection :: "int option"
  x_anomaly_bucket_rate :: py_float
  x_false_positive_rate :: py_float
  x_peak_anomaly_score :: py_float
  x_min_anomaly_score :: py_float
  x_max_score_margin :: py_float
  x_scores :: "scored_row list"

record backtest_args =
  b_device_id :: "int option"
  b_model_type :: "string option"
  b_start :: "string option"
  b_end :: "string option"
  b_label :: string
  b_scenario :: string
  b_windows_file :: "string option"
  b_database_path :: string
  b_model_root :: string
  b_model_file :: "string option"
  b_model_registry_id :: "int option"
  b_compare_all :: bool
  b_bucket_minutes :: int
  b_run_id :: "string option"
  b_out_dir :: string

text \<open>A window of research: its device and, as given, start, end, label and scenario.\<close>

record research_window =
  rw_device_id :: int
  rw_start :: json
  rw_end :: json
  rw_label :: json
  rw_scenario :: json

definition score_window ::
  "('c, 'f, 'd) backtest_world \<Rightarrow> backtest_args \<Rightarrow> research_window \<Rightarrow> string \<Rightarrow> string \<Rightarrow> registry_row option \<Rightarrow>
   backtest_error + window_run" where
  "score_window w args rw model_type model_file info =
     (case load_flows w (rw_device_id rw) (rw_start rw) (rw_end rw) of Inl e \<Rightarrow> Inl e | Inr flows \<Rightarrow>
      let features = (if flows = [] then [] else filter (\<lambda>f. bw_feature_device w f = rw_device_id rw) (bw_extract w (b_bucket_minutes args) flows)) in
      case bw_detector w model_type (b_model_root args) model_file of None \<Rightarrow> Inl (Load_failed model_file) | Some d \<Rightarrow>
      let scores = map (scored w d) (bw_score w d features);
          anomalies = filter sc_is_anomaly scores;
          first = (case anomalies of [] \<Rightarrow> None | r # _ \<Rightarrow> sc_bucket_start r);
          rate = py_round 6 (true_divide (int (length anomalies)) (max (int (length features)) 1))
      in case rw_label rw of J_str label \<Rightarrow>
        (case time_of w (rw_start rw) of Inl e \<Rightarrow> Inl e | Inr started \<Rightarrow>
         Inr \<lparr>w_model_type = model_type, w_classification = classify label (anomalies \<noteq> []), w_label = label,
          w_anomaly_buckets = length anomalies, w_bucket_count = length features,
          w_delay = detection_delay_seconds started first,
          x_model_file = model_file, x_registry = info, x_scenario = rw_scenario rw, x_flow_count = length flows,
          x_detected = (anomalies \<noteq> []), x_first_detection = first, x_anomaly_bucket_rate = rate,
          x_false_positive_rate = (if \<not> is_positive_label label then rate else Finite 0),
          x_peak_anomaly_score = float_max (map (\<lambda>r. raw_score (score_row.truncate r)) scores),
          x_min_anomaly_score = float_min (map (\<lambda>r. raw_score (score_row.truncate r)) scores),
          x_max_score_margin = float_max (map sc_score_margin scores), x_scores = scores\<rparr>)
      | _ \<Rightarrow> Inl Not_text)"

section \<open>The windows\<close>

definition field :: "(string \<times> json) list \<Rightarrow> string \<Rightarrow> json" where
  "field window key = (case map_of window key of None \<Rightarrow> J_null | Some v \<Rightarrow> v)"

text \<open>\<open>int(v)\<close>: lists, objects and \<open>None\<close> raise, and so does text that is no number.\<close>

fun json_int :: "json \<Rightarrow> int option" where
  "json_int (J_int i) = Some i"
| "json_int (J_bool b) = Some (if b then 1 else 0)"
| "json_int (J_real x) = Some (if 0 \<le> x then \<lfloor>x\<rfloor> else \<lceil>x\<rceil>)"
| "json_int (J_str s) = parse_int s"
| "json_int _ = None"

definition or_unknown :: "json \<Rightarrow> json" where
  "or_unknown v = (if truthy v then v else J_str ''unknown'')"

definition research_window_of :: "(string \<times> json) list \<Rightarrow> backtest_error + research_window" where
  "research_window_of window =
     (if \<not> truthy (field window ''device_id'') \<or> \<not> truthy (field window ''start'') \<or> \<not> truthy (field window ''end'')
      then Inl Window_incomplete
      else case json_int (field window ''device_id'') of None \<Rightarrow> Inl Bad_device_id
        | Some device \<Rightarrow> Inr \<lparr>rw_device_id = device, rw_start = field window ''start'', rw_end = field window ''end'',
            rw_label = or_unknown (field window ''label''), rw_scenario = or_unknown (field window ''scenario'')\<rparr>)"

definition load_registry_model :: "model_store \<Rightarrow> int \<Rightarrow> backtest_error + registry_row" where
  "load_registry_model s i = (case filter (\<lambda>r. r_id r = i) (registry s) of [] \<Rightarrow> Inl (Model_not_found i) | r # _ \<Rightarrow> Inr r)"

text \<open>\<open>latest_registry_model\<close> with its error, and \<open>str()\<close> of a path that may be \<open>NULL\<close>.\<close>

definition latest_model :: "model_store \<Rightarrow> int \<Rightarrow> string \<Rightarrow> backtest_error + registry_row" where
  "latest_model s device t = (case latest_registry_model s device t of None \<Rightarrow> Inl (No_registry_entry device t) | Some r \<Rightarrow> Inr r)"

definition path_text :: "string option \<Rightarrow> string" where
  "path_text p = (case p of None \<Rightarrow> ''None'' | Some s \<Rightarrow> s)"

text \<open>The model of a window without \<open>--compare-all\<close>: registry row, file and type.\<close>

definition choose_model :: "model_store \<Rightarrow> backtest_args \<Rightarrow> int \<Rightarrow> backtest_error + registry_row option \<times> string \<times> string" where
  "choose_model s args device =
     (let chosen =
       (if b_model_registry_id args \<noteq> None \<and> b_model_registry_id args \<noteq> Some 0
        then (case load_registry_model s (the (b_model_registry_id args)) of Inl e \<Rightarrow> Inl e
          | Inr r \<Rightarrow> Inr (Some r, path_text (r_model_path r), r_model_type r))
        else if b_model_file args = None \<or> b_model_file args = Some []
        then (let t = or_else (b_model_type args) ''isolation_forest'' in
          case latest_model s device t of Inl e \<Rightarrow> Inl e | Inr r \<Rightarrow> Inr (Some r, path_text (r_model_path r), t))
        else Inr (None, the (b_model_file args), or_else (b_model_type args) []))
      in case chosen of Inl e \<Rightarrow> Inl e
        | Inr (info, file, t) \<Rightarrow> if t = [] then Inl Model_type_required else Inr (info, file, t))"

text \<open>A step for every element, up to the first error.\<close>

fun each :: "('a \<Rightarrow> 'e + 'b) \<Rightarrow> 'a list \<Rightarrow> 'e + 'b list" where
  "each f [] = Inr []"
| "each f (x # xs) = (case f x of Inl e \<Rightarrow> Inl e | Inr y \<Rightarrow> (case each f xs of Inl e \<Rightarrow> Inl e | Inr ys \<Rightarrow> Inr (y # ys)))"

definition run_window ::
  "('c, 'f, 'd) backtest_world \<Rightarrow> model_store \<Rightarrow> backtest_args \<Rightarrow> (string \<times> json) list \<Rightarrow> backtest_error + window_run list" where
  "run_window w s args window =
     (case research_window_of window of Inl e \<Rightarrow> Inl e | Inr rw \<Rightarrow>
      if b_compare_all args
      then each (\<lambda>t. case latest_model s (rw_device_id rw) t of Inl e \<Rightarrow> Inl e
        | Inr r \<Rightarrow> score_window w args rw t (path_text (r_model_path r)) (Some r)) MODEL_TYPES
      else (case choose_model s args (rw_device_id rw) of Inl e \<Rightarrow> Inl e
        | Inr (info, file, t) \<Rightarrow> map_sum id (\<lambda>r. [r]) (score_window w args rw t file info)))"

section \<open>The program\<close>

text \<open>The environment gives the defaults of three options; a bucket length that is no number raises at once.\<close>

definition backtest_options :: options where
  "backtest_options =
     [(''-h'', False), (''--help'', False), (''--device-id'', True), (''--model-type'', True), (''--start'', True), (''--end'', True),
      (''--label'', True), (''--scenario'', True), (''--windows-file'', True), (''--database-path'', True), (''--model-root'', True),
      (''--model-file'', True), (''--model-registry-id'', True), (''--compare-all'', False), (''--bucket-minutes'', True),
      (''--run-id'', True), (''--out-dir'', True)]"

definition backtest_store :: "string \<Rightarrow> string \<Rightarrow> backtest_args \<Rightarrow> arg_error + backtest_args" where
  "backtest_store opt v a =
     (if opt = ''--device-id'' then typed (parse_int v) (\<lambda>x. a\<lparr>b_device_id := Some x\<rparr>)
      else if opt = ''--model-type'' then choice MODEL_TYPES v (a\<lparr>b_model_type := Some v\<rparr>)
      else if opt = ''--start'' then Inr (a\<lparr>b_start := Some v\<rparr>)
      else if opt = ''--end'' then Inr (a\<lparr>b_end := Some v\<rparr>)
      else if opt = ''--label'' then Inr (a\<lparr>b_label := v\<rparr>)
      else if opt = ''--scenario'' then Inr (a\<lparr>b_scenario := v\<rparr>)
      else if opt = ''--windows-file'' then Inr (a\<lparr>b_windows_file := Some v\<rparr>)
      else if opt = ''--database-path'' then Inr (a\<lparr>b_database_path := v\<rparr>)
      else if opt = ''--model-root'' then Inr (a\<lparr>b_model_root := v\<rparr>)
      else if opt = ''--model-file'' then Inr (a\<lparr>b_model_file := Some v\<rparr>)
      else if opt = ''--model-registry-id'' then typed (parse_int v) (\<lambda>x. a\<lparr>b_model_registry_id := Some x\<rparr>)
      else if opt = ''--compare-all'' then Inr (a\<lparr>b_compare_all := True\<rparr>)
      else if opt = ''--bucket-minutes'' then typed (parse_int v) (\<lambda>x. a\<lparr>b_bucket_minutes := x\<rparr>)
      else if opt = ''--run-id'' then Inr (a\<lparr>b_run_id := Some v\<rparr>)
      else if opt = ''--out-dir'' then Inr (a\<lparr>b_out_dir := v\<rparr>)
      else Inl Usage)"

definition backtest_defaults :: "string option \<Rightarrow> string option \<Rightarrow> string option \<Rightarrow> backtest_args option" where
  "backtest_defaults database_path model_path bucket_minutes =
     map_option (\<lambda>minutes.
       \<lparr>b_device_id = None, b_model_type = None, b_start = None, b_end = None, b_label = ''unknown'', b_scenario = ''manual'',
        b_windows_file = None,
        b_database_path = (case database_path of None \<Rightarrow> ''/data/iot-security.db'' | Some p \<Rightarrow> p),
        b_model_root = (case model_path of None \<Rightarrow> ''/data/models'' | Some p \<Rightarrow> p),
        b_model_file = None, b_model_registry_id = None, b_compare_all = False, b_bucket_minutes = minutes, b_run_id = None,
        b_out_dir = ''artifacts/backtests''\<rparr>)
       (parse_int (case bucket_minutes of None \<Rightarrow> ''5'' | Some m \<Rightarrow> m))"

definition from_file :: "backtest_args \<Rightarrow> bool" where
  "from_file args \<longleftrightarrow> b_windows_file args \<noteq> None \<and> b_windows_file args \<noteq> Some []"

definition json_text :: "string option \<Rightarrow> json" where
  "json_text v = (case v of None \<Rightarrow> J_null | Some s \<Rightarrow> J_str s)"

definition windows_of :: "('c, 'f, 'd) backtest_world \<Rightarrow> backtest_args \<Rightarrow> backtest_error + (string \<times> json) list list" where
  "windows_of w args =
     (if from_file args
      then (case bw_windows w (the (b_windows_file args)) of None \<Rightarrow> Inl Windows_unreadable | Some ws \<Rightarrow> Inr ws)
      else Inr [[(''device_id'', case b_device_id args of None \<Rightarrow> J_null | Some i \<Rightarrow> J_int i), (''start'', json_text (b_start args)),
        (''end'', json_text (b_end args)), (''label'', J_str (b_label args)), (''scenario'', J_str (b_scenario args))]])"

definition file_of :: "('c, 'f, 'd) backtest_world \<Rightarrow> backtest_args \<Rightarrow> window_run \<Rightarrow> string" where
  "file_of w args r = output_name (from_file args) (b_compare_all args)
     (case x_scenario r of J_str t \<Rightarrow> t | v \<Rightarrow> bw_str w v) (w_model_type r)"

definition write_scores :: "('c, 'f, 'd) backtest_world \<Rightarrow> backtest_args \<Rightarrow> window_run list \<Rightarrow> (string \<times> scored_row list) list" where
  "write_scores w args runs = fold (\<lambda>r files. AList.update (file_of w args r) (x_scores r) files) runs []"

record backtest_summary =
  su_window_start :: "int option"
  su_window_end :: "int option"
  su_rankings :: "ranking_row list"
  su_results :: "window_run list"

text \<open>\<open>sqlite_ts(value) if value else None\<close>, in seconds.\<close>

definition shown_time :: "('c, 'f, 'd) backtest_world \<Rightarrow> string option \<Rightarrow> backtest_error + int option" where
  "shown_time w v = (if v = None \<or> v = Some [] then Inr None
     else map_sum id (\<lambda>t. Some (t div 1000000)) (time_of w (json_text v)))"

text \<open>\<open>main\<close> after the command line: the score files, and the summary or the error that stopped it.\<close>

definition backtest ::
  "('c, 'f, 'd) backtest_world \<Rightarrow> model_store \<Rightarrow> backtest_args \<Rightarrow> (backtest_error + backtest_summary) \<times> (string \<times> scored_row list) list" where
  "backtest w s args =
     (case windows_of w args of Inl e \<Rightarrow> (Inl e, []) | Inr windows \<Rightarrow>
      case each (run_window w s args) windows of Inl e \<Rightarrow> (Inl e, []) | Inr parts \<Rightarrow>
      let runs = concat parts; files = write_scores w args runs in
      (case shown_time w (b_start args) of Inl e \<Rightarrow> Inl e | Inr t0 \<Rightarrow> case shown_time w (b_end args) of Inl e \<Rightarrow> Inl e
        | Inr t1 \<Rightarrow> Inr \<lparr>su_window_start = t0, su_window_end = t1, su_rankings = model_rankings (map window_result.truncate runs),
            su_results = runs\<rparr>, files))"

datatype backtest_exit =
    B_bad_environment
  | B_usage arg_error
  | B_run "backtest_error + backtest_summary" "(string \<times> scored_row list) list"

definition backtest_main ::
  "('c, 'f, 'd) backtest_world \<Rightarrow> model_store \<Rightarrow> backtest_args option \<Rightarrow> string list \<Rightarrow> backtest_exit" where
  "backtest_main w s defaults words =
     (case defaults of None \<Rightarrow> B_bad_environment | Some a \<Rightarrow>
      case parse_args backtest_options backtest_store a words of Inl e \<Rightarrow> B_usage e
      | Inr args \<Rightarrow> case_prod B_run (backtest w s args))"

end
