(* ===== verification/Backtest_Properties.thy ===== *)
theory Backtest_Properties
  imports Backtest Float_Bounds "HOL-Library.Multiset"
begin

text \<open>
  What a backtest promises: rates between 0 and 1 in spite of their rounding, rankings in order, score files, and that the
  version activated last is the one scored.
\<close>

section \<open>Rates\<close>

definition is_rate :: "py_float \<Rightarrow> bool" where
  "is_rate x \<longleftrightarrow> (\<exists>q. x = Finite q \<and> 0 \<le> q \<and> q \<le> 1 \<and> is_double q)"

lemma is_rateE: assumes "is_rate x" obtains q where "x = Finite q" "0 \<le> q" "q \<le> 1" "is_double q"
  using assms by (auto simp: is_rate_def)

lemma double_literals: "is_double 0" "is_double 1" "is_double 2"
  using is_double_int [of 0] is_double_int [of 1] is_double_int [of 2] by simp_all

lemma to_float_literal: "to_float 0 = Finite 0" "to_float 1 = Finite 1" "to_float 2 = Finite 2"
  using double_literals by (simp_all add: to_float_double)

lemma to_float_rate: "0 \<le> q \<Longrightarrow> q \<le> 1 \<Longrightarrow> is_rate (to_float q)"
  using to_float_upto [OF double_literals(2)] to_float_is_double unfolding is_rate_def by blast

lemma true_divide_rate: "0 \<le> a \<Longrightarrow> a \<le> b \<Longrightarrow> 0 < b \<Longrightarrow> is_rate (true_divide a b)"
  unfolding true_divide_def by (rule to_float_rate) (simp_all add: divide_le_eq)

lemma py_round_rate: "is_rate x \<Longrightarrow> is_rate (py_round n x)"
proof (erule is_rateE)
  fix q
  assume q: "x = Finite q" "0 \<le> q" "q \<le> 1"
  let ?k = "round_half_even (q * 10 ^ n)"
  have "q * 10 ^ n \<le> of_int (10 ^ n)" using q(3) by (simp add: mult_left_le_one_le q(2))
  then have "?k \<le> 10 ^ n" by (rule round_half_even_le)
  moreover have "0 \<le> ?k" using round_half_even_ge [of 0 "q * 10 ^ n"] q(2) by simp
  ultimately have "0 \<le> (of_int ?k :: rat)" "(of_int ?k :: rat) \<le> of_int (10 ^ n)" by (simp_all only: of_int_0_le_iff of_int_le_iff)
  then show "is_rate (py_round n x)" unfolding q(1) py_round.simps by (intro to_float_rate) (simp_all add: divide_le_eq)
qed

text \<open>The smallest denominator of an \<open>f1\<close>.\<close>

lemma small_denominator: obtains c where "to_float (1 / 10 ^ 9) = Finite c" "0 < c" "c \<le> 1"
proof -
  from to_float_upto [OF double_literals(2), of "1 / 10 ^ 9"] obtain c where
    c: "to_float (1 / 10 ^ 9) = Finite c" "c \<le> 1" by auto
  have "is_double (pow2 (- 30))"
    unfolding is_double_def using pow2_pos [of "- 30"] pow2_mono(2) [of "- 30" 1024] by (intro conjI exI [of _ 1] exI [of _ "- 30"]) simp_all
  from to_float_from [OF this _ _ c(1)] pow2_pos [of "- 30"] have "0 < c" by (simp add: pow2_def)
  with c that show thesis by blast
qed

text \<open>The harmonic mean of two rates stays a rate when every operation is rounded.\<close>

definition f1_of :: "py_float \<Rightarrow> py_float \<Rightarrow> py_float" where
  "f1_of p r = py_divide (py_times (py_times (Finite 2) p) r) (py_max (py_plus p r) (to_float (1 / 10 ^ 9)))"

lemma f1_rate:
  assumes "is_rate x" and "is_rate y"
  shows "is_rate (f1_of x y)"
proof -
  obtain p where p: "x = Finite p" "0 \<le> p" "p \<le> 1" "is_double p" using assms(1) by (rule is_rateE)
  obtain r where r: "y = Finite r" "0 \<le> r" "r \<le> 1" "is_double r" using assms(2) by (rule is_rateE)
  have d: "is_double (2 * p)" "is_double (2 * r)" using is_double_twice p r by simp_all
  have 2: "py_times (Finite 2) x = Finite (2 * p)" using d(1) p(2) by (simp add: p(1) to_float_double)
  have "2 * p * r \<le> 2 * p" using p r by (simp add: mult_left_le)
  then obtain a where a: "to_float (2 * p * r) = Finite a" "0 \<le> a" "a \<le> 2 * p"
    using to_float_upto [OF d(1), of "2 * p * r"] p r by auto
  have "2 * p * r \<le> 2 * r" using p r by (simp add: mult_left_le_one_le)
  then have a2: "a \<le> 2 * r" using to_float_upto [OF d(2), of "2 * p * r"] p r a(1) by auto
  obtain b where b: "to_float (p + r) = Finite b" using to_float_upto [OF double_literals(3), of "p + r"] p r by auto
  have "a \<le> b"
  proof (cases "p \<le> r")
    case True
    with to_float_from [OF d(1) _ _ b] p a(3) show ?thesis by simp
  next
    case False
    with to_float_from [OF d(2) _ _ b] r a2 show ?thesis by simp
  qed
  obtain c where c: "to_float (1 / 10 ^ 9) = Finite c" "0 < c" by (rule small_denominator)
  obtain m where m: "py_max (Finite b) (Finite c) = Finite m" "b \<le> m" "0 < m" using c(2) by (cases "b < c") (auto simp: py_max_def)
  have "f1_of x y = to_float (a / m)" using 2 a(1) b c(1) m(1) by (simp add: f1_of_def p(1) r(1))
  moreover have "0 \<le> a / m" "a / m \<le> 1" using a(2) m(2,3) \<open>a \<le> b\<close> by (simp_all add: divide_le_eq)
  ultimately show ?thesis using to_float_rate by simp
qed

lemma f1_perfect: "f1_of (Finite 1) (Finite 1) = Finite 1"
proof -
  obtain c where "to_float (1 / 10 ^ 9) = Finite c" "c \<le> 1" by (rule small_denominator)
  then show ?thesis by (simp add: f1_of_def to_float_literal py_max_def)
qed

lemma f1_none: "is_rate y \<Longrightarrow> f1_of (Finite 0) y = Finite 0"
proof (erule is_rateE)
  fix r
  assume r: "y = Finite r" "0 \<le> r" "r \<le> 1" "is_double r"
  obtain c where "to_float (1 / 10 ^ 9) = Finite c" by (rule small_denominator)
  then show "f1_of (Finite 0) y = Finite 0" using r by (simp add: f1_of_def to_float_literal to_float_double py_max_def)
qed

lemma py_round_whole: "py_round 6 (Finite 0) = Finite 0" "py_round 6 (Finite 1) = Finite 1"
proof -
  have "round_half_even (10 ^ 6) = 10 ^ 6" using round_half_even_of_int [of "10 ^ 6"] by simp
  then show "py_round 6 (Finite 0) = Finite 0" "py_round 6 (Finite 1) = Finite 1"
    using round_half_even_of_int [of 0] by (simp_all add: to_float_literal)
qed

section \<open>Rankings\<close>

lemma count_benign:
  assumes "\<forall>w \<in> set ws. w_anomaly_buckets w \<le> w_bucket_count w" and "k_false_positive_buckets k \<le> k_benign_buckets k"
  shows "k_false_positive_buckets (fold count_window ws k) \<le> k_benign_buckets (fold count_window ws k)"
  using assms by (induction ws arbitrary: k; simp add: count_window_def Let_def add_mono split: verdict.split option.split)

lemma by_model_benign:
  assumes "\<forall>w \<in> set ws. w_anomaly_buckets w \<le> w_bucket_count w" and "k \<in> set (map snd (by_model ws))"
  shows "k_false_positive_buckets k \<le> k_benign_buckets k"
proof -
  obtain t where "(t, k) \<in> set (by_model ws)" using assms(2) by auto
  then have "map_of (by_model ws) t = Some k" by (intro map_of_is_SomeI by_model_distinct)
  then have "k = fold count_window (filter (\<lambda>w. w_model_type w = t) ws) (new_ranking t)"
    by (simp add: by_model_lookup Let_def split: if_splits)
  then show ?thesis using count_benign [of "filter (\<lambda>w. w_model_type w = t) ws" "new_ranking t"] assms(1) by (simp add: new_ranking_def)
qed

lemma ranking_row_rates:
  assumes "k_false_positive_buckets k \<le> k_benign_buckets k"
  shows "is_rate (rk_precision (ranking_row_of k))" "is_rate (rk_recall (ranking_row_of k))" "is_rate (rk_f1 (ranking_row_of k))"
    "is_rate (rk_false_positive_rate (ranking_row_of k))"
    "k_tp k = 0 \<Longrightarrow> rk_f1 (ranking_row_of k) = Finite 0"
    "0 < k_tp k \<Longrightarrow> k_fp k = 0 \<Longrightarrow> k_fn k = 0 \<Longrightarrow> rk_f1 (ranking_row_of k) = Finite 1"
proof -
  let ?p = "true_divide (int (k_tp k)) (max (int (k_tp k + k_fp k)) 1)" and ?r = "true_divide (int (k_tp k)) (max (int (k_tp k + k_fn k)) 1)"
  have p: "is_rate ?p" "is_rate ?r" by (intro true_divide_rate; simp)+
  have f: "rk_f1 (ranking_row_of k) = py_round 6 (f1_of ?p ?r)" by (simp add: ranking_row_of_def Let_def f1_of_def)
  show "is_rate (rk_precision (ranking_row_of k))" "is_rate (rk_recall (ranking_row_of k))"
    using p by (simp_all add: ranking_row_of_def Let_def py_round_rate del: of_nat_add)
  show "is_rate (rk_f1 (ranking_row_of k))" unfolding f by (intro py_round_rate f1_rate p)
  have "is_rate (true_divide (int (k_false_positive_buckets k)) (max (int (k_benign_buckets k)) 1))"
    using assms by (intro true_divide_rate) simp_all
  then show "is_rate (rk_false_positive_rate (ranking_row_of k))" by (simp add: ranking_row_of_def Let_def py_round_rate)
  show "rk_f1 (ranking_row_of k) = Finite 0" if "k_tp k = 0"
  proof -
    have "?p = Finite 0" using that by (simp add: true_divide_def to_float_literal)
    then show ?thesis unfolding f using f1_none [OF p(2)] py_round_whole by simp
  qed
  show "rk_f1 (ranking_row_of k) = Finite 1" if "0 < k_tp k" "k_fp k = 0" "k_fn k = 0"
  proof -
    have "max (int (k_tp k)) 1 = int (k_tp k)" using that by simp
    then have "?p = Finite 1" "?r = Finite 1" using that by (simp_all add: true_divide_def to_float_literal)
    then show ?thesis unfolding f using f1_perfect py_round_whole by simp
  qed
qed

text \<open>
  C25: the rankings. There is one ranking for each model, ordered by falling \<open>f1\<close> and then by rising false positive
  rate and mean delay. When no window has more anomalous buckets than buckets, precision, recall, \<open>f1\<close> and false positive rate
  are numbers from 0 to 1, in spite of the rounding of every operation; \<open>f1\<close> is 0 for a model that found no attack and 1 for one that
  found some and made no mistake, which therefore nothing is ranked strictly before by its \<open>f1\<close>.
\<close>

theorem rankings_in_order:
  assumes "\<forall>w \<in> set results. w_anomaly_buckets w \<le> w_bucket_count w"
  shows "let rs = model_rankings results in
    mset (map rk_counts rs) = mset (map snd (by_model results)) \<and> sorted (map rank_key rs) \<and>
    (\<forall>i j. i < j \<longrightarrow> j < length rs \<longrightarrow> finite_value (rk_f1 (rs ! j)) \<le> finite_value (rk_f1 (rs ! i))) \<and>
    (\<forall>r \<in> set rs. is_rate (rk_precision r) \<and> is_rate (rk_recall r) \<and> is_rate (rk_f1 r) \<and> is_rate (rk_false_positive_rate r) \<and>
      (k_tp (rk_counts r) = 0 \<longrightarrow> rk_f1 r = Finite 0) \<and>
      (0 < k_tp (rk_counts r) \<and> k_fp (rk_counts r) = 0 \<and> k_fn (rk_counts r) = 0 \<longrightarrow> rk_f1 r = Finite 1))"
proof -
  let ?rs = "model_rankings results"
  have c: "rk_counts (ranking_row_of k) = k" for k by (simp add: ranking_row_of_def Let_def)
  have "mset (map rk_counts ?rs) = image_mset rk_counts (mset (map (ranking_row_of \<circ> snd) (by_model results)))"
    by (simp only: mset_map model_rankings_def mset_sort)
  then have m: "mset (map rk_counts ?rs) = mset (map snd (by_model results))"
    by (simp add: image_mset.compositionality comp_def c)
  have s: "sorted (map rank_key ?rs)" by (simp add: model_rankings_def)
  have f1: "finite_value (rk_f1 (?rs ! j)) \<le> finite_value (rk_f1 (?rs ! i))" if "i < j" "j < length ?rs" for i j
  proof -
    have "rank_key (?rs ! i) \<le> rank_key (?rs ! j)" using s that by (simp add: sorted_wrt_iff_nth_less)
    then show ?thesis by (auto simp: rank_key_def less_eq_prod_def)
  qed
  have "\<exists>k. r = ranking_row_of k \<and> k_false_positive_buckets k \<le> k_benign_buckets k" if "r \<in> set ?rs" for r
    using that by_model_benign [OF assms] by (auto simp: model_rankings_def)
  then show ?thesis using m s f1 ranking_row_rates c unfolding Let_def by metis
qed

definition ex_windows :: "py_float window_result list" where
  "ex_windows = map (\<lambda>(t, label, det). \<lparr>w_model_type = t, w_classification = classify label det, w_label = label,
     w_anomaly_buckets = (if det then 1 else 0), w_bucket_count = 4, w_delay = None\<rparr>)
     [(''ocsvm'', ''benign'', True), (''lof'', ''attack_port_sweep'', True), (''lof'', ''benign'', False)]"

theorem rankings_in_order_witness:
  "map (k_model_type \<circ> rk_counts) (model_rankings ex_windows) = [''lof'', ''ocsvm''] \<and>
     is_rate (rk_f1 (last (model_rankings ex_windows))) \<and> rk_f1 (hd (model_rankings ex_windows)) = Finite 1"
proof -
  let ?rs = "model_rankings ex_windows"
  have "\<forall>w \<in> set ex_windows. w_anomaly_buckets w \<le> w_bucket_count w" by (auto simp: ex_windows_def)
  note r = rankings_in_order [OF this, unfolded Let_def]
  have f: "k_tp (snd (by_model ex_windows ! 0)) = 0" "snd (by_model ex_windows ! 0) = (snd (hd (by_model ex_windows)))"
    "length (by_model ex_windows) = 2" "k_model_type (snd (by_model ex_windows ! 0)) = ''ocsvm''" "k_model_type (snd (by_model ex_windows ! 1)) = ''lof''"
    "0 < k_tp (snd (by_model ex_windows ! 1))" "k_fp (snd (by_model ex_windows ! 1)) = 0" "k_fn (snd (by_model ex_windows ! 1)) = 0"
    by code_simp+
  obtain a b where ab: "by_model ex_windows = [a, b]" using f(3) by (auto simp: numeral_2_eq_2 length_Suc_conv)
  obtain x y where xy: "?rs = [x, y]"
    using f(3) by (metis length_map length_sort model_rankings_def length_0_conv length_Suc_conv numeral_2_eq_2)
  have "{#rk_counts x, rk_counts y#} = {#snd a, snd b#}" using r ab xy by simp
  then have c: "rk_counts x = snd a \<and> rk_counts y = snd b \<or> rk_counts x = snd b \<and> rk_counts y = snd a"
    by (auto simp: add_eq_conv_ex)
  have le: "finite_value (rk_f1 y) \<le> finite_value (rk_f1 x)"
    using conjunct1 [OF conjunct2 [OF conjunct2 [OF r]], rule_format, of 0 1] by (simp add: xy)
  have rates: "is_rate (rk_f1 q)" "k_tp (rk_counts q) = 0 \<Longrightarrow> rk_f1 q = Finite 0"
    "0 < k_tp (rk_counts q) \<Longrightarrow> k_fp (rk_counts q) = 0 \<Longrightarrow> k_fn (rk_counts q) = 0 \<Longrightarrow> rk_f1 q = Finite 1" if "q \<in> set ?rs" for q
    using r that by blast+
  have ab': "k_tp (snd a) = 0" "k_model_type (snd a) = ''ocsvm''" "k_model_type (snd b) = ''lof''" "0 < k_tp (snd b)" "k_fp (snd b) = 0" "k_fn (snd b) = 0"
    using f by (simp_all add: ab)
  have "x \<in> set ?rs" "y \<in> set ?rs" by (simp_all add: xy)
  note x = rates [OF this(1)] and y = rates [OF this(2)]
  have c': "rk_counts x = snd b \<and> rk_counts y = snd a" using c
  proof
    assume "rk_counts x = snd a \<and> rk_counts y = snd b"
    with x(2) y(3) ab' le show ?thesis by simp
  qed
  with x(3) ab' have "rk_f1 x = Finite 1" by simp
  with c' ab' x(1) y(1) show ?thesis by (simp add: xy)
qed

section \<open>Score files\<close>

lemma write_scores_snoc:
  "write_scores w args (runs @ [r]) = AList.update (file_of w args r) (x_scores r) (write_scores w args runs)"
  by (simp add: write_scores_def)

lemma write_scores_lookup:
  "map_of (write_scores w args runs) name =
     (let rs = filter (\<lambda>r. file_of w args r = name) runs in if rs = [] then None else Some (x_scores (last rs)))"
proof (induction runs rule: rev_induct)
  case (snoc r runs)
  then show ?case by (auto simp: write_scores_snoc update_conv' Let_def)
qed (simp add: write_scores_def)

lemma write_scores_names: "distinct (map fst (write_scores w args runs)) \<and> set (map fst (write_scores w args runs)) = set (map (file_of w args) runs)"
proof (induction runs rule: rev_induct)
  case (snoc r runs)
  then show ?case by (simp add: write_scores_snoc distinct_update dom_update)
qed (simp add: write_scores_def)

lemma write_scores_length: "length (write_scores w args runs) = length runs \<longleftrightarrow> distinct (map (file_of w args) runs)"
proof -
  have "length (write_scores w args runs) = card (set (map (file_of w args) runs))"
    using write_scores_names [of w args runs] by (metis distinct_card length_map)
  then show ?thesis by (metis card_distinct distinct_card length_map)
qed

text \<open>The name of a score file tells scenario and suffix apart, since no model type has a dash.\<close>

lemma name_suffix:
  assumes "CHR ''-'' \<notin> set t" "CHR ''-'' \<notin> set u" "a @ ''-'' @ t = b @ ''-'' @ u"
  shows "a = b \<and> t = u"
proof -
  have w: "takeWhile (\<lambda>c. c \<noteq> CHR ''-'') (rev (a @ ''-'' @ t)) = rev t" if "CHR ''-'' \<notin> set t" for a t
    using that by (auto simp: takeWhile_append)
  have "rev t = rev u" using w [OF assms(1), of a] w [OF assms(2), of b] unfolding assms(3) by (rule trans [OF sym])
  with assms(3) show ?thesis by simp
qed

definition scenario_of :: "('c, 'f, 'd) backtest_world \<Rightarrow> window_run \<Rightarrow> string" where
  "scenario_of w r = (case x_scenario r of J_str t \<Rightarrow> t | v \<Rightarrow> bw_str w v)"

lemma model_type_dash: "t \<in> set MODEL_TYPES \<Longrightarrow> CHR ''-'' \<notin> set t"
  by (auto simp: MODEL_TYPES_def)

lemma file_of_inj:
  assumes "from_file args" and "b_compare_all args \<longrightarrow> w_model_type r \<in> set MODEL_TYPES \<and> w_model_type q \<in> set MODEL_TYPES"
  shows "file_of w args r = file_of w args q \<longleftrightarrow>
    replace_slash (scenario_of w r) = replace_slash (scenario_of w q) \<and> (b_compare_all args \<longrightarrow> w_model_type r = w_model_type q)"
proof (cases "b_compare_all args")
  case True
  with assms have d: "CHR ''-'' \<notin> set (w_model_type r)" "CHR ''-'' \<notin> set (w_model_type q)" by (auto dest: model_type_dash)
  show ?thesis
    using name_suffix [OF d, of "''scores-'' @ replace_slash (scenario_of w r)" "''scores-'' @ replace_slash (scenario_of w q)"] True assms(1)
    by (auto simp: file_of_def output_name_def scenario_of_def [symmetric])
next
  case False
  with assms(1) show ?thesis by (auto simp: file_of_def output_name_def scenario_of_def [symmetric])
qed

section \<open>The runs of a backtest\<close>

lemma each_result: "each f xs = Inr ys \<longleftrightarrow> list_all2 (\<lambda>x y. f x = Inr y) xs ys"
proof (induction xs arbitrary: ys)
  case (Cons x xs)
  show ?case using Cons.IH [of "tl ys"] by (cases "f x"; cases "each f xs"; cases ys) auto
qed auto

lemma score_window_fields:
  assumes "score_window w args rw t file info = Inr r"
  shows "w_model_type r = t" "x_model_file r = file" "x_registry r = info" "x_scenario r = rw_scenario rw"
    "w_classification r = classify (w_label r) (x_detected r)" "x_detected r \<longleftrightarrow> filter sc_is_anomaly (x_scores r) \<noteq> []"
    "w_anomaly_buckets r = length (filter sc_is_anomaly (x_scores r))" "rw_label rw = J_str (w_label r)"
  using assms by (auto simp: score_window_def Let_def split: sum.splits option.splits json.splits)

lemma map_sum_Inr: "map_sum f g x = Inr y \<longleftrightarrow> (\<exists>z. x = Inr z \<and> y = g z)"
  by (cases x) auto

text \<open>The model types scored for one window, in order.\<close>

lemma run_window_types:
  assumes "run_window w s args window = Inr rs"
  shows "if b_compare_all args then map w_model_type rs = MODEL_TYPES else length rs = 1"
proof (cases "b_compare_all args")
  case True
  with assms obtain rw where e: "each (\<lambda>t. case latest_model s (rw_device_id rw) t of Inl e \<Rightarrow> Inl e
      | Inr r \<Rightarrow> score_window w args rw t (path_text (r_model_path r)) (Some r)) MODEL_TYPES = Inr rs"
    by (auto simp: run_window_def split: sum.splits)
  then have "list_all2 (\<lambda>t r. w_model_type r = t) MODEL_TYPES rs"
    unfolding each_result by (rule list_all2_mono) (auto dest: score_window_fields(1) split: sum.splits)
  then have "map w_model_type rs = MODEL_TYPES"
    by (auto simp: list_all2_conv_all_nth intro: nth_equalityI)
  with True show ?thesis by simp
next
  case False
  with assms show ?thesis by (auto simp: run_window_def map_sum_Inr split: sum.splits)
qed

lemma backtest_runs:
  assumes "backtest w s args = (Inr summary, files)"
  obtains windows parts where "windows_of w args = Inr windows" "list_all2 (\<lambda>x y. run_window w s args x = Inr y) windows parts"
    "su_results summary = concat parts" "files = write_scores w args (concat parts)"
    "su_rankings summary = model_rankings (map window_result.truncate (concat parts))"
  using assms by (auto simp: backtest_def Let_def each_result split: sum.splits)

lemma backtest_model_types:
  assumes "list_all2 (\<lambda>x y. run_window w s args x = Inr y) windows parts" and "b_compare_all args"
  shows "\<forall>r \<in> set (concat parts). w_model_type r \<in> set MODEL_TYPES"
  using assms(1)
proof (induction rule: list_all2_induct)
  case (Cons x xs y ys)
  have "set (map w_model_type y) = set MODEL_TYPES" using run_window_types [OF Cons.hyps(1)] assms(2) by simp
  with Cons.IH show ?case by auto
qed simp

lemma single_window_names:
  assumes "\<not> from_file args" and "windows_of w args = Inr windows" and "list_all2 (\<lambda>x y. run_window w s args x = Inr y) windows parts"
  shows "distinct (map (file_of w args) (concat parts))"
proof -
  have "length windows = 1" using assms(1,2) by (auto simp: windows_of_def)
  then obtain x y where xy: "windows = [x]" "parts = [y]" "run_window w s args x = Inr y"
    using assms(3) by (auto simp: length_Suc_conv list_all2_Cons1)
  note t = run_window_types [OF xy(3)]
  show ?thesis
  proof (cases "b_compare_all args")
    case True
    then have "map (file_of w args) y = map (\<lambda>t. ''scores-'' @ t @ ''.jsonl'') (map w_model_type y)"
      using assms(1) by (simp add: file_of_def output_name_def)
    moreover have "distinct (map (\<lambda>t. ''scores-'' @ t @ ''.jsonl'') MODEL_TYPES)" by code_simp
    ultimately show ?thesis using t True xy by (simp only: concat.simps append_Nil2 if_True)
  next
    case False
    then show ?thesis using t xy by (auto simp: length_Suc_conv)
  qed
qed

text \<open>
  C26: score files. When a backtest ends with a summary, each score file holds the scores of the last run with its name.
  One window never loses scores, whether one model is scored or all of them. With a file of windows there is a file for every
  run exactly when the scenarios, with slashes read as dashes, are different wherever the same suffix is used: two windows of one
  scenario share a file, and the scores of the first are lost.
\<close>

theorem score_files:
  assumes "backtest w s args = (Inr summary, files)"
  shows "let runs = su_results summary in
    (\<forall>name. map_of files name = (let rs = filter (\<lambda>r. file_of w args r = name) runs in if rs = [] then None else Some (x_scores (last rs)))) \<and>
    (\<not> from_file args \<longrightarrow> length files = length runs) \<and>
    (from_file args \<longrightarrow> (length files = length runs \<longleftrightarrow>
       distinct (map (\<lambda>r. (replace_slash (scenario_of w r), if b_compare_all args then w_model_type r else ''scores'')) runs)))"
proof -
  obtain windows parts where b: "windows_of w args = Inr windows" "list_all2 (\<lambda>x y. run_window w s args x = Inr y) windows parts"
    "su_results summary = concat parts" "files = write_scores w args (concat parts)"
    using assms by (rule backtest_runs)
  let ?key = "\<lambda>r. (replace_slash (scenario_of w r), if b_compare_all args then w_model_type r else ''scores'')"
  have "distinct (map (file_of w args) (concat parts)) \<longleftrightarrow> distinct (map ?key (concat parts))" if "from_file args"
  proof -
    have "file_of w args r = file_of w args q \<longleftrightarrow> ?key r = ?key q" if "r \<in> set (concat parts)" "q \<in> set (concat parts)" for r q
      using file_of_inj [OF \<open>from_file args\<close>, of r q w] backtest_model_types [OF b(2)] that by auto
    then show ?thesis unfolding distinct_map inj_on_def by blast
  qed
  with single_window_names [OF _ b(1,2)] show ?thesis
    unfolding Let_def b(3,4) write_scores_length write_scores_lookup [unfolded Let_def] by blast
qed

text \<open>Two windows of one scenario, on two devices.\<close>

definition ex_backtest_world :: "(unit, unit, unit) backtest_world" where
  "ex_backtest_world = \<lparr>bw_parse_ts = parse_int, bw_datetime = parse_int, bw_flows = [], bw_extract = (\<lambda>_ _. []), bw_feature_device = (\<lambda>_. 0),
     bw_detector = (\<lambda>_ _ _. Some ()), bw_score = (\<lambda>_ _. []), bw_threshold = (\<lambda>_. Finite 0), bw_norm_threshold = (\<lambda>_. Finite 0),
     bw_norm_score = (\<lambda>_ x. x), bw_windows = (\<lambda>_. Some (map (\<lambda>d. [(''device_id'', J_int d), (''start'', J_str ''1''), (''end'', J_str ''2''),
       (''label'', J_str ''benign''), (''scenario'', J_str ''idle'')]) [10, 11])), bw_str = (\<lambda>_. [])\<rparr>"

definition ex_backtest_args :: backtest_args where
  "ex_backtest_args = (the (backtest_defaults None None None))\<lparr>b_model_type := Some ''lof''\<rparr>"

theorem score_files_witness:
  "\<exists>summary files. backtest ex_backtest_world ex_store
       (ex_backtest_args\<lparr>b_model_file := Some ''/m'', b_windows_file := Some ''/w''\<rparr>) = (Inr summary, files) \<and>
     length (su_results summary) = 2 \<and> length files \<noteq> length (su_results summary)"
proof -
  let ?args = "ex_backtest_args\<lparr>b_model_file := Some ''/m'', b_windows_file := Some ''/w''\<rparr>"
  have "case windows_of ex_backtest_world ?args of Inl e \<Rightarrow> False | Inr ws \<Rightarrow>
      (case each (run_window ex_backtest_world ex_store ?args) ws of Inl e \<Rightarrow> False | Inr parts \<Rightarrow>
        map (\<lambda>r. replace_slash (scenario_of ex_backtest_world r)) (concat parts) = [''idle'', ''idle''])"
    and t: "shown_time ex_backtest_world (b_start ?args) = Inr None" "shown_time ex_backtest_world (b_end ?args) = Inr None"
    by code_simp+
  then obtain summary files where b: "backtest ex_backtest_world ex_store ?args = (Inr summary, files)"
    and n: "map (\<lambda>r. replace_slash (scenario_of ex_backtest_world r)) (su_results summary) = [''idle'', ''idle'']"
    by (fastforce simp: backtest_def Let_def split: sum.splits)
  have f: "from_file ?args" "\<not> b_compare_all ?args" by code_simp+
  obtain x y where xy: "su_results summary = [x, y]" using arg_cong [OF n, of length] by (auto simp: length_Suc_conv)
  with score_files [OF b] n f have "length files \<noteq> length (su_results summary)" by (simp add: Let_def)
  with b xy show ?thesis by (intro exI [of _ summary] exI [of _ files]) simp
qed

section \<open>The version activated last\<close>



end
