(* ===== verification/Capture_Benchmark.thy ===== *)
theory Capture_Benchmark
  imports Arg_Parser
begin

text \<open>
  The capture benchmark (\<open>src/scripts/benchmark_capture.py\<close>): the commands it runs, the measurement, and its command line.
  What \<open>tcpdump\<close> does to the capture file, what \<open>tshark\<close> answers on it and the clock are given; the JSON text is not modelled.
\<close>

section \<open>Commands\<close>

definition build_tcpdump_command :: "string \<Rightarrow> string \<Rightarrow> int \<Rightarrow> int \<Rightarrow> string list" where
  "build_tcpdump_command iface out packet_count snaplen =
     [''tcpdump'', ''-i'', iface, ''-n'', ''-p'', ''-s'', int_str snaplen, ''-w'', out, ''-c'', int_str packet_count]"

definition build_tshark_command :: "string \<Rightarrow> string list" where
  "build_tshark_command pcap = [''tshark'', ''-r'', pcap, ''-T'', ''fields'', ''-e'', ''frame.number'']"

section \<open>The measurement\<close>

text \<open>
  How a capture ends: with a return code and its standard error, by the time limit, or without having started (an
  \<open>OSError\<close>). A capture is given the capture file there is, if any, and leaves one or none.
\<close>

datatype capture_end = Completed int string | Timed_out | Not_started

datatype parse_end = Parsed string string | Parse_failed string

record 'f bench_env =
  be_capture :: "string list \<Rightarrow> py_float \<Rightarrow> 'f option \<Rightarrow> capture_end \<times> 'f option"
  be_tshark :: "string list \<Rightarrow> 'f \<Rightarrow> parse_end"
  be_size :: "'f \<Rightarrow> nat"
  be_capture_seconds :: py_float
  be_parse_seconds :: py_float

record measurement =
  me_capture_returncode :: int
  me_capture_error :: "string option"
  me_capture_seconds :: py_float
  me_pcap_bytes :: nat
  me_parsed_packets :: nat
  me_parse_error :: "string option"
  me_parse_seconds :: py_float
  me_packets_per_second :: py_float

record bench_result =
  bn_interface :: string
  bn_packet_target :: int
  bn_snaplen :: int
  bn_duration_seconds :: py_float
  bn_pcap_path :: string
  bn_tcpdump_command :: "string list"
  bn_tshark_command :: "string list"
  bn_dry_run :: bool
  bn_measurement :: "measurement option"

definition strip_or_none :: "string \<Rightarrow> string option" where
  "strip_or_none s = (if strip s = [] then None else Some (strip s))"

definition nonblank_lines :: "string \<Rightarrow> nat" where
  "nonblank_lines s = length (filter (\<lambda>line. strip line \<noteq> []) (splitlines s))"

text \<open>The packets \<open>tshark\<close> lists in the capture file and its error, nothing for a missing or empty file.\<close>

definition parse_capture :: "'f bench_env \<Rightarrow> string list \<Rightarrow> 'f option \<Rightarrow> nat \<times> string option" where
  "parse_capture env cmd file = (case file of None \<Rightarrow> (0, None)
     | Some f \<Rightarrow> if be_size env f = 0 then (0, None)
         else (case be_tshark env cmd f of Parsed out err \<Rightarrow> (nonblank_lines out, strip_or_none err) | Parse_failed e \<Rightarrow> (0, if e = [] then None else Some e)))"

text \<open>
  \<open>run_benchmark\<close>: the result, or \<^term>\<open>None\<close> when the capture cannot be started and the exception gets out, and the capture file
  afterwards. \<open>Parse_failed\<close> carries the text of the exception.
\<close>

definition run_benchmark ::
  "'f bench_env \<Rightarrow> string \<Rightarrow> string \<Rightarrow> int \<Rightarrow> int \<Rightarrow> py_float \<Rightarrow> bool \<Rightarrow> 'f option \<Rightarrow> bench_result option \<times> 'f option" where
  "run_benchmark env iface out packet_count snaplen wait dry file =
     (let tcpdump = build_tcpdump_command iface out packet_count snaplen; tshark = build_tshark_command out;
          result = \<lparr>bn_interface = iface, bn_packet_target = packet_count, bn_snaplen = snaplen, bn_duration_seconds = wait,
            bn_pcap_path = out, bn_tcpdump_command = tcpdump, bn_tshark_command = tshark, bn_dry_run = dry, bn_measurement = None\<rparr>
      in if dry then (Some result, file)
         else (case be_capture env tcpdump wait file of
             (Not_started, file') \<Rightarrow> (None, file')
           | (ended, file') \<Rightarrow>
               let (returncode, capture_error) = (case ended of Completed rc err \<Rightarrow> (rc, strip_or_none err) | _ \<Rightarrow> (124, Some ''capture timed out''));
                   (parsed_packets, parse_error) = parse_capture env tshark file'
               in (Some (result\<lparr>bn_measurement := Some \<lparr>me_capture_returncode = returncode, me_capture_error = capture_error,
                     me_capture_seconds = py_round 6 (be_capture_seconds env),
                     me_pcap_bytes = (case file' of None \<Rightarrow> 0 | Some f \<Rightarrow> be_size env f),
                     me_parsed_packets = parsed_packets, me_parse_error = parse_error,
                     me_parse_seconds = py_round 6 (be_parse_seconds env),
                     me_packets_per_second = py_round 2 (py_divide (to_float (of_nat parsed_packets))
                       (py_max (be_capture_seconds env) (to_float (1 / 10 ^ 9))))\<rparr>\<rparr>), file')))"

section \<open>The program\<close>

record bench_args =
  ba_interface :: string
  ba_output :: string
  ba_packet_count :: int
  ba_snaplen :: int
  ba_duration_seconds :: py_float
  ba_dry_run :: bool
  ba_json_path :: "string option"

definition bench_options :: options where
  "bench_options =
     [(''-h'', False), (''--help'', False), (''--interface'', True), (''--output'', True), (''--packet-count'', True), (''--snaplen'', True),
      (''--duration-seconds'', True), (''--dry-run'', False), (''--json'', True)]"

definition bench_store :: "string \<Rightarrow> string \<Rightarrow> bench_args \<Rightarrow> arg_error + bench_args" where
  "bench_store opt v a =
     (if opt = ''--interface'' then Inr (a\<lparr>ba_interface := v\<rparr>)
      else if opt = ''--output'' then Inr (a\<lparr>ba_output := path_str v\<rparr>)
      else if opt = ''--packet-count'' then typed (parse_int v) (\<lambda>x. a\<lparr>ba_packet_count := x\<rparr>)
      else if opt = ''--snaplen'' then typed (parse_int v) (\<lambda>x. a\<lparr>ba_snaplen := x\<rparr>)
      else if opt = ''--duration-seconds'' then typed (parse_float v) (\<lambda>x. a\<lparr>ba_duration_seconds := x\<rparr>)
      else if opt = ''--dry-run'' then Inr (a\<lparr>ba_dry_run := True\<rparr>)
      else if opt = ''--json'' then Inr (a\<lparr>ba_json_path := Some (path_str v)\<rparr>)
      else Inl Usage)"

definition bench_defaults :: bench_args where
  "bench_defaults =
     \<lparr>ba_interface = ''wlan0'', ba_output = ''/tmp/pi-agents-benchmark.pcap'', ba_packet_count = 10000, ba_snaplen = 128,
      ba_duration_seconds = Finite 30, ba_dry_run = False, ba_json_path = None\<rparr>"

text \<open>\<open>main\<close>: the result printed, the file it is written to, and the capture file.\<close>

definition bench_main ::
  "'f bench_env \<Rightarrow> string list \<Rightarrow> 'f option \<Rightarrow> arg_error + (bench_result \<times> string option) option \<times> 'f option" where
  "bench_main env words file =
     (case parse_args bench_options bench_store bench_defaults words of Inl e \<Rightarrow> Inl e | Inr a \<Rightarrow>
      Inr (map_prod (map_option (\<lambda>r. (r, ba_json_path a))) id
        (run_benchmark env (ba_interface a) (ba_output a) (ba_packet_count a) (ba_snaplen a) (ba_duration_seconds a) (ba_dry_run a) file)))"

section \<open>What is measured\<close>


text \<open>A capture that is refused, with the file of an earlier one in its place.\<close>

definition ex_bench_env :: "nat bench_env" where
  "ex_bench_env = \<lparr>be_capture = (\<lambda>_ _ g. (Completed 1 ''no permission'', g)), be_tshark = (\<lambda>_ n. Parsed (concat (replicate n [CHR ''1'', CHR 0x0A])) []),
     be_size = (\<lambda>n. n), be_capture_seconds = Finite 1, be_parse_seconds = Finite 1\<rparr>"


end
