(* ===== verification/Spec2Isabelle.thy ===== *)
theory Spec2Isabelle
  imports Incident_Api Gateway_Blocks Event_Contract Research_Entry Backtest_Properties Capture_Benchmark
begin

text \<open>
  \<^bold>\<open>pi-agents: the Python services, verified.\<close>

  pi-agents watches the traffic of IoT devices behind a Raspberry Pi access point. A Rust sensor
  sends flow events to Kafka, a Flink job turns them into detection transitions and health events, the
  \<^emph>\<open>incident projector\<close> writes these to PostgreSQL, and the \<^emph>\<open>incident API\<close> serves them to browsers over
  HTTP and WebSocket. The \<^emph>\<open>gateway agent\<close> runs the access point itself: it applies a Wi-Fi configuration
  (interface, firewall, \<open>dnsmasq\<close>, \<open>hostapd\<close>), rolls it back, and blocks devices. Producers and consumers
  share Protobuf schemas that a \<^emph>\<open>contract validator\<close> keeps compatible. Scripts make traffic to measure the detection by
  (a \<^emph>\<open>port sweep\<close>, a \<^emph>\<open>device emulator\<close>, and the \<^emph>\<open>research runner\<close> that runs both by a plan), and judge the models
  (\<^emph>\<open>activation\<close>, \<^emph>\<open>backtest\<close>, \<^emph>\<open>capture benchmark\<close>). This development models the services, the validator
  and the scripts, function by function, and proves what they promise.

  \<^bold>\<open>Theories, and the code they model\<close>

  \<^item> \<open>Prelude\<close>: double precision floats and timestamps as the components use them, results, lemmas on
    association lists. \<open>Python_Text\<close>: the methods of \<open>str\<close>, decoded JSON, paths. \<open>Py_Regex\<close>: the part of \<open>re\<close> the validator uses.
    \<open>Ip_Address\<close>: the part of \<open>ipaddress\<close> the gateway agent and the sweep use. \<open>Host\<close>: \<open>subprocess\<close>, with the programs
    on the host as a parameter, and actions that may raise. \<open>Durations\<close>: numbers on command lines, the arithmetic of doubles,
    and the duration functions of the scripts; \<open>Float_Bounds\<close>: facts on its rounding. \<open>Arg_Parser\<close>: command lines as \<open>argparse\<close> reads them.
    \<open>Web_Address\<close>: addresses as \<open>urllib.parse\<close> takes them apart.

  \<^item> \<open>Incident_Db\<close> (\<open>src/images/incident-projector/app/db.py\<close>, \<open>migrations/*.sql\<close>, the messages of
    \<open>src/schemas/events/v2/events.proto\<close>): the tables as association lists in a record \<open>database\<close>, one definition per SQL
    statement and per function; \<open>apply_transition\<close>, \<open>apply_health\<close>, \<open>prune_feed\<close>, \<open>migrate\<close>.

  \<^item> \<open>Incident_Projector\<close> (\<open>projector.py\<close>): the record \<open>projector\<close>, retries with back-off (\<open>with_retry\<close>), \<open>apply\<close>,
    \<open>handle\<close>, \<open>tick\<close>, the main loop. The locale \<open>retryable\<close> states what an operation must promise for a retry to be
    harmless and is interpreted on the three database operations. \<open>Projector_System\<close>: the Kafka log, committed
    offsets, crashes and restarts as an inductive step relation with its invariant. \<open>Projector_Properties\<close>: the theorems.

  \<^item> \<open>Incident_Api\<close> (\<open>src/images/incident-api/app/main.py\<close>): store queries, endpoints, the WebSocket session with its catch-up
    loop. The locales \<open>feed_reads\<close> and \<open>append_reads\<close> state what a session relies on of the projector and are
    interpreted on the projector's operations interleaved with the session's reads.

  \<^item> \<open>Gateway_Config\<close> (\<open>src/images/gateway-agent/app/models.py\<close>, \<open>validate.py\<close>, \<open>render.py\<close>): the record
    \<open>wifi_config\<close>, validation, the two rendered files.

  \<^item> \<open>Iptables\<close> (\<open>iptables.py\<close>): chains, jumps, forwarding rules, teardown, device blocks. The locale \<open>iptables_tool\<close>
    states the documented behaviour of the \<open>iptables\<close> program; inside it every operation refines one on abstract
    tables; a kernel model meets it.

  \<^item> \<open>Gateway_Runtime\<close> (\<open>state.py\<close>, \<open>status.py\<close>, \<open>main.py\<close>): the record \<open>gateway\<close> (files of the state directory, the two managed
    processes, their error texts, the host), apply, rollback, restore, stop, status and the endpoints.
    \<open>Gateway_System\<close>: what an apply leaves behind on every branch, and the runs of the agent as an inductive step
    relation. \<open>Gateway_Properties\<close>: the theorems. \<open>Gateway_Firewall\<close>: the locale \<open>gateway_host\<close>, which extends
    \<open>iptables_tool\<close>, follows the block chain through the runtime. \<open>Gateway_Blocks\<close>: the block endpoints as a server whose runs
    refine an ordered set of addresses.

  \<^item> \<open>Event_Contract\<close> (\<open>src/scripts/validate_event_contract.py\<close>): reading a schema by pattern matching, comparison with
    the frozen schema and its manifest.

  \<^item> \<open>Port_Sweep\<close>, \<open>Sweep_Setup\<close>, \<open>Sweep_Properties\<close> (\<open>src/scripts/port-sweep.py\<close>): profiles, ports and the probing loop; targets,
    discovery, command line, checks, plan, files and \<open>main\<close>; what discovery finds, and how long a sweep sleeps.

  \<^item> \<open>Iot_Emulator\<close> (\<open>src/scripts/iot-device-emulator.py\<close>): profiles, command line, plan, and the cycles of lookups, requests and
    heartbeats with their events and counters.

  \<^item> \<open>Research_Runner\<close>, \<open>Runner_Properties\<close> (\<open>src/scripts/research-traffic-runner.py\<close>, \<open>src/research.py\<close>): presets, the command of
    each phase, the manifest, the loop over the phases, detaching. \<open>Research_System\<close>: the runner with the two scripts it starts.
    \<open>Research_Entry\<close>: the start without arguments.

  \<^item> \<open>Model_Scripts\<close> (\<open>src/scripts/model-activate.py\<close> and the verdicts and counts of \<open>src/scripts/model-backtest.py\<close>), \<open>Backtest\<close> and
    \<open>Backtest_Properties\<close> (the rest of \<open>model-backtest.py\<close>: command line, windows, scoring, rankings, score files, summary).
    \<open>Capture_Benchmark\<close> (\<open>src/scripts/benchmark_capture.py\<close>).

  \<^item> This theory holds the properties that span the gateway's runtime, its firewall and its endpoints.

  \<^bold>\<open>What the theorems show\<close>

  \<^item> Projector: exactly-once effect across lost connections, crashes and redelivery; the incidents shown do not depend
    on the order of delivery; offsets are committed after the database; retries end once the database is
    reachable; which messages can never be taken and that they block their partition.
  \<^item> API: a session sends each change at most once, in order and without silent gaps, or resets; its catch-up
    ends; when a pruned feed hides a gap.
  \<^item> Gateway: what validation guarantees; rendered files read back, and how a field can inject a line; firewall operations refine
    abstract ones, blocking takes effect before accepting; rollback returns to the configuration that came up last;
    what an apply leaves behind when it fails or raises; the safety gate; blocked devices stay blocked across applies, and do not
    across disabling.
  \<^item> Contract: validation succeeds exactly for compatible schemas and never raises a \<open>KeyError\<close>.
  \<^item> Traffic scripts: the ports accepted; discovery finds exactly the hosts that answer; a sweep ends and probes everything as
    often as asked or says it was interrupted; an emulation ends after whole cycles or names the exception; a run of the
    research follows its plan up to the first failure; every command of a plan is accepted by the script it starts; the
    detached child has the plan of its parent, down to the start without arguments.
  \<^item> Model scripts: an activated model is the only active one and the one a backtest scores; rankings count every window
    once, are in order, and hold rates between 0 and 1 in spite of rounding; which score files are written and which are lost; what a
    capture benchmark reports when the capture or its parsing fails.

  \<^bold>\<open>Parameters and bounds\<close>

  Code outside the repository is a parameter: Protobuf decoders, the reachability of the database server, the programs and
  processes on the gateway's host, pydantic's JSON coding of a configuration, the JSON of a manifest, sockets, name lookups and
  the clock of the scripts (\<open>sweep_world\<close>, \<open>run_env\<close>, \<open>bench_env\<close>), child processes, random choices, and the feature extraction
  and detectors of a backtest (\<open>backtest_world\<close>). What is relied on of it is a hypothesis of the theorems that need it
  (\<open>iptables_tool\<close>, \<open>gateway_host\<close>, \<open>json_codec\<close>, that a shuffle permutes), and each is met by a concrete
  instance. Loops that may run forever (\<open>with_retry\<close>, \<open>send_changes\<close>, \<open>sweep_loop\<close>, \<open>emulator_loop\<close>, \<open>preset_loop\<close>,
  \<open>gap_loop\<close>) are partial functions into \<open>option\<close>, so that not returning is \<^term>\<open>None\<close>; that they return is proved. No fuel is
  used. Characters are code points up to 255; negative zero is taken as zero.

  \<^bold>\<open>Not modelled\<close>

  Logging, the wiring of the services' \<open>main()\<close>, the static page and health probes; failing writes to the gateway's state directory and
  a crash in the middle of an apply; blocking requests that interleave with a running apply; texts of caught
  exceptions; PostgreSQL's resource limits. Of the repository, the Rust sensor, the Java Flink job, the Helm
  charts, manifests and shell scripts (other languages). Of the scripts under \<open>src/scripts\<close>: JSON text and what is
  printed, time stamps and how run ids are made up, failing writes of result files, the query added to the address of the devices API, and the
  parsing of time stamps and of the file of windows in \<open>model-backtest.py\<close>. A sleep is computed, but it acts only through
  the clock, which is given.
\<close>

section \<open>Blocked devices and the runtime\<close>

text \<open>A rollback and a restart apply an enabled configuration, which keeps the block chain.\<close>

lemma rollback_restart_keep:
  assumes host: "gateway_host pf view accepts shown" and j: "json_codec pf" and i: "saved_is pf ups s" and ups: "ups \<noteq> []"
    and b: "view (host s) (FILTER_TABLE, BLOCK_CHAIN) = Some rs"
  shows "view (host (snd (rollback_locked pf s))) (FILTER_TABLE, BLOCK_CHAIN) = Some rs"
    and "view (host (startup pf env s)) (FILTER_TABLE, BLOCK_CHAIN) = Some rs"
proof -
  have e: "enabled (last ups)" using i ups by (simp add: saved_is_def)
  obtain r s' where a: "apply_locked pf (last ups) s = (r, s')" by fastforce
  note k = gateway_host.apply_keeps_blocks [OF host a e b]
  have p: "snd (prefixed w (apply_locked pf (last ups)) s) = s'" for w
    using a by (auto simp: prefixed_def andthen_def returns_def split: sum.splits)
  show "view (host (snd (rollback_locked pf s))) (FILTER_TABLE, BLOCK_CHAIN) = Some rs"
    using rollback_locked_cases [OF j i] ups p k by simp
  have "snd (catching pf v (prefixed w (apply_locked pf (last ups))) s) = s'" for v w
    using p [of w] by (auto simp: catching_def split: prod.splits sum.splits)
  then show "view (host (startup pf env s)) (FILTER_TABLE, BLOCK_CHAIN) = Some rs"
    using saved_lkg_is [OF j i ups] k b by (auto simp: startup_def restore_from_disk_def)
qed

lemma post_apply_keeps:
  assumes host: "gateway_host pf view accepts shown" and "enabled cfg" and "post_apply pf env cfg s = (r, s')"
    and b: "view (host s) (FILTER_TABLE, BLOCK_CHAIN) = Some rs"
  shows "view (host s') (FILTER_TABLE, BLOCK_CHAIN) = Some rs"
proof -
  obtain res k where v: "validate_config (tool pf) cfg (host s) = (res, k)" by fastforce
  then have "view (host (s\<lparr>host := k\<rparr>)) (FILTER_TABLE, BLOCK_CHAIN) = Some rs"
    using gateway_host.validate_view [OF host, of cfg "host s"] b by simp
  from gateway_host.apply_keeps_blocks [OF host _ assms(2) this] this b assms(3) v show ?thesis
    by (auto simp: post_apply_def split: if_splits prod.splits sum.splits)
qed

text \<open>
  C15: a device blocked through the API stays blocked. Whatever the outcome, applying an enabled
  configuration, rolling back to one that came up, and a restart that restores one leave the list of blocked
  devices that \<open>GET /blocked\<close> answers as it was.
\<close>

theorem blocks_survive:
  assumes "gateway_host pf view accepts shown" and "json_codec pf" and "gateway_run pf env s0 ups s" and "\<not> lkg_dir (fs s0)"
    and "view (host s) (FILTER_TABLE, BLOCK_CHAIN) = Some (map drop_rule macs)" and "list_all (\<lambda>m. mac_re m \<and> lower m = m) macs"
    and "(\<exists>r cfg. enabled cfg \<and> post_apply pf env cfg s = (r, s')) \<or> ups \<noteq> [] \<and> (\<exists>r. post_rollback pf env s = (r, s')) \<or>
      ups \<noteq> [] \<and> s' = startup pf env (new_gateway (host s) (fs s))"
  shows "\<exists>k. get_blocked pf (host s') = (Http_ok macs, k)"
proof -
  note host = assms(1)
  note i = saved_is_run [OF assms(3,2,4)]
  have i': "saved_is pf ups (new_gateway (host s) (fs s))"
    using i by (rule saved_is_lkg [rotated]) (simp add: lkg_of_def new_gateway_def)
  have b: "view (host (new_gateway (host s) (fs s))) (FILTER_TABLE, BLOCK_CHAIN) = Some (map drop_rule macs)"
    using assms(5) by (simp add: new_gateway_def)
  from assms(7) have "view (host s') (FILTER_TABLE, BLOCK_CHAIN) = Some (map drop_rule macs)"
    using post_apply_keeps [OF host _ _ assms(5)] rollback_restart_keep(1) [OF host assms(2) i _ assms(5)]
      rollback_restart_keep(2) [OF host assms(2) i' _ b] assms(5)
    by (auto simp: post_rollback_def split: if_splits prod.splits sum.splits)
  from iptables_tool.list_refines [where view = view and k = "host s'", OF gateway_host.axioms(1) [OF host] this] assms(6)
  show ?thesis by (auto simp: get_blocked_def list_all_iff)
qed

theorem blocks_survive_witness:
  "\<exists>s' k. snd (post_apply kernel_platform ex_env ex_config (new_gateway ex_blocked no_files)) = s' \<and>
     get_blocked kernel_platform (host s') = (Http_ok [''aa:bb:cc:00:11:22''], k)"
proof -
  let ?s = "new_gateway ex_blocked no_files"
  obtain r s' where p: "post_apply kernel_platform ex_env ex_config ?s = (r, s')" by fastforce
  have c: "json_codec kernel_platform" using ex_codec by (simp add: json_codec_def kernel_platform_def)
  have "map_of (host ?s) (FILTER_TABLE, BLOCK_CHAIN) = Some (map drop_rule [''aa:bb:cc:00:11:22''])"
    by (simp add: new_gateway_def ex_blocked_def chain_names)
  moreover have "list_all (\<lambda>m. mac_re m \<and> lower m = m) [''aa:bb:cc:00:11:22'']" by code_simp
  moreover have "\<not> lkg_dir (fs ?s)" by (simp add: new_gateway_def no_files_def)
  ultimately have "\<exists>k. get_blocked kernel_platform (host s') = (Http_ok [''aa:bb:cc:00:11:22''], k)"
    using p ex_config_ok(2)
      blocks_survive [where view = map_of and env = ex_env and s' = s', OF kernel_host.gateway_host_axioms c run_start, of ?s "[''aa:bb:cc:00:11:22'']"]
    by blast
  with p show ?thesis by auto
qed

text \<open>
  C17: disabling the gateway forgets the blocked devices. When a configuration that disables the gateway is
  applied and afterwards one that brings it up, \<open>GET /blocked\<close> answers the empty list: every device that was blocked
  before can connect again.
\<close>

theorem disabling_unblocks:
  assumes "gateway_host pf view accepts shown" and "jumps_as_placed (view (host s))" and "\<not> enabled off"
    and "apply_locked pf off s = (Inr x, s1)" and "apply_locked pf cfg s1 = (Inr (True, ''ap applied''), s2)"
  shows "\<exists>k. get_blocked pf (host s2) = (Http_ok [], k)"
proof -
  note host = assms(1)
  from assms(3,4) obtain s' where s': "host s' = host s" "disable pf off s' = (Inr x, s1)"
    unfolding apply_locked_def by (auto elim!: andthen_result dest: gateway_host.write_intent_host [OF host])
  have "view (host s1) (FILTER_TABLE, BLOCK_CHAIN) = None"
    using gateway_host.disable_view [OF host s'(2)] fw_teardown_eq [OF assms(2)] s'(1) by (simp add: own_chains_def)
  from gateway_host.apply_new_chain [OF host assms(5) this]
  have "view (host s2) (FILTER_TABLE, BLOCK_CHAIN) = Some (map drop_rule [])" by simp
  from iptables_tool.list_refines [where view = view and k = "host s2", OF gateway_host.axioms(1) [OF host] this]
  show ?thesis by (auto simp: get_blocked_def)
qed

theorem disabling_unblocks_witness:
  "\<exists>s1 s2 k. apply_locked kernel_platform (ex_config\<lparr>enabled := False\<rparr>) (new_gateway ex_blocked no_files) = (Inr (True, ''gateway disabled''), s1) \<and>
     apply_locked kernel_platform ex_config s1 = (Inr (True, ''ap applied''), s2) \<and> get_blocked kernel_platform (host s2) = (Http_ok [], k)"
proof -
  let ?off = "ex_config\<lparr>enabled := False\<rparr>"
  have e: "let r = apply_locked kernel_platform ?off (new_gateway ex_blocked no_files) in
      fst r = Inr (True, ''gateway disabled'') \<and> fst (apply_locked kernel_platform ex_config (snd r)) = Inr (True, ''ap applied'')"
    by code_simp
  obtain s1 where 1: "apply_locked kernel_platform ?off (new_gateway ex_blocked no_files) = (Inr (True, ''gateway disabled''), s1)"
    using e by (cases "apply_locked kernel_platform ?off (new_gateway ex_blocked no_files)") (simp add: Let_def)
  then obtain s2 where 2: "apply_locked kernel_platform ex_config s1 = (Inr (True, ''ap applied''), s2)"
    using e by (cases "apply_locked kernel_platform ex_config s1") (simp add: Let_def)
  have "jumps_as_placed (map_of (host (new_gateway ex_blocked no_files)))"
    using ex_blocked_placed by (simp add: new_gateway_def)
  from disabling_unblocks [where view = map_of, OF kernel_host.gateway_host_axioms this _ 1 2] 1 2 show ?thesis by auto
qed

end
